(* ===== verification/Prelude.thy ===== *)
theory Prelude
  imports "HOL-Library.Word" "HOL-Library.Sublist" "HOL-Library.Monad_Syntax"
begin

text \<open>
  Shared vocabulary of the development: machine integers, buffer views and substring
  search as the C++ standard library defines them, and the list lemmas every component
  uses. A partial operation of the code (an exception, or a read outside a buffer) is an
  \<open>option\<close> value whose \<open>None\<close> is the failure.
\<close>

named_theorems defs \<open>definitions of the model that a proof may unfold\<close>
named_theorems wf_intros \<open>preservation of the well-formedness invariants\<close>

type_synonym u8 = "8 word"
type_synonym u16 = "16 word"
type_synonym u32 = "32 word"
type_synonym u64 = "64 word"

text \<open>A Qt string is its UTF-16 units.\<close>

type_synonym QString = "u16 list"

section \<open>Buffers and views\<close>

definition nth_opt :: "'a list \<Rightarrow> nat \<Rightarrow> 'a option" where
  "nth_opt xs i = (if i < length xs then Some (xs ! i) else None)"

text \<open>The view of \<open>len\<close> elements at \<open>off\<close>: a pointer plus a length into a buffer.\<close>

definition buf_view :: "'a list \<Rightarrow> nat \<Rightarrow> nat \<Rightarrow> 'a list option" where
  "buf_view buf off len =
     (if off + len \<le> length buf then Some (take len (drop off buf)) else None)"

text \<open>\<open>substr(pos, n)\<close>: throws when \<open>pos\<close> is past the end, else clips \<open>n\<close>.\<close>

definition substr :: "'a list \<Rightarrow> nat \<Rightarrow> nat \<Rightarrow> 'a list option" where
  "substr s pos n = (if pos \<le> length s then Some (take n (drop pos s)) else None)"

lemma nth_opt_Some [simp]: "i < length xs \<Longrightarrow> nth_opt xs i = Some (xs ! i)"
  by (simp add: nth_opt_def)

lemma nth_opt_None [simp]: "length xs \<le> i \<Longrightarrow> nth_opt xs i = None"
  by (simp add: nth_opt_def)

lemma buf_view_Some [simp]:
  "off + len \<le> length buf \<Longrightarrow> buf_view buf off len = Some (take len (drop off buf))"
  by (simp add: buf_view_def)

lemma buf_view_at:
  "buf = pre @ xs @ post \<Longrightarrow> off = length pre \<Longrightarrow> len = length xs \<Longrightarrow>
   buf_view buf off len = Some xs"
  by (simp add: buf_view_def)

lemma substr_to_end [simp]: "n \<le> length s \<Longrightarrow> substr s n (length s) = Some (drop n s)"
  by (simp add: substr_def)

lemma slice_append [simp]:
  "off + len \<le> length xs \<Longrightarrow> take len (drop off (xs @ ys)) = take len (drop off xs)"
  by (simp add: drop_append take_append)

lemma slice_end [simp]: "take (length ys) (drop (length xs) (xs @ ys)) = ys"
  by simp

section \<open>Substring search\<close>

text \<open>\<open>find(needle)\<close>: the first position where the needle occurs.\<close>

fun str_find :: "'a list \<Rightarrow> 'a list \<Rightarrow> nat option" where
  "str_find [] n = (if n = [] then Some 0 else None)"
| "str_find (c # cs) n =
     (if prefix n (c # cs) then Some 0 else map_option Suc (str_find cs n))"

definition occurs_at :: "'a list \<Rightarrow> 'a list \<Rightarrow> nat \<Rightarrow> bool" where
  "occurs_at n h i \<longleftrightarrow> i \<le> length h \<and> prefix n (drop i h)"

lemma occurs_at_0 [simp]: "occurs_at n h 0 \<longleftrightarrow> prefix n h"
  by (simp add: occurs_at_def)

lemma occurs_at_Suc [simp]: "occurs_at n (c # cs) (Suc i) \<longleftrightarrow> occurs_at n cs i"
  by (simp add: occurs_at_def)

lemma occurs_at_Nil [simp]: "occurs_at n [] i \<longleftrightarrow> i = 0 \<and> n = []"
  by (auto simp: occurs_at_def)

lemma str_find_Some_iff:
  "str_find h n = Some i \<longleftrightarrow> occurs_at n h i \<and> (\<forall>j < i. \<not> occurs_at n h j)"
proof (induction h arbitrary: i)
  case Nil
  then show ?case by auto
next
  case (Cons c cs)
  then show ?case
    by (cases i) (auto simp: less_Suc_eq_0_disj)
qed

lemma occurs_at_Cons:
  "occurs_at n (c # cs) i \<longleftrightarrow> (case i of 0 \<Rightarrow> prefix n (c # cs) | Suc j \<Rightarrow> occurs_at n cs j)"
  by (cases i) simp_all

lemma str_find_None_iff: "str_find h n = None \<longleftrightarrow> (\<forall>i. \<not> occurs_at n h i)"
proof (induction h)
  case Nil
  then show ?case by auto
next
  case (Cons c cs)
  then show ?case
    by (auto simp: occurs_at_Cons split: nat.splits)
qed

lemma occurs_at_iff_slice:
  "occurs_at n h i \<longleftrightarrow> i + length n \<le> length h \<and> take (length n) (drop i h) = n"
proof
  assume "occurs_at n h i"
  then obtain zs where "i \<le> length h" "drop i h = n @ zs"
    by (auto simp: occurs_at_def prefix_def)
  moreover from this(2) have "length h - i = length n + length zs"
    by (metis length_append length_drop)
  ultimately show "i + length n \<le> length h \<and> take (length n) (drop i h) = n"
    by simp
next
  assume "i + length n \<le> length h \<and> take (length n) (drop i h) = n"
  then show "occurs_at n h i"
    by (metis add_leD1 occurs_at_def take_is_prefix)
qed

text \<open>\<open>find_last_of(c)\<close>: the last position of a character.\<close>

fun str_rfind :: "'a \<Rightarrow> 'a list \<Rightarrow> nat option" where
  "str_rfind c [] = None"
| "str_rfind c (x # xs) =
     (case str_rfind c xs of
        Some i \<Rightarrow> Some (Suc i)
      | None \<Rightarrow> if x = c then Some 0 else None)"

lemma str_rfind_None_iff: "str_rfind c xs = None \<longleftrightarrow> c \<notin> set xs"
  by (induction xs) (auto split: option.splits)

lemma str_rfind_append:
  "str_rfind c (xs @ ys) =
     (case str_rfind c ys of Some i \<Rightarrow> Some (length xs + i) | None \<Rightarrow> str_rfind c xs)"
  by (induction xs) (auto split: option.splits)

lemma str_rfind_split: "c \<notin> set ys \<Longrightarrow> str_rfind c (xs @ c # ys) = Some (length xs)"
proof -
  assume "c \<notin> set ys"
  then have "str_rfind c ys = None"
    by (simp add: str_rfind_None_iff)
  then show ?thesis by (simp add: str_rfind_append)
qed

section \<open>Machine integers\<close>

lemma unat_of_nat_fits [simp]:
  "n < 2 ^ LENGTH('a) \<Longrightarrow> unat (word_of_nat n :: 'a::len word) = n"
  by (simp add: unat_of_nat)

lemma unat_of_nat_le [simp]: "unat (word_of_nat n :: 'a::len word) \<le> n"
  by (simp add: unat_of_nat)

lemma unat_ucast_up [simp]:
  assumes "LENGTH('a::len) \<le> LENGTH('b::len)"
  shows "unat (ucast (w :: 'a word) :: 'b word) = unat w"
proof -
  have "unat w < 2 ^ LENGTH('b)"
    using unsigned_less [of w, where 'a = nat] assms
    by (meson less_le_trans one_le_numeral power_increasing)
  then show ?thesis
    by (simp add: unsigned_ucast_eq take_bit_nat_eq_self)
qed

lemma unat_of_char:
  assumes "8 \<le> LENGTH('a::len)"
  shows "unat (of_char c :: 'a word) = of_char c"
proof -
  have "(2 :: nat) ^ 8 \<le> 2 ^ LENGTH('a)"
    using assms by (intro power_increasing) simp_all
  then have "(of_char c :: nat) < 2 ^ LENGTH('a)"
    using less_le_trans [OF nat_of_char_less_256 [of c]] by simp
  then show ?thesis
    by (metis of_nat_of_char unat_of_nat_fits)
qed

lemma of_char_word_inj:
  "8 \<le> LENGTH('a::len) \<Longrightarrow> (of_char b :: 'a word) = of_char c \<Longrightarrow> b = c"
  by (metis of_char_eq_iff unat_of_char)

section \<open>Optional computations\<close>

lemma bind_SomeE:
  assumes "Option.bind a f = Some t"
  obtains v where "a = Some v" "f v = Some t"
  using assms by (auto simp: bind_eq_Some_conv)

section \<open>First index of a list\<close>

fun find_idx :: "('a \<Rightarrow> bool) \<Rightarrow> 'a list \<Rightarrow> nat option" where
  "find_idx P [] = None"
| "find_idx P (x # xs) = (if P x then Some 0 else map_option Suc (find_idx P xs))"

lemma find_idx_None_iff: "find_idx P xs = None \<longleftrightarrow> (\<forall>x \<in> set xs. \<not> P x)"
  by (induction xs) auto

lemma find_idx_Some_iff:
  "find_idx P xs = Some i \<longleftrightarrow> i < length xs \<and> P (xs ! i) \<and> (\<forall>j < i. \<not> P (xs ! j))"
proof (induction xs arbitrary: i)
  case Nil
  then show ?case by simp
next
  case (Cons x xs)
  then show ?case by (cases i) (auto simp: less_Suc_eq_0_disj)
qed

lemma map_nth_upt [simp]: "map ((!) xs) [0..<length xs] = xs"
  by (rule map_nth)

end
