(* ===== verification/File_Types.thy ===== *)
theory File_Types
  imports Prelude
begin

text \<open>
  The data the components exchange (\<open>indexer/IFileSystemScanner.h\<close>,
  \<open>indexer/IChangeMonitor.h\<close>): one discovered file, what a scan is asked to cover, and one
  live change. Paths and names are byte strings.
\<close>

unbundle bit_operations_syntax

section \<open>Attribute bits\<close>

definition kAttrDirectory :: u32 where "kAttrDirectory = push_bit 0 1"
definition kAttrSymlink :: u32 where "kAttrSymlink = push_bit 1 1"
definition kAttrHidden :: u32 where "kAttrHidden = push_bit 2 1"

lemma attr_bits_value [simp]:
  "kAttrDirectory = 1" "kAttrSymlink = 2" "kAttrHidden = 4"
  by (simp_all add: kAttrDirectory_def kAttrSymlink_def kAttrHidden_def)

section \<open>Files, scans and changes\<close>

record FileEntry =
  fe_name :: string
  fe_path :: string
  fe_size :: u64
  fe_lastModified :: u64
  fe_attributes :: u32

definition empty_FileEntry :: FileEntry where
  "empty_FileEntry = \<lparr>fe_name = [], fe_path = [], fe_size = 0, fe_lastModified = 0,
     fe_attributes = 0\<rparr>"

record ScanOptions =
  so_rootPaths :: "string list"
  so_excludedPaths :: "string list"

datatype FileChangeType = Added | Removed | Renamed | Modified

record FileChangeEvent =
  fc_type :: FileChangeType
  fc_path :: string
  fc_oldPath :: string

text \<open>The final component of a path, as every producer of a \<open>FileEntry\<close> computes it.\<close>

definition basename :: "string \<Rightarrow> string" where
  "basename path =
     (case str_rfind (CHR ''/'') path of
        None \<Rightarrow> path
      | Some slash \<Rightarrow> drop (slash + 1) path)"

lemma basename_child: "CHR ''/'' \<notin> set name \<Longrightarrow> basename (dir @ CHR ''/'' # name) = name"
  by (simp add: basename_def str_rfind_split)

lemma basename_no_slash: "CHR ''/'' \<notin> set (basename path)"
proof (induction path)
  case Nil
  then show ?case by (simp add: basename_def)
next
  case (Cons x xs)
  show ?case
  proof (cases "str_rfind (CHR ''/'') xs")
    case None
    moreover from None have "CHR ''/'' \<notin> set xs"
      by (simp add: str_rfind_None_iff)
    ultimately show ?thesis by (simp add: basename_def)
  next
    case (Some i)
    with Cons show ?thesis by (simp add: basename_def)
  qed
qed

lemma suffix_basename: "suffix (basename path) path"
  by (auto simp: basename_def suffix_drop split: option.splits)

section \<open>Sample files\<close>

text \<open>A file of a directory, for the concrete instances of the properties.\<close>

definition sample_file :: "string \<Rightarrow> string \<Rightarrow> FileEntry" where
  "sample_file dir name =
     \<lparr>fe_name = name, fe_path = dir @ name, fe_size = 7, fe_lastModified = 9, fe_attributes = 4\<rparr>"

end
