(* ===== verification/Index_Pool.thy ===== *)
theory Index_Pool
  imports File_Types
begin

text \<open>
  The flat-pool index (\<open>storage/EntryMeta.h\<close>, \<open>storage/IndexPool.{h,cpp}\<close>): names and
  paths live in two byte pools, an entry is a fixed-size record of offsets into them, and
  the token spans of each lower-cased name are cached in a third pool. Offsets, lengths and
  counts keep their widths (64, 32 and 16 bits), so the truncating casts of the code are
  casts here. A read outside a pool and a thrown \<open>out_of_range\<close> are \<open>None\<close>.

  The theory shows what makes the layout correct: an invariant that ties every record to
  the pools, its preservation by every operation, and that under it the pool is the list of
  entries that were added, each with its own cached tokens.
\<close>

section \<open>Case folding and token spans\<close>

definition IsSeparator :: "char \<Rightarrow> bool" where
  "IsSeparator c \<longleftrightarrow> c = CHR '' '' \<or> c = CHR ''_'' \<or> c = CHR ''-'' \<or> c = CHR ''.''"

definition fold_char :: "char \<Rightarrow> char" where
  "fold_char c =
     (let n = of_char c :: nat
      in if 65 \<le> n \<and> n \<le> 90 then char_of (n - 65 + 97) else c)"

definition CaseFoldAscii :: "string \<Rightarrow> string" where
  "CaseFoldAscii text = map fold_char text"

record TokenSpan =
  ts_offset :: u32
  ts_length :: u32

definition span :: "nat \<Rightarrow> nat \<Rightarrow> TokenSpan" where
  "span off len = \<lparr>ts_offset = word_of_nat off, ts_length = word_of_nat len\<rparr>"

definition span_eq :: "TokenSpan \<Rightarrow> TokenSpan \<Rightarrow> bool" where
  "span_eq a b \<longleftrightarrow> ts_offset a = ts_offset b \<and> ts_length a = ts_length b"

text \<open>The loop over \<open>text\<close>: \<open>i\<close> is the index of the first remaining byte.\<close>

fun TokenizeToSpans_loop :: "string \<Rightarrow> nat \<Rightarrow> nat \<Rightarrow> bool \<Rightarrow> TokenSpan list" where
  "TokenizeToSpans_loop [] i tokenStart inToken =
     (if inToken then [span tokenStart (i - tokenStart)] else [])"
| "TokenizeToSpans_loop (c # cs) i tokenStart inToken =
     (if IsSeparator c then
        (if inToken
         then span tokenStart (i - tokenStart) # TokenizeToSpans_loop cs (Suc i) tokenStart False
         else TokenizeToSpans_loop cs (Suc i) tokenStart inToken)
      else if \<not> inToken then TokenizeToSpans_loop cs (Suc i) i True
      else TokenizeToSpans_loop cs (Suc i) tokenStart inToken)"

definition TokenizeToSpans :: "string \<Rightarrow> TokenSpan list" where
  "TokenizeToSpans text = TokenizeToSpans_loop text 0 0 False"

definition ApplyTokenSpans :: "string \<Rightarrow> TokenSpan list \<Rightarrow> string list option" where
  "ApplyTokenSpans text spans =
     those (map (\<lambda>sp. substr text (unat (ts_offset sp)) (unat (ts_length sp))) spans)"

section \<open>The pool and its operations\<close>

record EntryMeta =
  em_size :: u64
  em_lastModified :: u64
  em_pathOffset :: u64
  em_nameLowerOffset :: u64
  em_attributes :: u32
  em_pathLen :: u32
  em_nameLowerLen :: u32
  em_nameStart :: u16
  em_deleted :: u8

record IndexPool =
  ip_meta :: "EntryMeta list"
  ip_nameLowerPool :: string
  ip_pathPool :: string
  ip_nameTokenSpans :: "TokenSpan list"
  ip_nameTokenStart :: "u32 list"
  ip_nameTokenCount :: "u16 list"

definition empty_pool :: IndexPool where
  "empty_pool = \<lparr>ip_meta = [], ip_nameLowerPool = [], ip_pathPool = [], ip_nameTokenSpans = [],
     ip_nameTokenStart = [], ip_nameTokenCount = []\<rparr>"

record EntryView =
  ev_name :: string
  ev_nameLower :: string
  ev_path :: string
  ev_size :: u64
  ev_lastModified :: u64
  ev_attributes :: u32
  ev_nameTokenSpans :: "TokenSpan list"

definition AddEntry :: "IndexPool \<Rightarrow> FileEntry \<Rightarrow> IndexPool" where
  "AddEntry p entry =
     (let nameLower = CaseFoldAscii (fe_name entry);
          spans = TokenizeToSpans nameLower;
          m = \<lparr>em_size = fe_size entry, em_lastModified = fe_lastModified entry,
               em_pathOffset = word_of_nat (length (ip_pathPool p)),
               em_nameLowerOffset = word_of_nat (length (ip_nameLowerPool p)),
               em_attributes = fe_attributes entry,
               em_pathLen = word_of_nat (length (fe_path entry)),
               em_nameLowerLen = word_of_nat (length nameLower),
               em_nameStart =
                 word_of_int (int (length (fe_path entry)) - int (length (fe_name entry))),
               em_deleted = 0\<rparr>
      in p\<lparr>ip_pathPool := ip_pathPool p @ fe_path entry,
           ip_nameLowerPool := ip_nameLowerPool p @ nameLower,
           ip_nameTokenStart := ip_nameTokenStart p @ [word_of_nat (length (ip_nameTokenSpans p))],
           ip_nameTokenCount := ip_nameTokenCount p @ [word_of_nat (length spans)],
           ip_nameTokenSpans := ip_nameTokenSpans p @ spans,
           ip_meta := ip_meta p @ [m]\<rparr>)"

definition Count :: "IndexPool \<Rightarrow> nat" where
  "Count p = length (ip_meta p)"

definition GetEntry :: "IndexPool \<Rightarrow> nat \<Rightarrow> EntryView option" where
  "GetEntry p index = do {
     m \<leftarrow> nth_opt (ip_meta p) index;
     path \<leftarrow> buf_view (ip_pathPool p) (unat (em_pathOffset m)) (unat (em_pathLen m));
     name \<leftarrow> substr path (unat (em_nameStart m)) (length path);
     nameLower \<leftarrow> buf_view (ip_nameLowerPool p) (unat (em_nameLowerOffset m))
                    (unat (em_nameLowerLen m));
     start \<leftarrow> nth_opt (ip_nameTokenStart p) index;
     cnt \<leftarrow> nth_opt (ip_nameTokenCount p) index;
     spans \<leftarrow> buf_view (ip_nameTokenSpans p) (unat start) (unat cnt);
     Some \<lparr>ev_name = name, ev_nameLower = nameLower, ev_path = path, ev_size = em_size m,
           ev_lastModified = em_lastModified m, ev_attributes = em_attributes m,
           ev_nameTokenSpans = spans\<rparr> }"

definition MarkDeleted :: "IndexPool \<Rightarrow> nat \<Rightarrow> IndexPool option" where
  "MarkDeleted p index = do {
     m \<leftarrow> nth_opt (ip_meta p) index;
     Some (p\<lparr>ip_meta := (ip_meta p)[index := m\<lparr>em_deleted := 1\<rparr>]\<rparr>) }"

definition IsDeleted :: "IndexPool \<Rightarrow> nat \<Rightarrow> bool option" where
  "IsDeleted p index = map_option (\<lambda>m. em_deleted m \<noteq> 0) (nth_opt (ip_meta p) index)"

text \<open>
  \<open>FindByPath\<close> scans the live entries in index order; the inner option is its
  \<open>std::optional\<close> result.
\<close>

fun FindByPath_loop :: "IndexPool \<Rightarrow> string \<Rightarrow> nat list \<Rightarrow> nat option option" where
  "FindByPath_loop p path [] = Some None"
| "FindByPath_loop p path (i # is) = do {
     deleted \<leftarrow> IsDeleted p i;
     if deleted then FindByPath_loop p path is
     else do {
       v \<leftarrow> GetEntry p i;
       if ev_path v = path then Some (Some i) else FindByPath_loop p path is } }"

definition FindByPath :: "IndexPool \<Rightarrow> string \<Rightarrow> nat option option" where
  "FindByPath p path = FindByPath_loop p path [0..<length (ip_meta p)]"

text \<open>
  \<open>LoadFromPathPool\<close> rebuilds the lower-case pool and the span cache for records read
  from disk, fixing up each record's lower-case offset and length in turn.
\<close>

definition LoadFromPathPool_step :: "IndexPool \<Rightarrow> EntryMeta \<Rightarrow> IndexPool option" where
  "LoadFromPathPool_step p m = do {
     path \<leftarrow> buf_view (ip_pathPool p) (unat (em_pathOffset m)) (unat (em_pathLen m));
     name \<leftarrow> substr path (unat (em_nameStart m)) (length path);
     let nameLower = CaseFoldAscii name;
     let spans = TokenizeToSpans nameLower;
     let m' = m\<lparr>em_nameLowerOffset := word_of_nat (length (ip_nameLowerPool p)),
                em_nameLowerLen := word_of_nat (length nameLower)\<rparr>;
     Some (p\<lparr>ip_nameLowerPool := ip_nameLowerPool p @ nameLower,
             ip_nameTokenStart := ip_nameTokenStart p @ [word_of_nat (length (ip_nameTokenSpans p))],
             ip_nameTokenCount := ip_nameTokenCount p @ [word_of_nat (length spans)],
             ip_nameTokenSpans := ip_nameTokenSpans p @ spans,
             ip_meta := ip_meta p @ [m']\<rparr>) }"

fun LoadFromPathPool_loop :: "EntryMeta list \<Rightarrow> IndexPool \<Rightarrow> IndexPool option" where
  "LoadFromPathPool_loop [] p = Some p"
| "LoadFromPathPool_loop (m # ms) p =
     Option.bind (LoadFromPathPool_step p m) (LoadFromPathPool_loop ms)"

definition LoadFromPathPool :: "EntryMeta list \<Rightarrow> string \<Rightarrow> IndexPool option" where
  "LoadFromPathPool ms pathPool = LoadFromPathPool_loop ms (empty_pool\<lparr>ip_pathPool := pathPool\<rparr>)"

section \<open>Folding keeps lengths and separators\<close>

lemma length_CaseFoldAscii [simp]: "length (CaseFoldAscii s) = length s"
  by (simp add: CaseFoldAscii_def)

lemma CaseFoldAscii_append: "CaseFoldAscii (s @ t) = CaseFoldAscii s @ CaseFoldAscii t"
  by (simp add: CaseFoldAscii_def)

lemma fold_char_separator [simp]: "IsSeparator (fold_char c) = IsSeparator c"
proof (cases "65 \<le> (of_char c :: nat) \<and> (of_char c :: nat) \<le> 90")
  case True
  then have "IsSeparator (fold_char c) = False" "IsSeparator c = False"
    by (auto simp: IsSeparator_def fold_char_def Let_def char_of_eq_iff take_bit_eq_mod)
  then show ?thesis by simp
next
  case False
  then show ?thesis by (auto simp: fold_char_def Let_def)
qed

lemma fold_char_idem [simp]: "fold_char (fold_char c) = fold_char c"
proof -
  have "of_char (char_of (n - 65 + 97) :: char) = n - 65 + 97" if "65 \<le> n" "n \<le> 90" for n :: nat
    using that by (simp add: of_char_of take_bit_eq_mod)
  then show ?thesis by (auto simp: fold_char_def Let_def)
qed

lemma CaseFoldAscii_idem [simp]: "CaseFoldAscii (CaseFoldAscii s) = CaseFoldAscii s"
  by (simp add: CaseFoldAscii_def)

lemma TokenizeToSpans_loop_fold:
  "TokenizeToSpans_loop (map fold_char s) i b t = TokenizeToSpans_loop s i b t"
  by (induction s arbitrary: i b t) auto

lemma TokenizeToSpans_fold [simp]: "TokenizeToSpans (CaseFoldAscii s) = TokenizeToSpans s"
  by (simp add: TokenizeToSpans_def CaseFoldAscii_def TokenizeToSpans_loop_fold)

lemma TokenizeToSpans_loop_length:
  "length (TokenizeToSpans_loop s i b t) \<le> length s + (if t then 1 else 0)"
  by (induction s i b t rule: TokenizeToSpans_loop.induct) auto

lemma length_TokenizeToSpans: "length (TokenizeToSpans s) \<le> length s"
  using TokenizeToSpans_loop_length [of s 0 0 False] by (simp add: TokenizeToSpans_def)

section \<open>The pool as a list of entries\<close>

definition meta_path :: "string \<Rightarrow> EntryMeta \<Rightarrow> string" where
  "meta_path pool m = take (unat (em_pathLen m)) (drop (unat (em_pathOffset m)) pool)"

definition meta_entry :: "string \<Rightarrow> EntryMeta \<Rightarrow> FileEntry" where
  "meta_entry pool m =
     \<lparr>fe_name = drop (unat (em_nameStart m)) (meta_path pool m), fe_path = meta_path pool m,
      fe_size = em_size m, fe_lastModified = em_lastModified m,
      fe_attributes = em_attributes m\<rparr>"

definition pool_abs :: "IndexPool \<Rightarrow> (FileEntry \<times> bool) list" where
  "pool_abs p = map (\<lambda>m. (meta_entry (ip_pathPool p) m, em_deleted m \<noteq> 0)) (ip_meta p)"

definition live_entries :: "IndexPool \<Rightarrow> FileEntry list" where
  "live_entries p = map fst (filter (\<lambda>x. \<not> snd x) (pool_abs p))"

definition view_of :: "FileEntry \<Rightarrow> EntryView" where
  "view_of e =
     \<lparr>ev_name = fe_name e, ev_nameLower = CaseFoldAscii (fe_name e), ev_path = fe_path e,
      ev_size = fe_size e, ev_lastModified = fe_lastModified e,
      ev_attributes = fe_attributes e, ev_nameTokenSpans = TokenizeToSpans (fe_name e)\<rparr>"

text \<open>A record whose reads stay inside the pools; and one whose cached data is right.\<close>

definition meta_in_pool :: "string \<Rightarrow> EntryMeta \<Rightarrow> bool" where
  "meta_in_pool pool m \<longleftrightarrow>
     unat (em_pathOffset m) + unat (em_pathLen m) \<le> length pool \<and>
     unat (em_nameStart m) \<le> unat (em_pathLen m)"

definition entry_safe :: "IndexPool \<Rightarrow> EntryMeta \<Rightarrow> u32 \<Rightarrow> u16 \<Rightarrow> bool" where
  "entry_safe p m start cnt \<longleftrightarrow>
     meta_in_pool (ip_pathPool p) m \<and>
     unat (em_nameLowerOffset m) + unat (em_nameLowerLen m) \<le> length (ip_nameLowerPool p) \<and>
     unat start + unat cnt \<le> length (ip_nameTokenSpans p)"

definition entry_cached :: "IndexPool \<Rightarrow> EntryMeta \<Rightarrow> u32 \<Rightarrow> u16 \<Rightarrow> bool" where
  "entry_cached p m start cnt \<longleftrightarrow>
     (let name = fe_name (meta_entry (ip_pathPool p) m)
      in take (unat (em_nameLowerLen m)) (drop (unat (em_nameLowerOffset m)) (ip_nameLowerPool p))
           = CaseFoldAscii name \<and>
         take (unat cnt) (drop (unat start) (ip_nameTokenSpans p)) = TokenizeToSpans name)"

definition pool_shape :: "IndexPool \<Rightarrow> bool" where
  "pool_shape p \<longleftrightarrow>
     length (ip_nameTokenStart p) = length (ip_meta p) \<and>
     length (ip_nameTokenCount p) = length (ip_meta p)"

definition pool_safe :: "IndexPool \<Rightarrow> bool" where
  "pool_safe p \<longleftrightarrow> pool_shape p \<and>
     (\<forall>i < length (ip_meta p).
        entry_safe p (ip_meta p ! i) (ip_nameTokenStart p ! i) (ip_nameTokenCount p ! i))"

definition pool_inv :: "IndexPool \<Rightarrow> bool" where
  "pool_inv p \<longleftrightarrow> pool_safe p \<and>
     (\<forall>i < length (ip_meta p).
        entry_cached p (ip_meta p ! i) (ip_nameTokenStart p ! i) (ip_nameTokenCount p ! i))"

lemma length_pool_abs [simp]: "length (pool_abs p) = Count p"
  by (simp add: pool_abs_def Count_def)

lemma pool_abs_nth:
  "i < Count p \<Longrightarrow>
   pool_abs p ! i = (meta_entry (ip_pathPool p) (ip_meta p ! i), em_deleted (ip_meta p ! i) \<noteq> 0)"
  by (simp add: pool_abs_def Count_def)

lemma pool_inv_safe: "pool_inv p \<Longrightarrow> pool_safe p"
  by (simp add: pool_inv_def)

lemma empty_pool_inv [simp, intro]: "pool_inv empty_pool"
  by (simp add: pool_inv_def pool_safe_def pool_shape_def empty_pool_def)

lemma pool_abs_empty [simp]: "pool_abs empty_pool = []"
  by (simp add: pool_abs_def empty_pool_def)

section \<open>Reading an entry\<close>

lemma meta_path_in_pool:
  "meta_in_pool pool m \<Longrightarrow> length (meta_path pool m) = unat (em_pathLen m)"
  by (auto simp: meta_in_pool_def meta_path_def)

lemma meta_path_view:
  "meta_in_pool pool m \<Longrightarrow>
   buf_view pool (unat (em_pathOffset m)) (unat (em_pathLen m)) = Some (meta_path pool m)"
  by (simp add: meta_in_pool_def meta_path_def)

lemma meta_name_substr:
  "meta_in_pool pool m \<Longrightarrow>
   substr (meta_path pool m) (unat (em_nameStart m)) (length (meta_path pool m)) =
     Some (fe_name (meta_entry pool m))"
proof -
  assume ok: "meta_in_pool pool m"
  then have "unat (em_nameStart m) \<le> length (meta_path pool m)"
    by (simp add: meta_path_in_pool) (simp add: meta_in_pool_def)
  then show ?thesis by (simp add: meta_entry_def)
qed

lemma fe_path_meta_entry [simp]: "fe_path (meta_entry pool m) = meta_path pool m"
  by (simp add: meta_entry_def)

lemmas meta_views = meta_path_view meta_name_substr

lemma GetEntry_safe:
  assumes "pool_safe p" "i < Count p"
  shows "\<exists>v. GetEntry p i = Some v \<and> ev_path v = fe_path (fst (pool_abs p ! i)) \<and>
             ev_name v = fe_name (fst (pool_abs p ! i))"
proof -
  let ?m = "ip_meta p ! i"
  have safe: "entry_safe p ?m (ip_nameTokenStart p ! i) (ip_nameTokenCount p ! i)"
    and shape: "pool_shape p" and i: "i < length (ip_meta p)"
    using assms by (auto simp: pool_safe_def Count_def)
  then show ?thesis
    using assms(2)
    by (simp add: GetEntry_def entry_safe_def pool_shape_def meta_views pool_abs_nth)
qed

lemma GetEntry_inv:
  assumes "pool_inv p" "i < Count p"
  shows "GetEntry p i = Some (view_of (fst (pool_abs p ! i)))"
proof -
  let ?m = "ip_meta p ! i"
  have "entry_safe p ?m (ip_nameTokenStart p ! i) (ip_nameTokenCount p ! i)"
    and "entry_cached p ?m (ip_nameTokenStart p ! i) (ip_nameTokenCount p ! i)"
    and "pool_shape p" "i < length (ip_meta p)"
    using assms by (auto simp: pool_inv_def pool_safe_def Count_def)
  then show ?thesis
    using assms(2)
    by (simp add: GetEntry_def entry_safe_def entry_cached_def pool_shape_def meta_views
        pool_abs_nth view_of_def Let_def) (simp add: meta_entry_def)
qed

lemma GetEntry_out_of_range [simp]: "Count p \<le> i \<Longrightarrow> GetEntry p i = None"
  by (simp add: GetEntry_def Count_def)

lemma IsDeleted_abs: "i < Count p \<Longrightarrow> IsDeleted p i = Some (snd (pool_abs p ! i))"
  by (simp add: IsDeleted_def Count_def pool_abs_def)

section \<open>Appending a record\<close>

text \<open>
  Both ways a record enters a pool append to all six vectors. Older records are untouched:
  their offsets still point at the same bytes.
\<close>

definition pool_snoc ::
  "IndexPool \<Rightarrow> IndexPool \<Rightarrow> EntryMeta \<Rightarrow> u32 \<Rightarrow> u16 \<Rightarrow> string \<Rightarrow> string \<Rightarrow> TokenSpan list \<Rightarrow> bool"
where
  "pool_snoc p q m start cnt path nameLower spans \<longleftrightarrow>
     ip_meta q = ip_meta p @ [m] \<and> ip_nameTokenStart q = ip_nameTokenStart p @ [start] \<and>
     ip_nameTokenCount q = ip_nameTokenCount p @ [cnt] \<and>
     ip_pathPool q = ip_pathPool p @ path \<and>
     ip_nameLowerPool q = ip_nameLowerPool p @ nameLower \<and>
     ip_nameTokenSpans q = ip_nameTokenSpans p @ spans"

lemma meta_path_append [simp]:
  "meta_in_pool pool m \<Longrightarrow> meta_path (pool @ ext) m = meta_path pool m"
  by (simp add: meta_in_pool_def meta_path_def)

lemma meta_entry_append [simp]:
  "meta_in_pool pool m \<Longrightarrow> meta_entry (pool @ ext) m = meta_entry pool m"
  by (simp add: meta_entry_def)

lemma entry_safe_snoc:
  "pool_snoc p q m st c path low spans \<Longrightarrow> entry_safe p n st' c' \<Longrightarrow> entry_safe q n st' c'"
  by (auto simp: pool_snoc_def entry_safe_def meta_in_pool_def)

lemma entry_cached_snoc:
  "pool_snoc p q m st c path low spans \<Longrightarrow> entry_safe p n st' c' \<Longrightarrow>
   entry_cached p n st' c' \<Longrightarrow> entry_cached q n st' c'"
  by (auto simp: pool_snoc_def entry_safe_def entry_cached_def Let_def)

lemma pool_snoc_safe:
  assumes "pool_snoc p q m st c path low spans" "pool_safe p" "entry_safe q m st c"
  shows "pool_safe q"
  using assms entry_safe_snoc [OF assms(1)]
  by (auto simp: pool_safe_def pool_shape_def pool_snoc_def nth_append less_Suc_eq)

lemma pool_snoc_inv:
  assumes "pool_snoc p q m st c path low spans" "pool_inv p" "entry_safe q m st c"
    and "entry_cached q m st c"
  shows "pool_inv q"
proof -
  have "pool_safe q"
    using assms pool_snoc_safe pool_inv_safe by blast
  moreover have "entry_cached q (ip_meta q ! i) (ip_nameTokenStart q ! i) (ip_nameTokenCount q ! i)"
    if "i < length (ip_meta q)" for i
    using that assms entry_cached_snoc [OF assms(1)]
    by (auto simp: pool_inv_def pool_safe_def pool_shape_def pool_snoc_def nth_append less_Suc_eq)
  ultimately show ?thesis by (simp add: pool_inv_def)
qed

lemma pool_snoc_abs:
  assumes "pool_snoc p q m st c path low spans" "pool_safe p"
  shows "pool_abs q = pool_abs p @ [(meta_entry (ip_pathPool q) m, em_deleted m \<noteq> 0)]"
proof -
  have "meta_in_pool (ip_pathPool p) n" if n: "n \<in> set (ip_meta p)" for n
    using n assms(2) by (auto simp: pool_safe_def entry_safe_def in_set_conv_nth)
  then have "map (\<lambda>n. (meta_entry (ip_pathPool q) n, em_deleted n \<noteq> 0)) (ip_meta p) = pool_abs p"
    using assms(1) by (simp add: pool_abs_def pool_snoc_def)
  then show ?thesis
    using assms(1) by (simp add: pool_abs_def pool_snoc_def)
qed

section \<open>Adding an entry\<close>

text \<open>
  The narrow fields of a record hold what the code assumes of a Linux path: the name ends
  the path, the directory part fits 16 bits, the path 32 bits, and the pools have not
  outgrown their offset widths (\<open>docs/adr/0006\<close>, \<open>docs/adr/0012\<close>).
\<close>

definition entry_fits :: "IndexPool \<Rightarrow> FileEntry \<Rightarrow> bool" where
  "entry_fits p e \<longleftrightarrow>
     suffix (fe_name e) (fe_path e) \<and>
     length (fe_path e) - length (fe_name e) < 2 ^ 16 \<and>
     length (fe_path e) < 2 ^ 32 \<and>
     length (TokenizeToSpans (fe_name e)) < 2 ^ 16 \<and>
     length (ip_pathPool p) < 2 ^ 64 \<and> length (ip_nameLowerPool p) < 2 ^ 64 \<and>
     length (ip_nameTokenSpans p) < 2 ^ 32"

definition AddEntry_meta :: "IndexPool \<Rightarrow> FileEntry \<Rightarrow> EntryMeta" where
  "AddEntry_meta p e = last (ip_meta (AddEntry p e))"

lemma AddEntry_snoc:
  "pool_snoc p (AddEntry p e) (AddEntry_meta p e) (word_of_nat (length (ip_nameTokenSpans p)))
     (word_of_nat (length (TokenizeToSpans (fe_name e)))) (fe_path e) (CaseFoldAscii (fe_name e))
     (TokenizeToSpans (fe_name e))"
  by (simp add: pool_snoc_def AddEntry_def AddEntry_meta_def Let_def)

lemma AddEntry_meta_entry:
  assumes "entry_fits p e"
  shows "meta_in_pool (ip_pathPool (AddEntry p e)) (AddEntry_meta p e)"
    and "meta_entry (ip_pathPool (AddEntry p e)) (AddEntry_meta p e) = e"
proof -
  obtain dir where path: "fe_path e = dir @ fe_name e"
    using assms by (auto simp: entry_fits_def suffix_def)
  have start: "unat (em_nameStart (AddEntry_meta p e)) = length dir"
    using assms path by (simp add: AddEntry_meta_def AddEntry_def Let_def entry_fits_def)
  have off: "unat (em_pathOffset (AddEntry_meta p e)) = length (ip_pathPool p)"
    using assms by (simp add: AddEntry_meta_def AddEntry_def Let_def entry_fits_def)
  have len: "unat (em_pathLen (AddEntry_meta p e)) = length (fe_path e)"
    using assms by (simp add: AddEntry_meta_def AddEntry_def Let_def entry_fits_def)
  have pool: "ip_pathPool (AddEntry p e) = ip_pathPool p @ fe_path e"
    by (simp add: AddEntry_def Let_def)
  show "meta_in_pool (ip_pathPool (AddEntry p e)) (AddEntry_meta p e)"
    by (simp add: meta_in_pool_def start off len pool path)
  show "meta_entry (ip_pathPool (AddEntry p e)) (AddEntry_meta p e) = e"
    by (simp add: meta_entry_def meta_path_def start off len pool path)
      (simp add: AddEntry_meta_def AddEntry_def Let_def path)
qed

lemma AddEntry_entry_safe:
  assumes "entry_fits p e"
  shows "entry_safe (AddEntry p e) (AddEntry_meta p e)
           (word_of_nat (length (ip_nameTokenSpans p)))
           (word_of_nat (length (TokenizeToSpans (fe_name e))))"
proof -
  have "length (fe_name e) \<le> length (fe_path e)"
    using assms by (auto simp: entry_fits_def suffix_def)
  then show ?thesis
    using assms AddEntry_meta_entry(1) [OF assms]
    by (simp add: entry_safe_def entry_fits_def)
      (simp add: AddEntry_meta_def AddEntry_def Let_def)
qed

lemma AddEntry_entry_cached:
  assumes "entry_fits p e"
  shows "entry_cached (AddEntry p e) (AddEntry_meta p e)
           (word_of_nat (length (ip_nameTokenSpans p)))
           (word_of_nat (length (TokenizeToSpans (fe_name e))))"
proof -
  have "length (fe_name e) \<le> length (fe_path e)"
    using assms by (auto simp: entry_fits_def suffix_def)
  then show ?thesis
    using assms
    by (simp add: entry_cached_def AddEntry_meta_entry Let_def entry_fits_def)
      (simp add: AddEntry_meta_def AddEntry_def Let_def)
qed

lemma AddEntry_inv [wf_intros]:
  "pool_inv p \<Longrightarrow> entry_fits p e \<Longrightarrow> pool_inv (AddEntry p e)"
  by (rule pool_snoc_inv [OF AddEntry_snoc _ AddEntry_entry_safe AddEntry_entry_cached])

lemma AddEntry_abs:
  "pool_inv p \<Longrightarrow> entry_fits p e \<Longrightarrow> pool_abs (AddEntry p e) = pool_abs p @ [(e, False)]"
  using pool_snoc_abs [OF AddEntry_snoc pool_inv_safe, of p e] AddEntry_meta_entry(2) [of p e]
  by (simp add: AddEntry_meta_def AddEntry_def Let_def)

lemma Count_AddEntry [simp]: "Count (AddEntry p e) = Suc (Count p)"
  by (simp add: Count_def AddEntry_def Let_def)

lemma Count_empty_pool [simp]: "Count empty_pool = 0"
  by (simp add: Count_def empty_pool_def)

section \<open>Deleting, finding\<close>

lemma MarkDeleted_Some: "i < Count p \<Longrightarrow> \<exists>q. MarkDeleted p i = Some q"
  by (simp add: MarkDeleted_def Count_def)

lemma MarkDeleted_None: "Count p \<le> i \<Longrightarrow> MarkDeleted p i = None"
  by (simp add: MarkDeleted_def Count_def)

lemma MarkDeleted_shape:
  "MarkDeleted p i = Some q \<Longrightarrow>
   i < Count p \<and> q = p\<lparr>ip_meta := (ip_meta p)[i := (ip_meta p ! i)\<lparr>em_deleted := 1\<rparr>]\<rparr>"
  by (cases "i < length (ip_meta p)") (auto simp: MarkDeleted_def Count_def)

lemma meta_entry_deleted [simp]: "meta_entry pool (m\<lparr>em_deleted := d\<rparr>) = meta_entry pool m"
  by (simp add: meta_entry_def meta_path_def)

lemma entry_safe_deleted [simp]:
  "entry_safe (p\<lparr>ip_meta := ms\<rparr>) m st c = entry_safe p m st c"
  "entry_safe p (m\<lparr>em_deleted := d\<rparr>) st c = entry_safe p m st c"
  by (simp_all add: entry_safe_def meta_in_pool_def)

lemma entry_cached_deleted [simp]:
  "entry_cached (p\<lparr>ip_meta := ms\<rparr>) m st c = entry_cached p m st c"
  "entry_cached p (m\<lparr>em_deleted := d\<rparr>) st c = entry_cached p m st c"
  by (simp_all add: entry_cached_def)

lemma MarkDeleted_safe: "MarkDeleted p i = Some q \<Longrightarrow> pool_safe p \<Longrightarrow> pool_safe q"
  by (auto dest!: MarkDeleted_shape simp: pool_safe_def pool_shape_def nth_list_update Count_def)

lemma MarkDeleted_inv [wf_intros]:
  assumes "MarkDeleted p i = Some q" "pool_inv p"
  shows "pool_inv q"
proof -
  have "pool_safe q"
    using assms by (blast intro: MarkDeleted_safe pool_inv_safe)
  then show ?thesis
    using assms by (auto dest!: MarkDeleted_shape simp: pool_inv_def nth_list_update Count_def)
qed

lemma MarkDeleted_abs:
  "MarkDeleted p i = Some q \<Longrightarrow> pool_abs q = (pool_abs p)[i := (fst (pool_abs p ! i), True)]"
  by (auto dest!: MarkDeleted_shape simp: pool_abs_def map_update Count_def)

definition live_path :: "string \<Rightarrow> FileEntry \<times> bool \<Rightarrow> bool" where
  "live_path path x \<longleftrightarrow> \<not> snd x \<and> fe_path (fst x) = path"

lemma FindByPath_loop_safe:
  "pool_safe p \<Longrightarrow> \<forall>i \<in> set is. i < Count p \<Longrightarrow>
   FindByPath_loop p path is = Some (find (\<lambda>i. live_path path (pool_abs p ! i)) is)"
proof (induction "is")
  case Nil
  then show ?case by simp
next
  case (Cons i "is")
  then obtain v where "GetEntry p i = Some v" "ev_path v = fe_path (fst (pool_abs p ! i))"
    using GetEntry_safe [of p i] by auto
  with Cons show ?case
    by (simp add: IsDeleted_abs live_path_def)
qed

lemma find_upt_find_idx:
  "find (\<lambda>i. P (xs ! i)) [0..<length xs] = find_idx P xs"
proof -
  have "find (\<lambda>i. P ((ys @ xs) ! i)) [length ys..<length ys + length xs] =
        map_option (\<lambda>i. length ys + i) (find_idx P xs)" for ys
  proof (induction xs arbitrary: ys)
    case Nil
    then show ?case by simp
  next
    case (Cons x xs)
    have "[length ys..<length ys + length (x # xs)] =
          length ys # [length (ys @ [x])..<length (ys @ [x]) + length xs]"
      by (subst upt_rec) simp
    then show ?case
      using Cons.IH [of "ys @ [x]"]
      by (simp add: nth_append option.map_comp comp_def)
  qed
  from this [of "[]"] show ?thesis
    by (simp add: option.map_ident)
qed

lemma FindByPath_safe:
  "pool_safe p \<Longrightarrow> FindByPath p path = Some (find_idx (live_path path) (pool_abs p))"
  using find_upt_find_idx [of "live_path path" "pool_abs p"]
  by (simp add: FindByPath_def FindByPath_loop_safe Count_def)

section \<open>Rebuilding a pool from records and path bytes\<close>

definition load_meta :: "IndexPool \<Rightarrow> EntryMeta \<Rightarrow> EntryMeta" where
  "load_meta p m =
     m\<lparr>em_nameLowerOffset := word_of_nat (length (ip_nameLowerPool p)),
       em_nameLowerLen := word_of_nat (length (fe_name (meta_entry (ip_pathPool p) m)))\<rparr>"

lemma load_meta_entry [simp]:
  "meta_in_pool pool (load_meta p m) = meta_in_pool pool m"
  "meta_entry pool (load_meta p m) = meta_entry pool m"
  "em_deleted (load_meta p m) = em_deleted m"
  by (simp_all add: load_meta_def meta_in_pool_def meta_entry_def meta_path_def)

lemma length_meta_name:
  "meta_in_pool pool m \<Longrightarrow> length (fe_name (meta_entry pool m)) < 2 ^ 32"
proof -
  assume "meta_in_pool pool m"
  then have "length (fe_name (meta_entry pool m)) \<le> unat (em_pathLen m)"
    by (simp add: meta_entry_def meta_path_in_pool)
  also have "\<dots> < 2 ^ 32"
    using unsigned_less [of "em_pathLen m", where 'a = nat] by simp
  finally show ?thesis .
qed

lemma LoadFromPathPool_step_snoc:
  assumes "meta_in_pool (ip_pathPool p) m"
  defines "name \<equiv> fe_name (meta_entry (ip_pathPool p) m)"
  shows "\<exists>q. LoadFromPathPool_step p m = Some q \<and> ip_pathPool q = ip_pathPool p \<and>
             ip_nameLowerPool q = ip_nameLowerPool p @ CaseFoldAscii name \<and>
             ip_nameTokenSpans q = ip_nameTokenSpans p @ TokenizeToSpans name \<and>
             pool_snoc p q (load_meta p m) (word_of_nat (length (ip_nameTokenSpans p)))
               (word_of_nat (length (TokenizeToSpans name))) [] (CaseFoldAscii name)
               (TokenizeToSpans name)"
  using assms
  by (simp add: LoadFromPathPool_step_def meta_views pool_snoc_def load_meta_def Let_def)

lemma load_entry_safe:
  assumes snoc: "pool_snoc p q (load_meta p m) (word_of_nat (length (ip_nameTokenSpans p)))
      (word_of_nat (length (TokenizeToSpans name))) [] (CaseFoldAscii name) (TokenizeToSpans name)"
    and name: "name = fe_name (meta_entry (ip_pathPool p) m)"
    and "meta_in_pool (ip_pathPool p) m" "length (ip_nameLowerPool p) < 2 ^ 64"
  shows "entry_safe q (load_meta p m) (word_of_nat (length (ip_nameTokenSpans p)))
           (word_of_nat (length (TokenizeToSpans name)))"
  using assms length_meta_name [of "ip_pathPool p" m]
  by (simp add: entry_safe_def pool_snoc_def add_mono) (simp add: load_meta_def)

lemma load_entry_cached:
  assumes snoc: "pool_snoc p q (load_meta p m) (word_of_nat (length (ip_nameTokenSpans p)))
      (word_of_nat (length (TokenizeToSpans name))) [] (CaseFoldAscii name) (TokenizeToSpans name)"
    and name: "name = fe_name (meta_entry (ip_pathPool p) m)"
    and "meta_in_pool (ip_pathPool p) m" "length (ip_nameLowerPool p) < 2 ^ 64"
    and "length (ip_nameTokenSpans p) < 2 ^ 32" "length (TokenizeToSpans name) < 2 ^ 16"
  shows "entry_cached q (load_meta p m) (word_of_nat (length (ip_nameTokenSpans p)))
           (word_of_nat (length (TokenizeToSpans name)))"
  using assms length_meta_name [of "ip_pathPool p" m]
  by (simp add: entry_cached_def pool_snoc_def Let_def) (simp add: load_meta_def)

definition names_of :: "string \<Rightarrow> EntryMeta list \<Rightarrow> string list" where
  "names_of pool ms = map (\<lambda>m. fe_name (meta_entry pool m)) ms"

definition loaded_abs :: "string \<Rightarrow> EntryMeta list \<Rightarrow> (FileEntry \<times> bool) list" where
  "loaded_abs pool ms = map (\<lambda>m. (meta_entry pool m, em_deleted m \<noteq> 0)) ms"

lemma LoadFromPathPool_loop_safe:
  assumes "pool_safe p" "\<forall>m \<in> set ms. meta_in_pool (ip_pathPool p) m"
    and "length (ip_nameLowerPool p) + sum_list (map length (names_of (ip_pathPool p) ms)) < 2 ^ 64"
  shows "\<exists>q. LoadFromPathPool_loop ms p = Some q \<and> pool_safe q \<and>
             ip_pathPool q = ip_pathPool p \<and>
             pool_abs q = pool_abs p @ loaded_abs (ip_pathPool p) ms"
  using assms
proof (induction ms arbitrary: p)
  case Nil
  then show ?case by (simp add: loaded_abs_def)
next
  case (Cons m ms)
  from Cons.prems(2) LoadFromPathPool_step_snoc [of p m] obtain q where
    q: "LoadFromPathPool_step p m = Some q" "ip_pathPool q = ip_pathPool p"
      "ip_nameLowerPool q = ip_nameLowerPool p @ CaseFoldAscii (fe_name (meta_entry (ip_pathPool p) m))"
    and snoc: "pool_snoc p q (load_meta p m) (word_of_nat (length (ip_nameTokenSpans p)))
      (word_of_nat (length (TokenizeToSpans (fe_name (meta_entry (ip_pathPool p) m))))) []
      (CaseFoldAscii (fe_name (meta_entry (ip_pathPool p) m)))
      (TokenizeToSpans (fe_name (meta_entry (ip_pathPool p) m)))"
    by auto
  have "pool_safe q"
    using pool_snoc_safe [OF snoc] load_entry_safe [OF snoc refl] Cons.prems by (simp add: names_of_def)
  moreover have "pool_abs q = pool_abs p @ loaded_abs (ip_pathPool p) [m]"
    using pool_snoc_abs [OF snoc] Cons.prems(1) by (simp add: loaded_abs_def q)
  ultimately show ?case
    using Cons.IH [of q] Cons.prems q by (simp add: names_of_def loaded_abs_def)
qed

lemma LoadFromPathPool_loop_inv:
  assumes "pool_inv p" "\<forall>m \<in> set ms. meta_in_pool (ip_pathPool p) m"
    and "length (ip_nameLowerPool p) + sum_list (map length (names_of (ip_pathPool p) ms)) < 2 ^ 64"
    and "length (ip_nameTokenSpans p) +
           sum_list (map (\<lambda>n. length (TokenizeToSpans n)) (names_of (ip_pathPool p) ms)) < 2 ^ 32"
    and "\<forall>n \<in> set (names_of (ip_pathPool p) ms). length (TokenizeToSpans n) < 2 ^ 16"
    and "LoadFromPathPool_loop ms p = Some r"
  shows "pool_inv r"
  using assms
proof (induction ms arbitrary: p)
  case Nil
  then show ?case by simp
next
  case (Cons m ms)
  from Cons.prems(2) LoadFromPathPool_step_snoc [of p m] obtain q where
    q: "LoadFromPathPool_step p m = Some q" "ip_pathPool q = ip_pathPool p"
      "ip_nameLowerPool q = ip_nameLowerPool p @ CaseFoldAscii (fe_name (meta_entry (ip_pathPool p) m))"
      "ip_nameTokenSpans q = ip_nameTokenSpans p @ TokenizeToSpans (fe_name (meta_entry (ip_pathPool p) m))"
    and snoc: "pool_snoc p q (load_meta p m) (word_of_nat (length (ip_nameTokenSpans p)))
      (word_of_nat (length (TokenizeToSpans (fe_name (meta_entry (ip_pathPool p) m))))) []
      (CaseFoldAscii (fe_name (meta_entry (ip_pathPool p) m)))
      (TokenizeToSpans (fe_name (meta_entry (ip_pathPool p) m)))"
    by auto
  have "pool_inv q"
    using pool_snoc_inv [OF snoc] load_entry_safe [OF snoc refl] load_entry_cached [OF snoc refl]
      Cons.prems(1-5) by (simp add: names_of_def)
  then show ?case
    using Cons.IH [of q] Cons.prems q by (simp add: names_of_def)
qed

lemma fresh_pool:
  "pool_inv (empty_pool\<lparr>ip_pathPool := pool\<rparr>)" "pool_abs (empty_pool\<lparr>ip_pathPool := pool\<rparr>) = []"
  "ip_nameLowerPool empty_pool = []" "ip_nameTokenSpans empty_pool = []"
  by (simp_all add: pool_inv_def pool_safe_def pool_shape_def empty_pool_def pool_abs_def)

lemma LoadFromPathPool_safe:
  assumes "\<forall>m \<in> set ms. meta_in_pool pool m"
    and "sum_list (map length (names_of pool ms)) < 2 ^ 64"
  shows "\<exists>q. LoadFromPathPool ms pool = Some q \<and> pool_safe q \<and>
             ip_pathPool q = pool \<and> pool_abs q = loaded_abs pool ms"
  using LoadFromPathPool_loop_safe [of "empty_pool\<lparr>ip_pathPool := pool\<rparr>" ms] assms
  by (auto simp: LoadFromPathPool_def fresh_pool pool_inv_safe)

lemma LoadFromPathPool_inv:
  assumes "\<forall>m \<in> set ms. meta_in_pool pool m"
    and "sum_list (map length (names_of pool ms)) < 2 ^ 64"
    and "sum_list (map (\<lambda>n. length (TokenizeToSpans n)) (names_of pool ms)) < 2 ^ 32"
    and "\<forall>n \<in> set (names_of pool ms). length (TokenizeToSpans n) < 2 ^ 16"
    and "LoadFromPathPool ms pool = Some q"
  shows "pool_inv q"
  using LoadFromPathPool_loop_inv [of "empty_pool\<lparr>ip_pathPool := pool\<rparr>" ms q] assms
  by (simp add: LoadFromPathPool_def fresh_pool)

section \<open>Properties\<close>

lemma sample_fits:
  "entry_fits empty_pool (sample_file ''/d/'' ''a b'')"
  "entry_fits (AddEntry empty_pool (sample_file ''/d/'' ''a b'')) (sample_file ''/d/'' ''Cat.txt'')"
  by (simp_all add: entry_fits_def sample_file_def empty_pool_def AddEntry_def Let_def
      TokenizeToSpans_def IsSeparator_def CaseFoldAscii_def fold_char_def suffix_def)

text \<open>Adding an entry to a well-formed pool keeps it well formed; the new index reads
  back exactly the entry that was added, with its case-folded name and its own cached token
  spans, and every older index still reads what it read before.\<close>

lemma AddEntry_GetEntry:
  assumes "pool_inv p" "entry_fits p e"
  shows "pool_inv (AddEntry p e) \<and>
         GetEntry (AddEntry p e) (Count p) = Some (view_of e) \<and>
         (\<forall>i < Count p. GetEntry (AddEntry p e) i = GetEntry p i)"
  using assms by (simp add: AddEntry_inv GetEntry_inv AddEntry_abs nth_append)

lemma AddEntry_GetEntry_witness:
  "GetEntry (AddEntry (AddEntry empty_pool (sample_file ''/d/'' ''a b''))
     (sample_file ''/d/'' ''Cat.txt'')) 1 = Some (view_of (sample_file ''/d/'' ''Cat.txt''))"
  using AddEntry_GetEntry [OF AddEntry_inv [OF empty_pool_inv sample_fits(1)] sample_fits(2)]
  by simp

end
