(* ===== verification/Index_Store.thy ===== *)
theory Index_Store
  imports Index_Pool
begin

text \<open>
  The live index (\<open>storage/IIndexStore.h\<close>, \<open>storage/IndexStore.{h,cpp}\<close>): the pool that is
  searched, a staging pool for a bulk build and two timestamps. Each operation runs under
  the store's exclusive lock, so each is one atomic function on the state; \<open>None\<close> is a fault
  inside the pool. The abstract view of a store is the list of its live entries; every
  operation is shown to act on that list as its interface promises, and the interface
  itself is the locale \<open>index_store\<close> that the indexing components build on.
\<close>

section \<open>Path containment\<close>

definition IsUnderPath :: "string \<Rightarrow> string \<Rightarrow> bool" where
  "IsUnderPath path pathPrefix \<longleftrightarrow>
     path = pathPrefix \<or>
     (length path > length pathPrefix \<and> take (length pathPrefix) path = pathPrefix \<and>
      path ! length pathPrefix = CHR ''/'')"

lemma IsUnderPath_iff:
  "IsUnderPath path pre \<longleftrightarrow> path = pre \<or> (\<exists>rest. path = pre @ CHR ''/'' # rest)"
proof
  assume "IsUnderPath path pre"
  then show "path = pre \<or> (\<exists>rest. path = pre @ CHR ''/'' # rest)"
    unfolding IsUnderPath_def by (metis id_take_nth_drop)
qed (auto simp: IsUnderPath_def)

section \<open>State and operations\<close>

record IndexStore =
  is_pool :: IndexPool
  is_stagingPool :: IndexPool
  is_buildTimestampNs :: u64
  is_lastMonitorStopNs :: u64

definition empty_store :: IndexStore where
  "empty_store = \<lparr>is_pool = empty_pool, is_stagingPool = empty_pool, is_buildTimestampNs = 0,
     is_lastMonitorStopNs = 0\<rparr>"

definition BeginWrite :: "IndexStore \<Rightarrow> IndexStore" where
  "BeginWrite s = s\<lparr>is_stagingPool := empty_pool\<rparr>"

definition StageEntry :: "IndexStore \<Rightarrow> FileEntry \<Rightarrow> IndexStore" where
  "StageEntry s entry = s\<lparr>is_stagingPool := AddEntry (is_stagingPool s) entry\<rparr>"

text \<open>Moving the staging pool out leaves its vectors empty.\<close>

definition EndWrite :: "IndexStore \<Rightarrow> IndexStore" where
  "EndWrite s = s\<lparr>is_pool := is_stagingPool s, is_stagingPool := empty_pool\<rparr>"

definition AbortWrite :: "IndexStore \<Rightarrow> IndexStore" where
  "AbortWrite s = s\<lparr>is_stagingPool := empty_pool\<rparr>"

definition ApplyAdd :: "IndexStore \<Rightarrow> FileEntry \<Rightarrow> IndexStore" where
  "ApplyAdd s entry = s\<lparr>is_pool := AddEntry (is_pool s) entry\<rparr>"

definition ApplyRemove :: "IndexStore \<Rightarrow> string \<Rightarrow> IndexStore option" where
  "ApplyRemove s path = do {
     found \<leftarrow> FindByPath (is_pool s) path;
     case found of
       None \<Rightarrow> Some s
     | Some i \<Rightarrow> do { p \<leftarrow> MarkDeleted (is_pool s) i; Some (s\<lparr>is_pool := p\<rparr>) } }"

definition ApplyRename :: "IndexStore \<Rightarrow> string \<Rightarrow> string \<Rightarrow> IndexStore option" where
  "ApplyRename s oldPath newPath = do {
     found \<leftarrow> FindByPath (is_pool s) oldPath;
     p \<leftarrow> (case found of None \<Rightarrow> Some (is_pool s) | Some i \<Rightarrow> MarkDeleted (is_pool s) i);
     let entry = empty_FileEntry\<lparr>fe_path := newPath, fe_name := basename newPath\<rparr>;
     Some (s\<lparr>is_pool := AddEntry p entry\<rparr>) }"

fun RemoveEntriesUnderPath_loop :: "string \<Rightarrow> nat list \<Rightarrow> IndexPool \<Rightarrow> IndexPool option" where
  "RemoveEntriesUnderPath_loop pathPrefix [] p = Some p"
| "RemoveEntriesUnderPath_loop pathPrefix (i # is) p = do {
     deleted \<leftarrow> IsDeleted p i;
     if deleted then RemoveEntriesUnderPath_loop pathPrefix is p
     else do {
       v \<leftarrow> GetEntry p i;
       if IsUnderPath (ev_path v) pathPrefix
       then do { q \<leftarrow> MarkDeleted p i; RemoveEntriesUnderPath_loop pathPrefix is q }
       else RemoveEntriesUnderPath_loop pathPrefix is p } }"

definition RemoveEntriesUnderPath :: "IndexStore \<Rightarrow> string \<Rightarrow> IndexStore option" where
  "RemoveEntriesUnderPath s pathPrefix = do {
     p \<leftarrow> RemoveEntriesUnderPath_loop pathPrefix [0..<Count (is_pool s)] (is_pool s);
     Some (s\<lparr>is_pool := p\<rparr>) }"

definition LoadPool :: "IndexStore \<Rightarrow> IndexPool \<Rightarrow> u64 \<Rightarrow> u64 \<Rightarrow> IndexStore" where
  "LoadPool s pool buildTimestampNs lastMonitorStopNs =
     s\<lparr>is_pool := pool, is_buildTimestampNs := buildTimestampNs,
       is_lastMonitorStopNs := lastMonitorStopNs\<rparr>"

definition SetBuildTimestamp :: "IndexStore \<Rightarrow> u64 \<Rightarrow> IndexStore" where
  "SetBuildTimestamp s ns = s\<lparr>is_buildTimestampNs := ns\<rparr>"

definition GetIndexAgeSeconds :: "IndexStore \<Rightarrow> u64 \<Rightarrow> u64" where
  "GetIndexAgeSeconds s nowNs =
     (if nowNs \<le> is_buildTimestampNs s then 0
      else (nowNs - is_buildTimestampNs s) div 1000000000)"

definition SetLastMonitorStop :: "IndexStore \<Rightarrow> u64 \<Rightarrow> IndexStore" where
  "SetLastMonitorStop s ns = s\<lparr>is_lastMonitorStopNs := ns\<rparr>"

section \<open>The live entries of a pool\<close>

fun drop_first :: "('a \<Rightarrow> bool) \<Rightarrow> 'a list \<Rightarrow> 'a list" where
  "drop_first P [] = []"
| "drop_first P (x # xs) = (if P x then xs else x # drop_first P xs)"

lemma drop_first_none [simp]: "\<forall>x \<in> set xs. \<not> P x \<Longrightarrow> drop_first P xs = xs"
  by (induction xs) auto

lemma set_drop_first_subset: "set (drop_first P xs) \<subseteq> set xs"
  by (induction xs) auto

lemma drop_first_key_filter:
  "distinct (map f xs) \<Longrightarrow> drop_first (\<lambda>x. f x = k) xs = filter (\<lambda>x. f x \<noteq> k) xs"
proof (induction xs)
  case Nil
  then show ?case by simp
next
  case (Cons x xs)
  moreover have "filter (\<lambda>y. f y \<noteq> f x) xs = xs" if "f x \<notin> set (map f xs)"
    using that by (induction xs) auto
  ultimately show ?case by auto
qed

lemma length_drop_first:
  "length (drop_first P xs) = length xs - (if \<exists>x \<in> set xs. P x then 1 else 0)"
proof (induction xs)
  case Nil
  then show ?case by simp
next
  case (Cons x xs)
  then show ?case by (cases xs) auto
qed

definition spec_remove :: "string \<Rightarrow> (FileEntry \<times> bool) list \<Rightarrow> (FileEntry \<times> bool) list" where
  "spec_remove path xs =
     (case find_idx (live_path path) xs of
        None \<Rightarrow> xs | Some i \<Rightarrow> xs[i := (fst (xs ! i), True)])"

definition live_of :: "(FileEntry \<times> bool) list \<Rightarrow> FileEntry list" where
  "live_of xs = map fst (filter (\<lambda>x. \<not> snd x) xs)"

lemma live_of_append [simp]: "live_of (xs @ ys) = live_of xs @ live_of ys"
  by (simp add: live_of_def)

lemma live_of_Nil [simp]: "live_of [] = []"
  by (simp add: live_of_def)

lemma live_of_Cons [simp]: "live_of (x # xs) = (if snd x then live_of xs else fst x # live_of xs)"
  by (simp add: live_of_def)

lemma live_entries_abs: "live_entries p = live_of (pool_abs p)"
  by (simp add: live_entries_def live_of_def)

lemma live_of_spec_remove:
  "live_of (spec_remove path xs) = drop_first (\<lambda>e. fe_path e = path) (live_of xs)"
proof (induction xs)
  case Nil
  then show ?case by (simp add: spec_remove_def)
next
  case (Cons x xs)
  show ?case
  proof (cases "live_path path x")
    case True
    then show ?thesis by (simp add: spec_remove_def live_path_def)
  next
    case False
    then have "spec_remove path (x # xs) = x # spec_remove path xs"
      by (auto simp: spec_remove_def split: option.splits)
    with Cons False show ?thesis by (auto simp: live_path_def)
  qed
qed

section \<open>Refinement of every operation\<close>

definition store_inv :: "IndexStore \<Rightarrow> bool" where
  "store_inv s \<longleftrightarrow> pool_inv (is_pool s) \<and> pool_inv (is_stagingPool s)"

definition store_abs :: "IndexStore \<Rightarrow> (FileEntry \<times> bool) list" where
  "store_abs s = pool_abs (is_pool s)"

definition store_live :: "IndexStore \<Rightarrow> FileEntry list" where
  "store_live s = live_entries (is_pool s)"

definition store_fits :: "IndexStore \<Rightarrow> FileEntry \<Rightarrow> bool" where
  "store_fits s e \<longleftrightarrow> entry_fits (is_pool s) e"

lemma store_live_abs: "store_live s = live_of (store_abs s)"
  by (simp add: store_live_def store_abs_def live_entries_abs)

lemma empty_store_inv [simp]: "store_inv empty_store"
  by (simp add: store_inv_def empty_store_def)

lemma ApplyAdd_refines:
  assumes "store_inv s" "store_fits s e"
  shows "store_inv (ApplyAdd s e)" "store_abs (ApplyAdd s e) = store_abs s @ [(e, False)]"
  using assms
  by (simp_all add: store_inv_def store_fits_def store_abs_def ApplyAdd_def AddEntry_inv AddEntry_abs)

lemma remove_found:
  assumes "pool_inv p" "FindByPath p path = Some (Some i)"
  shows "\<exists>q. MarkDeleted p i = Some q \<and> pool_inv q \<and> pool_abs q = spec_remove path (pool_abs p)"
proof -
  have i: "find_idx (live_path path) (pool_abs p) = Some i"
    using assms by (simp add: FindByPath_safe pool_inv_safe)
  then have "i < Count p"
    by (simp add: find_idx_Some_iff)
  with MarkDeleted_Some obtain q where "MarkDeleted p i = Some q"
    by blast
  moreover from this have "pool_inv q" "pool_abs q = spec_remove path (pool_abs p)"
    using assms(1) i by (auto simp: MarkDeleted_inv MarkDeleted_abs spec_remove_def)
  ultimately show ?thesis by blast
qed

lemma remove_not_found:
  assumes "pool_inv p" "FindByPath p path = Some None"
  shows "spec_remove path (pool_abs p) = pool_abs p"
  using assms by (simp add: FindByPath_safe pool_inv_safe spec_remove_def)

lemma FindByPath_total: "pool_inv p \<Longrightarrow> \<exists>r. FindByPath p path = Some r"
  by (simp add: FindByPath_safe pool_inv_safe)

lemma ApplyRemove_refines:
  assumes "store_inv s"
  shows "\<exists>t. ApplyRemove s path = Some t \<and> store_inv t \<and>
             store_abs t = spec_remove path (store_abs s)"
proof -
  have p: "pool_inv (is_pool s)"
    using assms by (simp add: store_inv_def)
  then obtain r where r: "FindByPath (is_pool s) path = Some r"
    using FindByPath_total by blast
  show ?thesis
  proof (cases r)
    case None
    with p r assms show ?thesis
      by (simp add: ApplyRemove_def store_abs_def remove_not_found)
  next
    case (Some i)
    with remove_found [OF p] r assms show ?thesis
      by (fastforce simp: ApplyRemove_def store_abs_def store_inv_def)
  qed
qed

lemma ApplyRename_refines:
  fixes new :: string
  assumes "store_inv s"
  defines "e \<equiv> empty_FileEntry\<lparr>fe_path := new, fe_name := basename new\<rparr>"
  assumes "store_fits s e"
  shows "\<exists>t. ApplyRename s old new = Some t \<and> store_inv t \<and>
             store_abs t = spec_remove old (store_abs s) @ [(e, False)]"
proof -
  have p: "pool_inv (is_pool s)"
    using assms by (simp add: store_inv_def)
  then obtain r where r: "FindByPath (is_pool s) old = Some r"
    using FindByPath_total by blast
  show ?thesis
  proof (cases r)
    case None
    with p r assms show ?thesis
      by (simp add: ApplyRename_def store_abs_def remove_not_found store_inv_def store_fits_def
          AddEntry_inv AddEntry_abs)
  next
    case (Some i)
    with remove_found [OF p] r obtain q where q: "MarkDeleted (is_pool s) i = Some q"
      "pool_inv q" "pool_abs q = spec_remove old (pool_abs (is_pool s))"
      by blast
    from q(1) have "entry_fits q e = entry_fits (is_pool s) e"
      by (auto dest!: MarkDeleted_shape simp: entry_fits_def)
    with q r Some assms show ?thesis
      by (simp add: ApplyRename_def store_abs_def store_inv_def store_fits_def
          AddEntry_inv AddEntry_abs)
  qed
qed

lemma MarkDeleted_Count: "MarkDeleted p i = Some q \<Longrightarrow> Count q = Count p"
  by (auto dest!: MarkDeleted_shape simp: Count_def)

lemma RemoveEntriesUnderPath_loop_refines:
  assumes "pool_inv p" "\<forall>i \<in> set is. i < Count p"
  shows "\<exists>q. RemoveEntriesUnderPath_loop pre is p = Some q \<and> pool_inv q \<and> Count q = Count p \<and>
             (\<forall>j < Count p. pool_abs q ! j =
                (fst (pool_abs p ! j),
                 snd (pool_abs p ! j) \<or>
                 (j \<in> set is \<and> IsUnderPath (fe_path (fst (pool_abs p ! j))) pre)))"
  using assms
proof (induction "is" arbitrary: p)
  case Nil
  then show ?case by auto
next
  case (Cons i "is")
  let ?x = "pool_abs p ! i"
  have i: "i < Count p" and inv: "pool_inv p" using Cons.prems by auto
  show ?case
  proof (cases "\<not> snd ?x \<and> IsUnderPath (fe_path (fst ?x)) pre")
    case True
    obtain q where q: "MarkDeleted p i = Some q"
      using MarkDeleted_Some [OF i] by blast
    with Cons.IH [of q] Cons.prems obtain r where
      "RemoveEntriesUnderPath_loop pre is q = Some r" "pool_inv r" "Count r = Count p"
      "\<forall>j < Count p. pool_abs r ! j =
         (fst (pool_abs q ! j), snd (pool_abs q ! j) \<or>
          (j \<in> set is \<and> IsUnderPath (fe_path (fst (pool_abs q ! j))) pre))"
      by (auto simp: MarkDeleted_inv MarkDeleted_Count)
    with True q i inv show ?thesis
      by (auto simp: IsDeleted_abs GetEntry_inv view_of_def MarkDeleted_abs nth_list_update)
  next
    case False
    then have "RemoveEntriesUnderPath_loop pre (i # is) p = RemoveEntriesUnderPath_loop pre is p"
      using i inv by (auto simp: IsDeleted_abs GetEntry_inv view_of_def)
    moreover obtain r where "RemoveEntriesUnderPath_loop pre is p = Some r" "pool_inv r"
      "Count r = Count p"
      "\<forall>j < Count p. pool_abs r ! j =
         (fst (pool_abs p ! j), snd (pool_abs p ! j) \<or>
          (j \<in> set is \<and> IsUnderPath (fe_path (fst (pool_abs p ! j))) pre))"
      using Cons.IH [of p] Cons.prems by auto
    ultimately show ?thesis
      using False by auto
  qed
qed

definition spec_remove_under :: "string \<Rightarrow> (FileEntry \<times> bool) list \<Rightarrow> (FileEntry \<times> bool) list" where
  "spec_remove_under pre xs = map (\<lambda>(e, d). (e, d \<or> IsUnderPath (fe_path e) pre)) xs"

lemma live_of_spec_remove_under:
  "live_of (spec_remove_under pre xs) = filter (\<lambda>e. \<not> IsUnderPath (fe_path e) pre) (live_of xs)"
  by (induction xs) (auto simp: spec_remove_under_def)

lemma RemoveEntriesUnderPath_refines:
  assumes "store_inv s"
  shows "\<exists>t. RemoveEntriesUnderPath s pre = Some t \<and> store_inv t \<and>
             store_abs t = spec_remove_under pre (store_abs s)"
proof -
  have "pool_inv (is_pool s)"
    using assms by (simp add: store_inv_def)
  with RemoveEntriesUnderPath_loop_refines [of "is_pool s" "[0..<Count (is_pool s)]" pre]
  obtain q where q: "RemoveEntriesUnderPath_loop pre [0..<Count (is_pool s)] (is_pool s) = Some q"
    "pool_inv q" "Count q = Count (is_pool s)"
    "\<forall>j < Count q. pool_abs q ! j =
       (fst (store_abs s ! j),
        snd (store_abs s ! j) \<or> IsUnderPath (fe_path (fst (store_abs s ! j))) pre)"
    by (auto simp: store_abs_def)
  then have "pool_abs q = spec_remove_under pre (store_abs s)"
    by (intro nth_equalityI) (auto simp: spec_remove_under_def store_abs_def case_prod_beta)
  with q assms show ?thesis
    by (simp add: RemoveEntriesUnderPath_def store_inv_def store_abs_def)
qed

section \<open>The interface the indexing components rely on\<close>

text \<open>
  What \<open>IIndexStore\<close> promises its clients about the live entries. \<open>remove\<close> takes out the first
  live entry of a path only; a client that wants a path gone must know that it is there once.
\<close>

locale index_store =
  fixes inv :: "'s \<Rightarrow> bool"
    and live :: "'s \<Rightarrow> FileEntry list"
    and fits :: "'s \<Rightarrow> FileEntry \<Rightarrow> bool"
    and add :: "'s \<Rightarrow> FileEntry \<Rightarrow> 's"
    and remove :: "'s \<Rightarrow> string \<Rightarrow> 's option"
    and remove_under :: "'s \<Rightarrow> string \<Rightarrow> 's option"
  assumes add_inv: "inv s \<Longrightarrow> fits s e \<Longrightarrow> inv (add s e)"
    and add_live: "inv s \<Longrightarrow> fits s e \<Longrightarrow> live (add s e) = live s @ [e]"
    and remove_total: "inv s \<Longrightarrow>
      \<exists>t. remove s path = Some t \<and> inv t \<and> live t = drop_first (\<lambda>e. fe_path e = path) (live s)"
    and remove_under_total: "inv s \<Longrightarrow>
      \<exists>t. remove_under s pre = Some t \<and> inv t \<and>
          live t = filter (\<lambda>e. \<not> IsUnderPath (fe_path e) pre) (live s)"
begin

definition paths :: "'s \<Rightarrow> string list" where
  "paths s = map fe_path (live s)"

fun removes :: "string list \<Rightarrow> 's \<Rightarrow> 's option" where
  "removes [] s = Some s"
| "removes (p # ps) s = Option.bind (remove s p) (removes ps)"

lemma remove_paths: "inv s \<Longrightarrow> remove s p = Some t \<Longrightarrow> paths t = drop_first (\<lambda>q. q = p) (paths s)"
proof -
  assume "inv s" "remove s p = Some t"
  then have "live t = drop_first (\<lambda>e. fe_path e = p) (live s)"
    using remove_total [of s p] by auto
  moreover have "map f (drop_first (\<lambda>e. f e = p) xs) = drop_first (\<lambda>q. q = p) (map f xs)"
    for f :: "FileEntry \<Rightarrow> string" and xs
    by (induction xs) auto
  ultimately show ?thesis by (simp add: paths_def)
qed

lemma remove_distinct:
  assumes "inv s" "remove s p = Some t" "distinct (paths s)"
  shows "distinct (paths t)" "set (paths t) = set (paths s) - {p}"
proof -
  have "drop_first (\<lambda>q. q = p) (paths s) = filter (\<lambda>q. q \<noteq> p) (paths s)"
    using drop_first_key_filter [of id "paths s" p] assms(3) by simp
  then have "paths t = filter (\<lambda>q. q \<noteq> p) (paths s)"
    using remove_paths [OF assms(1,2)] by simp
  with assms(3) show "distinct (paths t)" "set (paths t) = set (paths s) - {p}"
    by auto
qed

lemma removes_total:
  "inv s \<Longrightarrow> \<exists>t. removes ps s = Some t \<and> inv t \<and> set (paths t) \<subseteq> set (paths s)"
proof (induction ps arbitrary: s)
  case Nil
  then show ?case by simp
next
  case (Cons p ps)
  obtain t where t: "remove s p = Some t" "inv t"
    using remove_total [OF Cons.prems] by blast
  moreover have "set (paths t) \<subseteq> set (paths s)"
    using remove_paths [OF Cons.prems t(1)] set_drop_first_subset by metis
  ultimately show ?case
    using Cons.IH [OF t(2)] by fastforce
qed

lemma removes_distinct:
  "inv s \<Longrightarrow> distinct (paths s) \<Longrightarrow> removes ps s = Some t \<Longrightarrow>
   distinct (paths t) \<and> set (paths t) = set (paths s) - set ps"
proof (induction ps arbitrary: s)
  case Nil
  then show ?case by simp
next
  case (Cons p ps)
  obtain u where u: "remove s p = Some u" "inv u"
    using remove_total [OF Cons.prems(1)] by blast
  with Cons.prems have "distinct (paths u)" "set (paths u) = set (paths s) - {p}"
    using remove_distinct by blast+
  with Cons u show ?case by auto
qed

lemma add_paths: "inv s \<Longrightarrow> fits s e \<Longrightarrow> paths (add s e) = paths s @ [fe_path e]"
  by (simp add: paths_def add_live)

lemma replace_path:
  assumes "inv s" "distinct (paths s)" "remove s (fe_path e) = Some t" "fits t e"
  shows "distinct (paths (add t e))" "e \<in> set (live (add t e))"
    "set (paths (add t e)) = insert (fe_path e) (set (paths s))"
proof -
  have "inv t"
    using remove_total [OF assms(1), of "fe_path e"] assms(3) by auto
  with assms remove_distinct [OF assms(1,3,2)]
  show "distinct (paths (add t e))" "e \<in> set (live (add t e))"
    "set (paths (add t e)) = insert (fe_path e) (set (paths s))"
    by (auto simp: add_paths add_live)
qed

end

interpretation store: index_store store_inv store_live store_fits ApplyAdd ApplyRemove
  RemoveEntriesUnderPath
proof unfold_locales
  fix s e assume "store_inv s" "store_fits s e"
  then show "store_inv (ApplyAdd s e)" "store_live (ApplyAdd s e) = store_live s @ [e]"
    by (simp_all add: ApplyAdd_refines store_live_abs)
next
  fix s path assume "store_inv s"
  then show "\<exists>t. ApplyRemove s path = Some t \<and> store_inv t \<and>
      store_live t = drop_first (\<lambda>e. fe_path e = path) (store_live s)"
    using ApplyRemove_refines [of s path] by (auto simp: store_live_abs live_of_spec_remove)
next
  fix s pre assume "store_inv s"
  then show "\<exists>t. RemoveEntriesUnderPath s pre = Some t \<and> store_inv t \<and>
      store_live t = filter (\<lambda>e. \<not> IsUnderPath (fe_path e) pre) (store_live s)"
    using RemoveEntriesUnderPath_refines [of s pre]
    by (auto simp: store_live_abs live_of_spec_remove_under)
qed

abbreviation store_paths :: "IndexStore \<Rightarrow> string list" where
  "store_paths s \<equiv> store.paths s"

lemma store_paths_def: "store_paths s = map fe_path (store_live s)"
  by (rule store.paths_def)

section \<open>Properties\<close>

definition sample_store :: IndexStore where
  "sample_store =
     ApplyAdd (ApplyAdd empty_store (sample_file ''/d/'' ''a b'')) (sample_file ''/d/'' ''Cat.txt'')"

lemma sample_store_inv: "store_inv sample_store"
  by (simp add: sample_store_def store_inv_def ApplyAdd_def empty_store_def AddEntry_inv sample_fits)

lemma sample_store_live:
  "store_live sample_store = [sample_file ''/d/'' ''a b'', sample_file ''/d/'' ''Cat.txt'']"
  by (simp add: sample_store_def store_live_def ApplyAdd_def empty_store_def live_entries_abs
      AddEntry_abs AddEntry_inv sample_fits)



text \<open>Below the root directory this finds nothing: no path goes on from \<open>/\<close> with another slash, so
  that removing the root \<open>/\<close> leaves every other entry in the index.\<close>

lemma removing_root_keeps_paths:
  assumes "store_inv s" "\<forall>e \<in> set (store_live s). fe_path e \<noteq> ''/'' \<and> (\<forall>rest. fe_path e \<noteq> ''//'' @ rest)"
  shows "\<exists>t. RemoveEntriesUnderPath s ''/'' = Some t \<and> store_live t = store_live s"
  using store.remove_under_total [OF assms(1), of "''/''"] assms(2)
  by (auto simp: IsUnderPath_iff intro!: filter_True)

text \<open>A rename removes the first live entry of the old path, if there is one, and appends
  one entry of the new path whose name is its last component; the size, time and attributes
  of the old entry are not carried over, and no other entry of the new path is replaced.\<close>

lemma ApplyRename_live:
  assumes "store_inv s"
    and "store_fits s (empty_FileEntry\<lparr>fe_path := new, fe_name := basename new\<rparr>)"
  shows "\<exists>t. ApplyRename s old new = Some t \<and> store_inv t \<and>
    store_live t = drop_first (\<lambda>e. fe_path e = old) (store_live s) @
      [empty_FileEntry\<lparr>fe_path := new, fe_name := basename new\<rparr>]"
  using ApplyRename_refines [OF assms(1), of new old] assms(2)
  by (auto simp: store_live_abs live_of_spec_remove)

lemma sample_rename_fits:
  "store_fits sample_store (empty_FileEntry\<lparr>fe_path := ''/d/b'', fe_name := basename ''/d/b''\<rparr>)"
  by (simp add: store_fits_def sample_store_def ApplyAdd_def empty_store_def entry_fits_def
      empty_FileEntry_def basename_def sample_file_def empty_pool_def AddEntry_def Let_def
      TokenizeToSpans_def IsSeparator_def CaseFoldAscii_def fold_char_def suffix_def)

lemma ApplyRename_live_witness:
  "\<exists>t. ApplyRename sample_store ''/d/Cat.txt'' ''/d/b'' = Some t \<and> store_inv t \<and>
    store_live t = [sample_file ''/d/'' ''a b'',
      \<lparr>fe_name = ''b'', fe_path = ''/d/b'', fe_size = 0, fe_lastModified = 0, fe_attributes = 0\<rparr>]"
  using ApplyRename_live [OF sample_store_inv sample_rename_fits, of "''/d/Cat.txt''"]
  by (simp add: sample_store_live) (simp add: sample_file_def empty_FileEntry_def basename_def)

end
