(* ===== verification/Crc_Check.thy ===== *)
theory Crc_Check
  imports Prelude
begin

text \<open>
  The checksum of the index file (\<open>storage/Crc32.cpp\<close>): the table-driven CRC-32. The theory
  shows that the table computes the bitwise shift register it was built from, that a step
  of the register is injective, and what the file format gets from that: no two payloads
  that differ only inside four consecutive bytes share a checksum.
\<close>

unbundle bit_operations_syntax

section \<open>The code\<close>

text \<open>One turn of the inner loop of \<open>MakeCrcTable\<close>.\<close>

definition crc_bit :: "u32 \<Rightarrow> u32" where
  "crc_bit c = (if c AND 1 \<noteq> 0 then 0xEDB88320 XOR drop_bit 1 c else drop_bit 1 c)"

definition MakeCrcTable :: "u32 list" where
  "MakeCrcTable = map (\<lambda>i. (crc_bit ^^ 8) (word_of_nat i)) [0..<256]"

definition crc_step :: "u32 \<Rightarrow> char \<Rightarrow> u32" where
  "crc_step acc byte =
     MakeCrcTable ! unat ((acc XOR of_char byte) AND 0xFF) XOR drop_bit 8 acc"

definition Crc32 :: "string \<Rightarrow> u32" where
  "Crc32 data = foldl crc_step 0xFFFFFFFF data XOR 0xFFFFFFFF"

section \<open>The shift register is linear and injective\<close>

lemma xor_cancel: "x XOR y = 0 \<Longrightarrow> x = y" for x y :: u32
proof -
  assume "x XOR y = 0"
  moreover have "y = x XOR (x XOR y)"
    by (simp add: xor.assoc [symmetric])
  ultimately show ?thesis by simp
qed

lemma crc_bit_alt: "crc_bit c = (if bit c 0 then 0xEDB88320 else 0) XOR drop_bit 1 c"
  by (simp add: crc_bit_def and_one_eq bit_0 odd_iff_mod_2_eq_one)

lemma crc_bit_xor: "crc_bit (x XOR y) = crc_bit x XOR crc_bit y"
  by (auto simp: crc_bit_alt bit_xor_iff xor.assoc xor.left_commute)

lemma crc_bit_0 [simp]: "crc_bit 0 = 0"
  by (simp add: crc_bit_alt)

lemma crc_bit_eq_0: "crc_bit z = 0 \<Longrightarrow> z = 0"
proof -
  assume z: "crc_bit z = 0"
  have top: "\<not> bit (drop_bit 1 z) 31"
    using bit_imp_le_length [of z 32] by (auto simp: bit_drop_bit_eq)
  have low: "\<not> bit z 0"
  proof
    assume "bit z 0"
    with z have "0xEDB88320 XOR drop_bit 1 z = 0"
      unfolding crc_bit_alt by (simp only: if_True)
    then have "0xEDB88320 = drop_bit 1 z"
      by (rule xor_cancel)
    moreover have "bit (0xEDB88320 :: u32) 31"
      by simp
    ultimately show False using top by metis
  qed
  with z have shifted: "drop_bit 1 z = 0"
    by (simp add: crc_bit_alt)
  show "z = 0"
  proof (rule bit_word_eqI)
    fix n
    show "bit z n = bit (0 :: u32) n"
    proof (cases n)
      case 0
      with low show ?thesis by simp
    next
      case (Suc m)
      have "bit (drop_bit 1 z) m = bit z (Suc m)"
        by (simp add: bit_drop_bit_eq)
      with shifted Suc show ?thesis by simp
    qed
  qed
qed

definition crc_bits :: "nat \<Rightarrow> u32 \<Rightarrow> u32" where
  "crc_bits n x = (crc_bit ^^ n) x"

lemma crc_bits_xor: "crc_bits n (x XOR y) = crc_bits n x XOR crc_bits n y"
  by (induction n) (simp_all add: crc_bits_def crc_bit_xor)

lemma crc_bits_0 [simp]: "crc_bits n 0 = 0"
  by (induction n) (simp_all add: crc_bits_def)

lemma crc_bits_eq_0: "crc_bits n z = 0 \<Longrightarrow> z = 0"
  by (induction n) (auto simp: crc_bits_def dest: crc_bit_eq_0)

lemma crc_bits_inj: "crc_bits n x = crc_bits n y \<Longrightarrow> x = y"
proof -
  assume "crc_bits n x = crc_bits n y"
  then have "crc_bits n (x XOR y) = 0"
    by (simp add: crc_bits_xor)
  then have "x XOR y = 0"
    by (rule crc_bits_eq_0)
  then show "x = y"
    by (rule xor_cancel)
qed

lemma crc_bits_add: "crc_bits (m + n) x = crc_bits m (crc_bits n x)"
  by (simp add: crc_bits_def funpow_add)

text \<open>Bits above the low \<open>n\<close> only move down.\<close>

lemma crc_bits_high:
  "\<forall>i < n. \<not> bit x i \<Longrightarrow> crc_bits n x = drop_bit n x"
proof (induction n arbitrary: x)
  case 0
  then show ?case by (simp add: crc_bits_def)
next
  case (Suc n)
  have "crc_bit x = drop_bit 1 x"
    using Suc.prems by (simp add: crc_bit_alt)
  moreover have "\<forall>i < n. \<not> bit (drop_bit 1 x) i"
    using Suc.prems by (simp add: bit_drop_bit_eq)
  ultimately have "crc_bits n (crc_bit x) = drop_bit n (drop_bit 1 x)"
    using Suc.IH [of "drop_bit 1 x"] by simp
  then show ?case by (simp add: crc_bits_def funpow_swap1)
qed

section \<open>The table computes the register\<close>

lemma crc_table_nth: "i < 256 \<Longrightarrow> MakeCrcTable ! i = crc_bits 8 (word_of_nat i)"
  by (simp add: MakeCrcTable_def crc_bits_def)

lemma byte_split: "x = (x AND 0xFF) XOR (x AND NOT 0xFF)" for x :: u32
  by (rule bit_word_eqI) (auto simp: bit_simps)

lemma low_byte_mask: "(0xFF :: u32) = mask 8"
  by (simp add: mask_eq_exp_minus_1)

lemma crc_bits_byte: "crc_bits 8 x = MakeCrcTable ! unat (x AND 0xFF) XOR drop_bit 8 x"
proof -
  have "unat (x AND 0xFF) < 256"
    unfolding low_byte_mask take_bit_eq_mask [symmetric]
    using take_bit_nat_less_exp [of 8 "unat x"] by (simp add: unsigned_take_bit_eq)
  then have low: "MakeCrcTable ! unat (x AND 0xFF) = crc_bits 8 (x AND 0xFF)"
    by (simp add: crc_table_nth)
  have high: "crc_bits 8 (x AND NOT 0xFF) = drop_bit 8 x"
  proof -
    have "\<forall>i < 8. \<not> bit (x AND NOT 0xFF) i"
      by (simp add: low_byte_mask bit_simps)
    then have "crc_bits 8 (x AND NOT 0xFF) = drop_bit 8 (x AND NOT 0xFF)"
      by (rule crc_bits_high)
    also have "\<dots> = drop_bit 8 x"
      by (rule bit_word_eqI)
        (auto simp: low_byte_mask bit_simps dest: bit_imp_le_length)
    finally show ?thesis .
  qed
  have "crc_bits 8 x = crc_bits 8 (x AND 0xFF) XOR crc_bits 8 (x AND NOT 0xFF)"
    using byte_split [of x] crc_bits_xor by metis
  with low high show ?thesis by simp
qed

lemma byte_bit_high: "8 \<le> n \<Longrightarrow> \<not> bit (of_char b :: u32) n"
  unfolding of_char_def bit_horner_sum_bit_word_iff by simp

lemma byte_high_bits: "drop_bit 8 (of_char b :: u32) = 0"
  by (rule bit_word_eqI) (simp add: bit_drop_bit_eq byte_bit_high)

lemma crc_step_bits: "crc_step acc b = crc_bits 8 (acc XOR of_char b)"
  by (simp add: crc_step_def crc_bits_byte byte_high_bits drop_bit_xor)

lemma foldl_xor_init:
  "foldl crc_step (x XOR y) data = foldl crc_step x data XOR crc_bits (8 * length data) y"
proof (induction data arbitrary: x y)
  case Nil
  then show ?case by (simp add: crc_bits_def)
next
  case (Cons b data)
  have "crc_step (x XOR y) b = crc_step x b XOR crc_bits 8 y"
    by (simp add: crc_step_bits crc_bits_xor xor.assoc xor.left_commute xor.commute)
  then show ?case
    by (simp add: Cons.IH flip: crc_bits_add) (simp add: add.commute)
qed

lemma foldl_inj: "foldl crc_step x data = foldl crc_step y data \<Longrightarrow> x = y"
proof (induction data arbitrary: x y)
  case Nil
  then show ?case by simp
next
  case (Cons b data)
  then have "crc_step x b = crc_step y b" by simp
  then have "x XOR of_char b = y XOR of_char b"
    unfolding crc_step_bits by (rule crc_bits_inj)
  then have "(x XOR of_char b) XOR of_char b = (y XOR of_char b) XOR of_char b" by simp
  then show ?case by (simp add: xor.assoc)
qed

section \<open>A window of four bytes\<close>

text \<open>The bytes of a window as one little-endian word.\<close>

fun le_word :: "string \<Rightarrow> u32" where
  "le_word [] = 0"
| "le_word (b # bs) = of_char b XOR push_bit 8 (le_word bs)"

lemma push_bit_8_low: "crc_bits 8 (push_bit 8 w) = w" if "\<forall>i \<ge> 24. \<not> bit w i"
proof -
  have "crc_bits 8 (push_bit 8 w) = drop_bit 8 (push_bit 8 w)"
    by (rule crc_bits_high) (simp add: bit_simps)
  also have "\<dots> = w"
    by (rule bit_word_eqI) (use that in \<open>auto simp: bit_simps not_le dest: bit_imp_le_length\<close>)
  finally show ?thesis .
qed

lemma le_word_high: "8 * length bs \<le> i \<Longrightarrow> \<not> bit (le_word bs) i"
proof (induction bs arbitrary: i)
  case Nil
  then show ?case by simp
next
  case (Cons b bs)
  then show ?case by (simp add: bit_simps byte_bit_high)
qed

lemma le_word_inj:
  "length bs = length cs \<Longrightarrow> length bs \<le> 4 \<Longrightarrow> le_word bs = le_word cs \<Longrightarrow> bs = cs"
proof (induction bs arbitrary: cs)
  case Nil
  then show ?case by simp
next
  case (Cons b bs)
  then obtain c cs' where cs: "cs = c # cs'" by (cases cs) auto
  have bit_eq: "bit (le_word (b # bs)) i = bit (le_word (c # cs')) i" for i
    using Cons.prems cs by simp
  have "(of_char b :: u32) = of_char c"
  proof (rule bit_word_eqI)
    fix n
    show "bit (of_char b :: u32) n = bit (of_char c :: u32) n"
      using bit_eq [of n] by (cases "n < 8") (simp_all add: bit_simps byte_bit_high)
  qed
  moreover have "le_word bs = le_word cs'"
  proof (rule bit_word_eqI)
    fix n
    show "bit (le_word bs) n = bit (le_word cs') n"
    proof (cases "n < 24")
      case True
      then show ?thesis using bit_eq [of "n + 8"] by (simp add: bit_simps byte_bit_high)
    next
      case False
      then show ?thesis using Cons.prems cs by (simp add: le_word_high)
    qed
  qed
  ultimately show ?case
    using Cons.prems Cons.IH [of cs'] cs of_char_word_inj [where 'a = 32, of b c] by simp
qed

lemma foldl_window:
  "length bs \<le> 4 \<Longrightarrow> foldl crc_step acc bs = crc_bits (8 * length bs) (acc XOR le_word bs)"
proof (induction bs arbitrary: acc)
  case Nil
  then show ?case by (simp add: crc_bits_def)
next
  case (Cons b bs)
  have "crc_bits 8 (push_bit 8 (le_word bs)) = le_word bs"
    using Cons.prems by (intro push_bit_8_low) (auto intro!: le_word_high)
  then have "crc_bits 8 (acc XOR of_char b) XOR le_word bs = crc_bits 8 (acc XOR le_word (b # bs))"
    using crc_bits_xor [of 8 "acc XOR of_char b" "push_bit 8 (le_word bs)"]
    by (simp add: xor.assoc)
  then show ?case
    using Cons by (simp add: crc_step_bits flip: crc_bits_add) (simp add: add.commute)
qed

lemma window_detected:
  assumes "length bs = length cs" "length bs \<le> 4"
    and "foldl crc_step acc bs = foldl crc_step acc cs"
  shows "bs = cs"
proof -
  have "crc_bits (8 * length bs) (acc XOR le_word bs) = crc_bits (8 * length bs) (acc XOR le_word cs)"
    using assms by (simp add: foldl_window)
  then have "acc XOR le_word bs = acc XOR le_word cs"
    by (rule crc_bits_inj)
  then have "acc XOR (acc XOR le_word bs) = acc XOR (acc XOR le_word cs)" by simp
  then have "le_word bs = le_word cs"
    by (simp add: xor.assoc [symmetric])
  with assms show ?thesis by (blast intro: le_word_inj)
qed

lemma Crc32_window:
  assumes "length bs = length cs" "length bs \<le> 4"
    and "Crc32 (pre @ bs @ post) = Crc32 (pre @ cs @ post)"
  shows "bs = cs"
proof -
  have "Crc32 (pre @ bs @ post) XOR 0xFFFFFFFF = Crc32 (pre @ cs @ post) XOR 0xFFFFFFFF"
    using assms(3) by simp
  then have "foldl crc_step (foldl crc_step (foldl crc_step 0xFFFFFFFF pre) bs) post =
             foldl crc_step (foldl crc_step (foldl crc_step 0xFFFFFFFF pre) cs) post"
    by (simp add: Crc32_def xor.assoc)
  then show ?thesis
    using assms foldl_inj window_detected by blast
qed

end
