(* ===== verification/Byte_Codec.thy ===== *)
theory Byte_Codec
  imports Prelude
begin

text \<open>
  Fixed-width little-endian values in a byte buffer, which the index file and the records of the
  fanotify monitor share.
\<close>

fun le_nat :: "nat \<Rightarrow> nat \<Rightarrow> string" where
  "le_nat 0 n = []"
| "le_nat (Suc k) n = char_of (n mod 256) # le_nat k (n div 256)"

fun of_le :: "string \<Rightarrow> nat" where
  "of_le [] = 0"
| "of_le (c # cs) = of_char c + 256 * of_le cs"

lemma length_le_nat [simp]: "length (le_nat k n) = k"
  by (induction k arbitrary: n) simp_all

lemma of_le_le_nat [simp]: "of_le (le_nat k n) = n mod 256 ^ k"
proof (induction k arbitrary: n)
  case 0
  then show ?case by simp
next
  case (Suc k)
  have "n mod 256 ^ Suc k = n mod 256 + 256 * (n div 256 mod 256 ^ k)"
    by (simp add: mod_mult2_eq mult.commute)
  then show ?case by (simp add: Suc)
qed

text \<open>The widths that are whole bytes.\<close>

definition byte_sized :: "'a::len itself \<Rightarrow> bool" where
  "byte_sized t \<longleftrightarrow> 8 dvd LENGTH('a)"

lemma byte_sized_widths [simp]:
  "byte_sized TYPE(8)" "byte_sized TYPE(16)" "byte_sized TYPE(32)" "byte_sized TYPE(64)"
  by (simp_all add: byte_sized_def)

definition enc :: "'a::len word \<Rightarrow> string" where
  "enc w = le_nat (LENGTH('a) div 8) (unat w)"

lemma length_enc [simp]: "length (enc (w :: 'a::len word)) = LENGTH('a) div 8"
  by (simp add: enc_def)

lemma of_le_enc [simp]:
  fixes w :: "'a::len word"
  assumes "byte_sized TYPE('a)"
  shows "word_of_nat (of_le (enc w)) = w"
proof -
  have "(256 :: nat) ^ (LENGTH('a) div 8) = (2 ^ 8) ^ (LENGTH('a) div 8)" by simp
  also have "\<dots> = 2 ^ (8 * (LENGTH('a) div 8))" by (simp only: power_mult)
  also have "8 * (LENGTH('a) div 8) = LENGTH('a)"
    using assms by (simp add: byte_sized_def)
  finally show ?thesis
    using unsigned_less [of w, where 'a = nat] by (simp add: enc_def)
qed

text \<open>A load from memory: \<open>None\<close> is a read outside the buffer.\<close>

definition load_le :: "string \<Rightarrow> nat \<Rightarrow> 'a::len word option" where
  "load_le buffer offset =
     (if offset + LENGTH('a) div 8 > length buffer then None
      else Some (word_of_nat (of_le (take (LENGTH('a) div 8) (drop offset buffer)))))"

lemma load_le_at:
  fixes w :: "'a::len word"
  assumes "byte_sized TYPE('a)" "buffer = pre @ enc w @ post" "offset = length pre"
  shows "load_le buffer offset = Some w"
  using assms by (simp add: load_le_def)

lemma load_le_None_iff:
  "(load_le buffer offset :: 'a::len word option) = None \<longleftrightarrow> length buffer < offset + LENGTH('a) div 8"
  by (simp add: load_le_def not_le)

end
