(* ===== verification/Index_Serializer.thy ===== *)
theory Index_Serializer
  imports Index_Pool Crc_Check Byte_Codec
begin

text \<open>
  The index file (\<open>storage/IndexSerializer.{h,cpp}\<close>, \<open>docs/adr/0003\<close>): a header (magic,
  version, build time, entry count, CRC-32) and a payload (path bytes, one 34-byte record
  per live entry, the monitor-stop time). \<open>Serialize\<close> builds the image and drops deleted
  entries; \<open>Load\<close> checks every field of an untrusted image before it uses it. A failed
  load is the code's \<open>success = false\<close> result; \<open>None\<close> is a read outside a buffer.
\<close>

section \<open>Values in a buffer\<close>

definition AppendValue :: "string \<Rightarrow> 'a::len word \<Rightarrow> string" where
  "AppendValue buffer value = buffer @ le_nat (LENGTH('a) div 8) (unat value)"

definition ReadValue :: "string \<Rightarrow> nat \<Rightarrow> ('a::len word \<times> nat) option" where
  "ReadValue buffer offset =
     (if offset + LENGTH('a) div 8 > length buffer then None
      else Some (word_of_nat (of_le (take (LENGTH('a) div 8) (drop offset buffer))),
                 offset + LENGTH('a) div 8))"

section \<open>Writing\<close>

definition kMagic :: u32 where "kMagic = 0x44584449"
definition kVersion :: u16 where "kVersion = 1"
definition kHeaderSize :: nat where "kHeaderSize = 4 + 2 + 8 + 8 + 4"
definition kEntryRecordSize :: nat where "kEntryRecordSize = 8 + 8 + 4 + 8 + 4 + 2"

fun Serialize_totals :: "EntryMeta list \<Rightarrow> u64 \<Rightarrow> u64 \<Rightarrow> u64 \<times> u64" where
  "Serialize_totals [] liveCount livePathBytes = (liveCount, livePathBytes)"
| "Serialize_totals (m # ms) liveCount livePathBytes =
     (if em_deleted m = 0
      then Serialize_totals ms (liveCount + 1) (livePathBytes + ucast (em_pathLen m))
      else Serialize_totals ms liveCount livePathBytes)"

fun Serialize_paths :: "string \<Rightarrow> EntryMeta list \<Rightarrow> string \<Rightarrow> string option" where
  "Serialize_paths pathPool [] body = Some body"
| "Serialize_paths pathPool (m # ms) body =
     (if em_deleted m = 0 then do {
        path \<leftarrow> buf_view pathPool (unat (em_pathOffset m)) (unat (em_pathLen m));
        Serialize_paths pathPool ms (body @ path) }
      else Serialize_paths pathPool ms body)"

definition AppendRecord :: "string \<Rightarrow> EntryMeta \<Rightarrow> u64 \<Rightarrow> string" where
  "AppendRecord body m pathOffset =
     AppendValue (AppendValue (AppendValue (AppendValue (AppendValue (AppendValue body
       (em_size m)) (em_lastModified m)) (em_attributes m)) pathOffset) (em_pathLen m))
       (em_nameStart m)"

fun Serialize_records :: "EntryMeta list \<Rightarrow> u64 \<Rightarrow> string \<Rightarrow> string" where
  "Serialize_records [] pathOffset body = body"
| "Serialize_records (m # ms) pathOffset body =
     (if em_deleted m \<noteq> 0 then Serialize_records ms pathOffset body
      else Serialize_records ms (pathOffset + ucast (em_pathLen m)) (AppendRecord body m pathOffset))"

definition Serialize :: "IndexPool \<Rightarrow> u64 \<Rightarrow> u64 \<Rightarrow> string option" where
  "Serialize pool buildTimestampNs lastMonitorStopNs = do {
     let (liveCount, livePathBytes) = Serialize_totals (ip_meta pool) 0 0;
     body \<leftarrow> Serialize_paths (ip_pathPool pool) (ip_meta pool) (AppendValue [] livePathBytes);
     let body = Serialize_records (ip_meta pool) 0 body;
     let body = AppendValue body lastMonitorStopNs;
     let crc = Crc32 body;
     let bytes = AppendValue (AppendValue (AppendValue (AppendValue (AppendValue []
                   kMagic) kVersion) buildTimestampNs) liveCount) crc;
     Some (bytes @ body) }"

section \<open>Reading\<close>

record LoadResult =
  lr_success :: bool
  lr_pool :: IndexPool
  lr_buildTimestampNs :: u64
  lr_lastMonitorStopNs :: u64

definition load_failed :: LoadResult where
  "load_failed = \<lparr>lr_success = False, lr_pool = empty_pool, lr_buildTimestampNs = 0,
     lr_lastMonitorStopNs = 0\<rparr>"

definition ReadRecord :: "string \<Rightarrow> nat \<Rightarrow> (EntryMeta \<times> nat) option" where
  "ReadRecord buffer offset = do {
     (size, offset) \<leftarrow> ReadValue buffer offset;
     (lastModified, offset) \<leftarrow> ReadValue buffer offset;
     (attributes, offset) \<leftarrow> ReadValue buffer offset;
     (pathOffset, offset) \<leftarrow> ReadValue buffer offset;
     (pathLen, offset) \<leftarrow> ReadValue buffer offset;
     (nameStart, offset) \<leftarrow> ReadValue buffer offset;
     Some (\<lparr>em_size = size, em_lastModified = lastModified, em_pathOffset = pathOffset,
            em_nameLowerOffset = 0, em_attributes = attributes, em_pathLen = pathLen,
            em_nameLowerLen = 0, em_nameStart = nameStart, em_deleted = 0\<rparr>, offset) }"

fun ReadRecords :: "nat \<Rightarrow> u64 \<Rightarrow> string \<Rightarrow> nat \<Rightarrow> (EntryMeta list \<times> nat) option" where
  "ReadRecords 0 pathPoolSize buffer offset = Some ([], offset)"
| "ReadRecords (Suc n) pathPoolSize buffer offset = do {
     (m, offset) \<leftarrow> ReadRecord buffer offset;
     if em_pathOffset m > pathPoolSize \<or>
        ucast (em_pathLen m) > pathPoolSize - em_pathOffset m \<or>
        (ucast (em_nameStart m) :: u32) > em_pathLen m
     then None
     else do {
       (ms, offset) \<leftarrow> ReadRecords n pathPoolSize buffer offset;
       Some (m # ms, offset) } }"

text \<open>\<open>None\<close> stands for the code's \<open>return {}\<close>.\<close>

definition Load_payload ::
  "string \<Rightarrow> nat \<Rightarrow> u64 \<Rightarrow> (EntryMeta list \<times> string \<times> u64) option" where
  "Load_payload buffer offset entryCount = do {
     (pathPoolSize, offset) \<leftarrow> ReadValue buffer offset;
     if unat pathPoolSize > length buffer - offset then None
     else do {
       let pathPool = take (unat pathPoolSize) (drop offset buffer);
       let offset = offset + unat pathPoolSize;
       if unat entryCount > (length buffer - offset) div kEntryRecordSize then None
       else do {
         (ms, offset) \<leftarrow> ReadRecords (unat entryCount) pathPoolSize buffer offset;
         (lastMonitorStopNs, offset) \<leftarrow> ReadValue buffer offset;
         if offset \<noteq> length buffer then None
         else Some (ms, pathPool, lastMonitorStopNs) } } }"

definition Load_fields :: "string \<Rightarrow> (EntryMeta list \<times> string \<times> u64 \<times> u64) option" where
  "Load_fields buffer = do {
     (magic, offset) \<leftarrow> ReadValue buffer 0;
     (version, offset) \<leftarrow> ReadValue buffer offset;
     (buildTimestampNs, offset) \<leftarrow> ReadValue buffer offset;
     (entryCount, offset) \<leftarrow> ReadValue buffer offset;
     (crc, offset) \<leftarrow> ReadValue buffer offset;
     if magic \<noteq> kMagic \<or> version \<noteq> kVersion then None
     else if Crc32 (drop offset buffer) \<noteq> crc then None
     else do {
       (ms, pathPool, lastMonitorStopNs) \<leftarrow> Load_payload buffer offset entryCount;
       Some (ms, pathPool, buildTimestampNs, lastMonitorStopNs) } }"

text \<open>The file is its bytes, or \<open>None\<close> when it cannot be opened, sized or read.\<close>

definition Load :: "string option \<Rightarrow> LoadResult option" where
  "Load file =
     (case file of
        None \<Rightarrow> Some load_failed
      | Some buffer \<Rightarrow>
          (case Load_fields buffer of
             None \<Rightarrow> Some load_failed
           | Some (ms, pathPool, buildTimestampNs, lastMonitorStopNs) \<Rightarrow> do {
               pool \<leftarrow> LoadFromPathPool ms pathPool;
               Some \<lparr>lr_success = True, lr_pool = pool, lr_buildTimestampNs = buildTimestampNs,
                     lr_lastMonitorStopNs = lastMonitorStopNs\<rparr> }))"

section \<open>Values round trip\<close>

lemma ReadValue_append:
  fixes w :: "'a::len word"
  assumes "byte_sized TYPE('a)"
  shows "ReadValue (pre @ le_nat (LENGTH('a) div 8) (unat w) @ post) (length pre) =
         Some (w, length pre + LENGTH('a) div 8)"
  using of_le_enc [OF assms, of w] assms
  by (simp add: ReadValue_def enc_def)

lemma AppendValue_enc: "AppendValue b w = b @ enc w"
  by (simp add: AppendValue_def enc_def)

lemma ReadValue_at:
  fixes w :: "'a::len word"
  assumes "byte_sized TYPE('a)" "buffer = pre @ enc w @ post" "off = length pre"
  shows "ReadValue buffer off = Some (w, off + LENGTH('a) div 8)"
  using ReadValue_append [OF assms(1), of pre w post] assms(2,3) by (simp add: enc_def)

section \<open>Records round trip\<close>

definition record_bytes :: "EntryMeta \<Rightarrow> u64 \<Rightarrow> string" where
  "record_bytes m off =
     enc (em_size m) @ enc (em_lastModified m) @ enc (em_attributes m) @ enc off @
     enc (em_pathLen m) @ enc (em_nameStart m)"

definition disk_meta :: "EntryMeta \<Rightarrow> u64 \<Rightarrow> EntryMeta" where
  "disk_meta m off =
     m\<lparr>em_pathOffset := off, em_nameLowerOffset := 0, em_nameLowerLen := 0, em_deleted := 0\<rparr>"

lemma length_record_bytes [simp]: "length (record_bytes m off) = kEntryRecordSize"
  by (simp add: record_bytes_def kEntryRecordSize_def)

lemma AppendRecord_bytes: "AppendRecord body m off = body @ record_bytes m off"
  by (simp add: AppendRecord_def AppendValue_enc record_bytes_def)

lemma ReadRecord_at:
  assumes buf: "buffer = pre @ record_bytes m off @ post" and o: "n = length pre"
  shows "ReadRecord buffer n = Some (disk_meta m off, n + kEntryRecordSize)"
proof -
  let ?r = "enc (em_size m)" and ?l = "enc (em_lastModified m)" and ?a = "enc (em_attributes m)"
    and ?o = "enc off" and ?p = "enc (em_pathLen m)"
  have "ReadValue buffer n = Some (em_size m, n + 8)"
    using ReadValue_at [of buffer pre "em_size m" _ n] buf o by (simp add: record_bytes_def)
  moreover have "ReadValue buffer (n + 8) = Some (em_lastModified m, n + 16)"
    using ReadValue_at [of buffer "pre @ ?r" "em_lastModified m" _ "n + 8"] buf o
    by (simp add: record_bytes_def)
  moreover have "ReadValue buffer (n + 16) = Some (em_attributes m, n + 20)"
    using ReadValue_at [of buffer "pre @ ?r @ ?l" "em_attributes m" _ "n + 16"] buf o
    by (simp add: record_bytes_def)
  moreover have "ReadValue buffer (n + 20) = Some (off, n + 28)"
    using ReadValue_at [of buffer "pre @ ?r @ ?l @ ?a" off _ "n + 20"] buf o
    by (simp add: record_bytes_def)
  moreover have "ReadValue buffer (n + 28) = Some (em_pathLen m, n + 32)"
    using ReadValue_at [of buffer "pre @ ?r @ ?l @ ?a @ ?o" "em_pathLen m" _ "n + 28"] buf o
    by (simp add: record_bytes_def)
  moreover have "ReadValue buffer (n + 32) = Some (em_nameStart m, n + 34)"
    using ReadValue_at [of buffer "pre @ ?r @ ?l @ ?a @ ?o @ ?p" "em_nameStart m" _ "n + 32"] buf o
    by (simp add: record_bytes_def)
  ultimately show ?thesis
    by (simp add: ReadRecord_def disk_meta_def kEntryRecordSize_def)
qed

text \<open>The live records with the offsets \<open>Serialize\<close> gives them.\<close>

fun disk_metas :: "EntryMeta list \<Rightarrow> u64 \<Rightarrow> EntryMeta list" where
  "disk_metas [] off = []"
| "disk_metas (m # ms) off =
     (if em_deleted m \<noteq> 0 then disk_metas ms off
      else disk_meta m off # disk_metas ms (off + ucast (em_pathLen m)))"

fun records_bytes :: "EntryMeta list \<Rightarrow> u64 \<Rightarrow> string" where
  "records_bytes [] off = []"
| "records_bytes (m # ms) off =
     (if em_deleted m \<noteq> 0 then records_bytes ms off
      else record_bytes m off @ records_bytes ms (off + ucast (em_pathLen m)))"

definition live_metas :: "EntryMeta list \<Rightarrow> EntryMeta list" where
  "live_metas ms = filter (\<lambda>m. em_deleted m = 0) ms"

definition live_bytes :: "EntryMeta list \<Rightarrow> nat" where
  "live_bytes ms = sum_list (map (\<lambda>m. unat (em_pathLen m)) (live_metas ms))"

lemma live_metas_simps [simp]:
  "live_metas [] = []"
  "live_metas (m # ms) = (if em_deleted m = 0 then m # live_metas ms else live_metas ms)"
  by (simp_all add: live_metas_def)

lemma live_bytes_simps [simp]:
  "live_bytes [] = 0"
  "live_bytes (m # ms) = (if em_deleted m = 0 then unat (em_pathLen m) else 0) + live_bytes ms"
  by (simp_all add: live_bytes_def)

lemma Serialize_records_bytes: "Serialize_records ms off body = body @ records_bytes ms off"
  by (induction ms arbitrary: off body) (simp_all add: AppendRecord_bytes)

lemma length_records_bytes [simp]:
  "length (records_bytes ms off) = length (live_metas ms) * kEntryRecordSize"
  by (induction ms arbitrary: off) simp_all

lemma unat_add_ucast:
  fixes off :: u64 and len :: u32
  assumes "unat off + unat len < 2 ^ 64"
  shows "unat (off + ucast len) = unat off + unat len"
proof -
  have "unat (ucast len :: u64) = unat len"
    by simp
  with assms show ?thesis
    by (simp add: unat_word_ariths)
qed

lemma Serialize_totals_eq:
  "unat b + live_bytes ms < 2 ^ 64 \<Longrightarrow>
   \<exists>c' b'. Serialize_totals ms c b = (c + of_nat (length (live_metas ms)), b') \<and>
           unat b' = unat b + live_bytes ms \<and> c' = c"
proof (induction ms arbitrary: c b)
  case Nil
  then show ?case by simp
next
  case (Cons m ms)
  show ?case
  proof (cases "em_deleted m = 0")
    case True
    have "unat (b + ucast (em_pathLen m)) = unat b + unat (em_pathLen m)"
      using Cons.prems True by (intro unat_add_ucast) simp
    with Cons.IH [of "b + ucast (em_pathLen m)" "c + 1"] Cons.prems True
    show ?thesis by (simp add: add.assoc)
  next
    case False
    with Cons show ?thesis by simp
  qed
qed

lemma ReadRecords_at:
  assumes "unat off + live_bytes ms \<le> unat psize"
    and "\<forall>m \<in> set (live_metas ms). unat (em_nameStart m) \<le> unat (em_pathLen m)"
    and "buffer = pre @ records_bytes ms off @ post" "n = length pre"
  shows "ReadRecords (length (live_metas ms)) psize buffer n =
         Some (disk_metas ms off, n + length (live_metas ms) * kEntryRecordSize)"
  using assms
proof (induction ms arbitrary: off pre n)
  case Nil
  then show ?case by simp
next
  case (Cons m ms)
  show ?case
  proof (cases "em_deleted m = 0")
    case False
    with Cons show ?thesis by simp
  next
    case True
    let ?off' = "off + ucast (em_pathLen m)"
    have lt: "unat psize < 2 ^ 64"
      using unsigned_less [of psize, where 'a = nat] by simp
    have off': "unat ?off' = unat off + unat (em_pathLen m)"
      using Cons.prems(1) True lt by (intro unat_add_ucast) simp
    have rec: "ReadRecord buffer n = Some (disk_meta m off, n + kEntryRecordSize)"
      using Cons.prems True by (intro ReadRecord_at) simp_all
    have rest: "ReadRecords (length (live_metas ms)) psize buffer (n + kEntryRecordSize) =
        Some (disk_metas ms ?off', n + kEntryRecordSize + length (live_metas ms) * kEntryRecordSize)"
      using Cons.prems True off'
      by (intro Cons.IH [of ?off' "pre @ record_bytes m off"]) simp_all
    have "off \<le> psize"
      using Cons.prems(1) by (simp add: word_le_nat_alt)
    moreover from this have "unat (psize - off) = unat psize - unat off"
      by (simp add: unat_sub)
    then have "ucast (em_pathLen m) \<le> psize - off"
      using Cons.prems(1) True by (simp add: word_le_nat_alt)
    moreover have "(ucast (em_nameStart m) :: u32) \<le> em_pathLen m"
      using Cons.prems(2) True by (simp add: word_le_nat_alt)
    ultimately show ?thesis
      using True rec rest by (simp add: disk_meta_def not_less add.assoc)
  qed
qed

section \<open>The path bytes of the live records\<close>

definition live_paths :: "string \<Rightarrow> EntryMeta list \<Rightarrow> string" where
  "live_paths pool ms = concat (map (meta_path pool) (live_metas ms))"

lemma live_paths_simps [simp]:
  "live_paths pool [] = []"
  "live_paths pool (m # ms) =
     (if em_deleted m = 0 then meta_path pool m else []) @ live_paths pool ms"
  by (simp_all add: live_paths_def)

definition metas_ok :: "string \<Rightarrow> EntryMeta list \<Rightarrow> bool" where
  "metas_ok pool ms \<longleftrightarrow> (\<forall>m \<in> set ms. meta_in_pool pool m)"

lemma metas_ok_simps [simp]:
  "metas_ok pool []"
  "metas_ok pool (m # ms) \<longleftrightarrow> meta_in_pool pool m \<and> metas_ok pool ms"
  by (simp_all add: metas_ok_def)

lemma pool_safe_metas_ok: "pool_safe p \<Longrightarrow> metas_ok (ip_pathPool p) (ip_meta p)"
  by (auto simp: pool_safe_def entry_safe_def metas_ok_def in_set_conv_nth)

lemma length_live_paths: "metas_ok pool ms \<Longrightarrow> length (live_paths pool ms) = live_bytes ms"
  by (induction ms) (simp_all add: meta_path_in_pool)

lemma Serialize_paths_bytes:
  "metas_ok pool ms \<Longrightarrow> Serialize_paths pool ms body = Some (body @ live_paths pool ms)"
  by (induction ms arbitrary: body) (simp_all add: meta_path_view)

lemma disk_meta_entry:
  assumes "meta_in_pool pool m" "unat off = length pre"
  shows "meta_in_pool (pre @ meta_path pool m @ post) (disk_meta m off)"
    and "meta_entry (pre @ meta_path pool m @ post) (disk_meta m off) = meta_entry pool m"
proof -
  have len: "length (meta_path pool m) = unat (em_pathLen m)"
    using assms(1) by (rule meta_path_in_pool)
  show "meta_in_pool (pre @ meta_path pool m @ post) (disk_meta m off)"
    using assms len by (simp add: meta_in_pool_def disk_meta_def)
  have "meta_path (pre @ meta_path pool m @ post) (disk_meta m off) = meta_path pool m"
    using assms(2) len by (simp add: meta_path_def [of "pre @ _"] disk_meta_def)
  then show "meta_entry (pre @ meta_path pool m @ post) (disk_meta m off) = meta_entry pool m"
    by (simp add: meta_entry_def disk_meta_def)
qed

lemma disk_metas_entries:
  "metas_ok pool ms \<Longrightarrow> unat off = length pre \<Longrightarrow> length pre + live_bytes ms < 2 ^ 64 \<Longrightarrow>
   metas_ok (pre @ live_paths pool ms) (disk_metas ms off) \<and>
   loaded_abs (pre @ live_paths pool ms) (disk_metas ms off) =
     map (\<lambda>m. (meta_entry pool m, False)) (live_metas ms)"
proof (induction ms arbitrary: off pre)
  case Nil
  then show ?case by (simp add: loaded_abs_def)
next
  case (Cons m ms)
  show ?case
  proof (cases "em_deleted m = 0")
    case False
    with Cons show ?thesis by simp
  next
    case True
    have len: "length (meta_path pool m) = unat (em_pathLen m)"
      using Cons.prems(1) by (simp add: meta_path_in_pool)
    have "unat (off + ucast (em_pathLen m)) = length (pre @ meta_path pool m)"
      using Cons.prems True len by (simp add: unat_add_ucast)
    from Cons.IH [OF _ this] Cons.prems True len
    have "metas_ok ((pre @ meta_path pool m) @ live_paths pool ms)
            (disk_metas ms (off + ucast (em_pathLen m))) \<and>
          loaded_abs ((pre @ meta_path pool m) @ live_paths pool ms)
            (disk_metas ms (off + ucast (em_pathLen m))) =
          map (\<lambda>m. (meta_entry pool m, False)) (live_metas ms)"
      by simp
    with True disk_meta_entry [of pool m off pre "live_paths pool ms"] Cons.prems
    show ?thesis
      by (simp add: loaded_abs_def) (simp add: disk_meta_def)
  qed
qed

lemma live_entries_metas:
  "live_entries p = map (meta_entry (ip_pathPool p)) (live_metas (ip_meta p))"
proof -
  have "map fst (filter (\<lambda>x. \<not> snd x) (map (\<lambda>m. (meta_entry pool m, em_deleted m \<noteq> 0)) ms)) =
        map (meta_entry pool) (live_metas ms)" for pool ms
    by (induction ms) simp_all
  then show ?thesis by (simp add: live_entries_def pool_abs_def)
qed

section \<open>The image\<close>

definition header :: "u64 \<Rightarrow> u64 \<Rightarrow> u32 \<Rightarrow> string" where
  "header ts cnt crc = enc kMagic @ enc kVersion @ enc ts @ enc cnt @ enc crc"

definition payload :: "string \<Rightarrow> EntryMeta list \<Rightarrow> u64 \<Rightarrow> string" where
  "payload pool ms stop =
     enc (word_of_nat (live_bytes ms) :: u64) @ live_paths pool ms @ records_bytes ms 0 @ enc stop"

lemma length_header [simp]: "length (header ts cnt crc) = 26"
  by (simp add: header_def)

lemma Serialize_image:
  assumes "metas_ok (ip_pathPool p) (ip_meta p)" "live_bytes (ip_meta p) < 2 ^ 64"
  defines "body \<equiv> \<lambda>stop. payload (ip_pathPool p) (ip_meta p) stop"
  shows "Serialize p ts stop =
    Some (header ts (word_of_nat (length (live_metas (ip_meta p)))) (Crc32 (body stop)) @ body stop)"
proof -
  from Serialize_totals_eq [of 0 "ip_meta p" 0] assms(2) obtain b' where
    tot: "Serialize_totals (ip_meta p) 0 0 = (of_nat (length (live_metas (ip_meta p))), b')"
    and b': "unat b' = live_bytes (ip_meta p)"
    by auto
  have "word_of_nat (unat b') = b'"
    by simp
  with b' have "b' = word_of_nat (live_bytes (ip_meta p))"
    by simp
  with tot assms(1) show ?thesis
    by (simp add: Serialize_def Serialize_paths_bytes Serialize_records_bytes AppendValue_enc Let_def
        header_def payload_def body_def)
qed

lemma Load_fields_header:
  "Load_fields (header ts cnt crc @ body) =
     (if Crc32 body \<noteq> crc then None
      else map_option (\<lambda>(ms, pathPool, stop). (ms, pathPool, ts, stop))
             (Load_payload (header ts cnt crc @ body) 26 cnt))"
proof -
  let ?b = "header ts cnt crc @ body"
  have "ReadValue ?b 0 = Some (kMagic, 4)"
    using ReadValue_at [of ?b "[]" kMagic] by (simp add: header_def)
  moreover have "ReadValue ?b 4 = Some (kVersion, 6)"
    using ReadValue_at [of ?b "enc kMagic" kVersion _ 4] by (simp add: header_def)
  moreover have "ReadValue ?b 6 = Some (ts, 14)"
    using ReadValue_at [of ?b "enc kMagic @ enc kVersion" ts _ 6] by (simp add: header_def)
  moreover have "ReadValue ?b 14 = Some (cnt, 22)"
    using ReadValue_at [of ?b "enc kMagic @ enc kVersion @ enc ts" cnt _ 14]
    by (simp add: header_def)
  moreover have "ReadValue ?b 22 = Some (crc, 26)"
    using ReadValue_at [of ?b "enc kMagic @ enc kVersion @ enc ts @ enc cnt" crc _ 22]
    by (simp add: header_def)
  ultimately show ?thesis
    by (cases "Load_payload ?b 26 cnt") (auto simp: Load_fields_def Let_def)
qed

lemma Load_payload_image:
  assumes ok: "metas_ok pool ms" and fits: "live_bytes ms < 2 ^ 64"
    and cnt: "length (live_metas ms) < 2 ^ 64" and o: "off = length pre"
  shows "Load_payload (pre @ payload pool ms stop) off (word_of_nat (length (live_metas ms))) =
         Some (disk_metas ms 0, live_paths pool ms, stop)"
proof -
  let ?n = "length (live_metas ms)" and ?size = "word_of_nat (live_bytes ms) :: u64"
  let ?b = "pre @ payload pool ms stop"
  have sz: "unat ?size = live_bytes ms"
    using fits by simp
  have len: "length ?b = off + 8 + live_bytes ms + ?n * kEntryRecordSize + 8"
    using ok o by (simp add: payload_def length_live_paths)
  have "ReadValue ?b off = Some (?size, off + 8)"
    using ReadValue_at [of ?b pre ?size _ off] o by (simp add: payload_def)
  moreover have "take (live_bytes ms) (drop (off + 8) ?b) = live_paths pool ms"
    using ok o by (simp add: payload_def length_live_paths)
  moreover have "\<not> ?n > (length ?b - (off + 8 + live_bytes ms)) div kEntryRecordSize"
  proof -
    have "length ?b - (off + 8 + live_bytes ms) = ?n * kEntryRecordSize + 8"
      unfolding len by simp
    then show ?thesis
      by (simp only: not_less) (simp add: kEntryRecordSize_def)
  qed
  moreover have "ReadRecords ?n ?size ?b (off + 8 + live_bytes ms) =
      Some (disk_metas ms 0, off + 8 + live_bytes ms + ?n * kEntryRecordSize)"
  proof (rule ReadRecords_at)
    show "unat (0 :: u64) + live_bytes ms \<le> unat ?size"
      using sz by simp
    show "\<forall>m \<in> set (live_metas ms). unat (em_nameStart m) \<le> unat (em_pathLen m)"
      using ok by (auto simp: live_metas_def metas_ok_def meta_in_pool_def)
    show "?b = (pre @ enc ?size @ live_paths pool ms) @ records_bytes ms 0 @ enc stop"
      by (simp add: payload_def)
    show "off + 8 + live_bytes ms = length (pre @ enc ?size @ live_paths pool ms)"
      using ok o by (simp add: length_live_paths)
  qed
  moreover have "ReadValue ?b (off + 8 + live_bytes ms + ?n * kEntryRecordSize) =
      Some (stop, length ?b)"
    using ReadValue_at [of ?b "pre @ enc ?size @ live_paths pool ms @ records_bytes ms 0" stop "[]"
        "off + 8 + live_bytes ms + ?n * kEntryRecordSize"] ok o len
    by (simp add: payload_def length_live_paths)
  ultimately show ?thesis
    using cnt fits len by (simp add: Load_payload_def Let_def)
qed

section \<open>What an index written by \<open>Serialize\<close> loads as\<close>

text \<open>The sizes the 64-bit, 32-bit and 16-bit fields of the format can hold.\<close>

definition image_fits :: "FileEntry list \<Rightarrow> bool" where
  "image_fits es \<longleftrightarrow>
     length es < 2 ^ 64 \<and> sum_list (map (\<lambda>e. length (fe_path e)) es) < 2 ^ 64 \<and>
     sum_list (map (\<lambda>e. length (TokenizeToSpans (fe_name e))) es) < 2 ^ 32 \<and>
     (\<forall>e \<in> set es. length (TokenizeToSpans (fe_name e)) < 2 ^ 16)"

lemma live_metas_ok: "metas_ok pool ms \<Longrightarrow> metas_ok pool (live_metas ms)"
  by (auto simp: metas_ok_def live_metas_def)

lemma sum_live_paths:
  "metas_ok pool ms \<Longrightarrow>
   sum_list (map (\<lambda>m. length (fe_path (meta_entry pool m))) (live_metas ms)) = live_bytes ms"
  by (induction ms) (simp_all add: meta_path_in_pool meta_entry_def)

lemma sum_names_le:
  "metas_ok pool ms \<Longrightarrow>
   sum_list (map length (names_of pool ms)) \<le> sum_list (map (\<lambda>m. unat (em_pathLen m)) ms)"
  by (induction ms)
    (auto simp: names_of_def meta_entry_def meta_path_in_pool intro!: add_mono)

lemma image_fits_metas:
  assumes "image_fits (live_entries p)" "metas_ok (ip_pathPool p) (ip_meta p)"
  shows "live_bytes (ip_meta p) < 2 ^ 64" "length (live_metas (ip_meta p)) < 2 ^ 64"
  using assms sum_live_paths [OF assms(2)]
  by (simp_all add: image_fits_def live_entries_metas comp_def)

lemma loaded_entries_disk:
  assumes "metas_ok pool ms" "live_bytes ms < 2 ^ 64"
  shows "metas_ok (live_paths pool ms) (disk_metas ms 0)"
    and "loaded_abs (live_paths pool ms) (disk_metas ms 0) =
           map (\<lambda>m. (meta_entry pool m, False)) (live_metas ms)"
  using disk_metas_entries [OF assms(1), of 0 "[]"] assms(2) by simp_all

lemma names_of_loaded: "names_of pool ms = map (\<lambda>x. fe_name (fst x)) (loaded_abs pool ms)"
  by (simp add: names_of_def loaded_abs_def)

lemma names_of_disk:
  "metas_ok pool ms \<Longrightarrow> live_bytes ms < 2 ^ 64 \<Longrightarrow>
   names_of (live_paths pool ms) (disk_metas ms 0) = names_of pool (live_metas ms)"
  by (simp add: names_of_loaded loaded_entries_disk) (simp add: loaded_abs_def)

lemma Load_disk:
  assumes ok: "metas_ok (ip_pathPool p) (ip_meta p)" and fits: "image_fits (live_entries p)"
  shows "\<exists>q. LoadFromPathPool (disk_metas (ip_meta p) 0) (live_paths (ip_pathPool p) (ip_meta p))
               = Some q \<and>
             pool_inv q \<and> pool_abs q = map (\<lambda>e. (e, False)) (live_entries p)"
proof -
  let ?pool = "ip_pathPool p" and ?ms = "ip_meta p"
  let ?pp = "live_paths ?pool ?ms" and ?dm = "disk_metas ?ms 0"
  note lt = image_fits_metas [OF fits ok]
  have names: "names_of ?pp ?dm = map fe_name (live_entries p)"
    using ok lt(1) by (simp add: names_of_disk) (simp add: names_of_def live_entries_metas)
  have "sum_list (map length (names_of ?pool (live_metas ?ms))) \<le> live_bytes ?ms"
    using sum_names_le [OF live_metas_ok [OF ok]] by (simp add: live_bytes_def)
  then have total: "sum_list (map length (names_of ?pp ?dm)) < 2 ^ 64"
    using ok lt(1) by (simp add: names_of_disk)
  have in_pool: "\<forall>m \<in> set ?dm. meta_in_pool ?pp m"
    using loaded_entries_disk(1) [OF ok lt(1)] by (simp add: metas_ok_def)
  from LoadFromPathPool_safe [OF in_pool total] obtain q where
    q: "LoadFromPathPool ?dm ?pp = Some q" "pool_abs q = loaded_abs ?pp ?dm"
    by auto
  have "pool_inv q"
    using LoadFromPathPool_inv [OF in_pool total _ _ q(1)] fits
    by (simp add: names image_fits_def comp_def)
  with q loaded_entries_disk(2) [OF ok lt(1)] show ?thesis
    by (simp add: live_entries_metas)
qed

lemma Load_Serialize_image:
  assumes safe: "pool_safe p" and fits: "image_fits (live_entries p)"
  shows "\<exists>bytes q. Serialize p ts stop = Some bytes \<and>
           Load (Some bytes) = Some \<lparr>lr_success = True, lr_pool = q, lr_buildTimestampNs = ts,
                                      lr_lastMonitorStopNs = stop\<rparr> \<and>
           pool_inv q \<and> pool_abs q = map (\<lambda>e. (e, False)) (live_entries p)"
proof -
  let ?body = "payload (ip_pathPool p) (ip_meta p) stop"
  let ?cnt = "word_of_nat (length (live_metas (ip_meta p))) :: u64"
  let ?bytes = "header ts ?cnt (Crc32 ?body) @ ?body"
  have ok: "metas_ok (ip_pathPool p) (ip_meta p)"
    using safe by (rule pool_safe_metas_ok)
  note lt = image_fits_metas [OF fits ok]
  have "Serialize p ts stop = Some ?bytes"
    using ok lt(1) by (rule Serialize_image)
  moreover have "Load_fields ?bytes =
      Some (disk_metas (ip_meta p) 0, live_paths (ip_pathPool p) (ip_meta p), ts, stop)"
    using Load_payload_image [OF ok lt, of 26 "header ts ?cnt (Crc32 ?body)" stop]
    by (simp add: Load_fields_header)
  moreover from Load_disk [OF ok fits] obtain q where
    "LoadFromPathPool (disk_metas (ip_meta p) 0) (live_paths (ip_pathPool p) (ip_meta p)) = Some q"
    "pool_inv q" "pool_abs q = map (\<lambda>e. (e, False)) (live_entries p)"
    by auto
  ultimately show ?thesis
    by (simp add: Load_def)
qed

section \<open>Loading untrusted bytes\<close>

lemma ReadValue_Some:
  "ReadValue buffer off = Some (w :: 'a::len word, off') \<Longrightarrow>
   off' = off + LENGTH('a) div 8 \<and> off' \<le> length buffer"
  by (auto simp: ReadValue_def split: if_splits)

lemma ReadValue_prefix:
  assumes "prefix b c" "ReadValue b off = Some (x :: 'a::len word \<times> nat)"
  shows "ReadValue c off = Some x"
proof -
  obtain d where "c = b @ d" using assms(1) by (auto simp: prefix_def)
  with assms(2) show ?thesis
    by (auto simp: ReadValue_def drop_append split: if_splits)
qed

lemma ReadRecord_Some:
  "ReadRecord b off = Some (m, off') \<Longrightarrow> off' = off + kEntryRecordSize \<and> em_deleted m = 0"
  by (auto simp: ReadRecord_def kEntryRecordSize_def bind_eq_Some_conv dest!: ReadValue_Some)

definition fields_in_pool :: "u64 \<Rightarrow> EntryMeta \<Rightarrow> bool" where
  "fields_in_pool psize m \<longleftrightarrow>
     unat (em_pathOffset m) + unat (em_pathLen m) \<le> unat psize \<and>
     unat (em_nameStart m) \<le> unat (em_pathLen m)"

text \<open>The guard of the loop, with its subtraction, is the bound without overflow.\<close>

lemma ReadRecords_guard:
  "\<not> (em_pathOffset m > psize \<or> ucast (em_pathLen m) > psize - em_pathOffset m \<or>
      (ucast (em_nameStart m) :: u32) > em_pathLen m) \<longleftrightarrow> fields_in_pool psize m"
proof (cases "em_pathOffset m \<le> psize")
  case True
  then have "unat (psize - em_pathOffset m) = unat psize - unat (em_pathOffset m)"
    by (simp add: unat_sub)
  with True show ?thesis
    by (auto simp: fields_in_pool_def word_le_nat_alt not_less)
next
  case False
  then show ?thesis
    by (auto simp: fields_in_pool_def word_le_nat_alt not_less not_le)
qed

lemma ReadRecords_Suc:
  "ReadRecords (Suc n) psize b off = do {
     (m, off) \<leftarrow> ReadRecord b off;
     if fields_in_pool psize m then do {
       (ms, off) \<leftarrow> ReadRecords n psize b off;
       Some (m # ms, off) }
     else None }"
  by (cases "ReadRecord b off") (auto simp: ReadRecords_guard [symmetric])

declare ReadRecords.simps(2) [simp del]

lemma ReadRecords_Some:
  "ReadRecords n psize b off = Some (ms, off') \<Longrightarrow>
   off' = off + n * kEntryRecordSize \<and> length ms = n \<and>
   (\<forall>m \<in> set ms. fields_in_pool psize m \<and> em_deleted m = 0)"
proof (induction n arbitrary: off ms)
  case 0
  then show ?case by simp
next
  case (Suc n)
  then obtain m off1 ms1 where
    "ReadRecord b off = Some (m, off1)" "fields_in_pool psize m"
    "ReadRecords n psize b off1 = Some (ms1, off')" "ms = m # ms1"
    by (auto simp: ReadRecords_Suc bind_eq_Some_conv split: if_splits)
  with Suc.IH [of off1 ms1] ReadRecord_Some [of b off m off1] show ?case
    by simp
qed

text \<open>What the file's own fields say its length must be.\<close>

definition image_length :: "string \<Rightarrow> nat \<Rightarrow> bool" where
  "image_length b n \<longleftrightarrow>
     (\<exists>cnt pps. ReadValue b 14 = Some (cnt :: u64, 22) \<and> ReadValue b 26 = Some (pps :: u64, 34) \<and>
                n = 34 + unat pps + unat cnt * kEntryRecordSize + 8)"

lemma Load_payload_Some:
  assumes "Load_payload b off cnt = Some (ms, pool, stop)"
  shows "\<exists>pps. ReadValue b off = Some (pps :: u64, off + 8) \<and> length pool = unat pps \<and>
           metas_ok pool ms \<and> (\<forall>m \<in> set ms. em_deleted m = 0) \<and> length ms = unat cnt \<and>
           length b = off + 8 + unat pps + unat cnt * kEntryRecordSize + 8"
proof -
  from assms obtain pps off1 off2 where
    rd: "ReadValue b off = Some (pps :: u64, off1)" "unat pps \<le> length b - off1"
      "pool = take (unat pps) (drop off1 b)"
      "ReadRecords (unat cnt) pps b (off1 + unat pps) = Some (ms, off2)"
      "ReadValue b off2 = Some (stop, length b)"
    by (auto simp: Load_payload_def Let_def bind_eq_Some_conv split: if_splits)
  moreover have "length pool = unat pps"
    using rd ReadValue_Some [OF rd(1)] by simp
  ultimately show ?thesis
    using ReadValue_Some [OF rd(1)] ReadRecords_Some [OF rd(4)] ReadValue_Some [OF rd(5)]
    by (auto simp: metas_ok_def fields_in_pool_def meta_in_pool_def)
qed

lemma Load_fields_Some:
  assumes "Load_fields b = Some (ms, pool, ts, stop)"
  shows "image_length b (length b)" "metas_ok pool ms" "\<forall>m \<in> set ms. em_deleted m = 0"
    and "length ms * kEntryRecordSize \<le> length b"
proof -
  from assms obtain magic version cnt crc o1 o2 o3 o4 o5 where
    rd: "ReadValue b 0 = Some (magic :: u32, o1)" "ReadValue b o1 = Some (version :: u16, o2)"
      "ReadValue b o2 = Some (ts, o3)" "ReadValue b o3 = Some (cnt :: u64, o4)"
      "ReadValue b o4 = Some (crc :: u32, o5)" "Load_payload b o5 cnt = Some (ms, pool, stop)"
    by (auto simp: Load_fields_def Let_def bind_eq_Some_conv split: if_splits)
  then have "o1 = 4" "o2 = 6" "o3 = 14" "o4 = 22" "o5 = 26"
    by (auto dest!: ReadValue_Some)
  with rd have "ReadValue b 14 = Some (cnt :: u64, 22)" "Load_payload b 26 cnt = Some (ms, pool, stop)"
    by simp_all
  with Load_payload_Some [OF this(2)]
  show "image_length b (length b)" "metas_ok pool ms" "\<forall>m \<in> set ms. em_deleted m = 0"
    "length ms * kEntryRecordSize \<le> length b"
    by (auto simp: image_length_def)
qed

text \<open>
  The name bytes of a loaded index stay under the 64-bit offsets for every file below
  128 GiB: at least 34 file bytes per record, at most 4 GiB of name each.
\<close>

lemma loaded_names_fit:
  assumes "metas_ok pool ms" "length ms * kEntryRecordSize \<le> n" "n < 2 ^ 37"
  shows "sum_list (map length (names_of pool ms)) < 2 ^ 64"
proof -
  have "sum_list (map length (names_of pool ms)) \<le> sum_list (map (\<lambda>m. unat (em_pathLen m)) ms)"
    using assms(1) by (rule sum_names_le)
  also have "\<dots> \<le> sum_list (map (\<lambda>m. 2 ^ 32) ms)"
  proof (rule sum_list_mono)
    fix m
    show "unat (em_pathLen m) \<le> 2 ^ 32"
      using unsigned_less [of "em_pathLen m", where 'a = nat] by simp
  qed
  also have "\<dots> = length ms * 2 ^ 32"
    by (simp add: sum_list_triv)
  also have "\<dots> < 2 ^ 64"
    using assms(2,3) by (simp add: kEntryRecordSize_def)
  finally show ?thesis .
qed

lemma Load_safe:
  assumes "length bytes < 2 ^ 37"
  shows "\<exists>r. Load (Some bytes) = Some r \<and> pool_safe (lr_pool r)"
proof (cases "Load_fields bytes")
  case None
  then show ?thesis
    by (simp add: Load_def load_failed_def pool_inv_safe)
next
  case (Some x)
  then obtain ms pool ts stop where f: "Load_fields bytes = Some (ms, pool, ts, stop)"
    by (cases x) auto
  from loaded_names_fit [OF Load_fields_Some(2,4) [OF f] assms]
    LoadFromPathPool_safe [of ms pool] Load_fields_Some(2) [OF f]
  obtain q where "LoadFromPathPool ms pool = Some q" "pool_safe q"
    by (auto simp: metas_ok_def)
  with f show ?thesis by (simp add: Load_def)
qed

section \<open>Damaged files\<close>

lemma image_length_prefix:
  assumes "prefix b c" "image_length b n" "image_length c n'"
  shows "n = n'"
proof -
  from assms(2) obtain cnt pps where b: "ReadValue b 14 = Some (cnt :: u64, 22)"
    "ReadValue b 26 = Some (pps :: u64, 34)" "n = 34 + unat pps + unat cnt * kEntryRecordSize + 8"
    by (auto simp: image_length_def)
  with assms(1) have "ReadValue c 14 = Some (cnt, 22)" "ReadValue c 26 = Some (pps, 34)"
    by (simp_all add: ReadValue_prefix)
  with assms(3) b(3) show ?thesis
    by (simp add: image_length_def)
qed

definition load_ok :: "string \<Rightarrow> bool" where
  "load_ok bytes \<longleftrightarrow> (\<exists>r. Load (Some bytes) = Some r \<and> lr_success r)"

lemma load_ok_fields: "load_ok bytes \<Longrightarrow> Load_fields bytes \<noteq> None"
  by (cases "Load_fields bytes") (simp_all add: load_ok_def Load_def load_failed_def)

lemma Load_fields_None: "Load_fields bytes = None \<Longrightarrow> Load (Some bytes) = Some load_failed"
  by (simp add: Load_def)

lemma load_prefix_free:
  assumes "load_ok c" "strict_prefix b c"
  shows "Load (Some b) = Some load_failed"
proof (cases "Load_fields b")
  case None
  then show ?thesis by (rule Load_fields_None)
next
  case (Some x)
  from load_ok_fields [OF assms(1)] obtain y where "Load_fields c = Some y" by blast
  then have "image_length c (length c)"
    by (cases y) (auto dest: Load_fields_Some)
  moreover from Some have "image_length b (length b)"
    by (cases x) (auto dest: Load_fields_Some)
  ultimately have "length b = length c"
    using assms(2) image_length_prefix by (auto simp: strict_prefix_def)
  with assms(2) show ?thesis
    by (auto dest: prefix_length_less)
qed

lemma load_image_corrupt:
  assumes "Crc32 body' \<noteq> Crc32 body"
  shows "Load (Some (header ts cnt (Crc32 body) @ body')) = Some load_failed"
  using assms by (intro Load_fields_None) (simp add: Load_fields_header)

section \<open>Replacing the file\<close>

text \<open>
  \<open>WriteFileAtomically\<close> against a file system, a map from paths to contents. What each
  library call returns is its environment: \<open>we_landed\<close> is how many bytes a failed write
  left behind. The result lists the file system after every step, in order: a crash leaves
  one of them.
\<close>

type_synonym fs = "string \<rightharpoonup> string"

record WriteEnv =
  we_open :: bool
  we_landed :: nat
  we_good :: bool
  we_reopen :: bool
  we_fsync :: bool
  we_rename :: bool
  we_dirOpen :: bool
  we_dirSync :: bool

definition tempPath :: "string \<Rightarrow> string" where
  "tempPath filepath = filepath @ ''.tmp''"

definition WriteFileAtomically :: "WriteEnv \<Rightarrow> fs \<Rightarrow> string \<Rightarrow> string \<Rightarrow> bool \<times> fs list" where
  "WriteFileAtomically env fs filepath bytes =
     (if \<not> we_open env then (False, [fs])
      else
        let tmp = tempPath filepath;
            fs1 = fs(tmp \<mapsto> []);
            fs2 = fs(tmp \<mapsto> (if we_good env then bytes else take (we_landed env) bytes))
        in if \<not> we_good env then (False, [fs, fs1, fs2, fs2(tmp := None)])
           else if \<not> we_reopen env \<or> \<not> we_fsync env then (False, [fs, fs1, fs2, fs2(tmp := None)])
           else if \<not> we_rename env then (False, [fs, fs1, fs2, fs2(tmp := None)])
           else
             let fs3 = (fs2(tmp := None))(filepath := fs2 tmp)
             in if \<not> we_dirOpen env then (False, [fs, fs1, fs2, fs3])
                else (we_dirSync env, [fs, fs1, fs2, fs3]))"

definition Save ::
  "WriteEnv \<Rightarrow> fs \<Rightarrow> string \<Rightarrow> IndexPool \<Rightarrow> u64 \<Rightarrow> u64 \<Rightarrow> (bool \<times> fs list) option" where
  "Save env fs filepath pool buildTimestampNs lastMonitorStopNs =
     map_option (WriteFileAtomically env fs filepath)
       (Serialize pool buildTimestampNs lastMonitorStopNs)"

lemma tempPath_neq [simp]: "tempPath f \<noteq> f" "f \<noteq> tempPath f"
  by (simp_all add: tempPath_def)

lemma WriteFileAtomically_steps:
  "fs' \<in> set (snd (WriteFileAtomically env fs f bytes)) \<Longrightarrow>
   (fs' f = fs f \<or> fs' f = Some bytes) \<and> (\<forall>g. g \<noteq> f \<and> g \<noteq> tempPath f \<longrightarrow> fs' g = fs g)"
  by (auto simp: WriteFileAtomically_def Let_def split: if_splits)

lemma WriteFileAtomically_result:
  assumes "WriteFileAtomically env fs f bytes = (ok, fss)"
  shows "fss \<noteq> []" "ok \<Longrightarrow> last fss = (fs(tempPath f := None))(f \<mapsto> bytes)"
    "we_open env \<Longrightarrow> last fss (tempPath f) = None"
  using assms by (auto simp: WriteFileAtomically_def Let_def split: if_splits)

section \<open>Properties\<close>

definition sample_pool :: IndexPool where
  "sample_pool =
     AddEntry (AddEntry empty_pool (sample_file ''/d/'' ''a b'')) (sample_file ''/d/'' ''Cat.txt'')"

lemma sample_pool_inv: "pool_inv sample_pool"
  by (simp add: sample_pool_def AddEntry_inv sample_fits)

lemma sample_pool_live:
  "live_entries sample_pool = [sample_file ''/d/'' ''a b'', sample_file ''/d/'' ''Cat.txt'']"
  by (simp add: sample_pool_def live_entries_def AddEntry_abs AddEntry_inv sample_fits)

lemma sample_image_fits: "image_fits (live_entries sample_pool)"
  by (simp add: sample_pool_live image_fits_def sample_file_def TokenizeToSpans_def IsSeparator_def)

text \<open>C1: What \<open>Serialize\<close> writes, \<open>Load\<close> reads back: for every pool whose records lie in its
  buffers, the load succeeds with the same two timestamps and a well-formed pool holding
  exactly the live entries, in order, with deleted ones dropped.\<close>

theorem Load_Serialize:
  assumes "pool_safe p" "image_fits (live_entries p)"
  shows "\<exists>bytes q. Serialize p ts stop = Some bytes \<and>
           Load (Some bytes) = Some \<lparr>lr_success = True, lr_pool = q, lr_buildTimestampNs = ts,
                                      lr_lastMonitorStopNs = stop\<rparr> \<and>
           pool_inv q \<and> pool_abs q = map (\<lambda>e. (e, False)) (live_entries p)"
  using assms by (rule Load_Serialize_image)

theorem Load_Serialize_witness:
  "\<exists>bytes q. Serialize sample_pool 5 6 = Some bytes \<and>
     Load (Some bytes) = Some \<lparr>lr_success = True, lr_pool = q, lr_buildTimestampNs = 5,
                                lr_lastMonitorStopNs = 6\<rparr> \<and>
     pool_inv q \<and> pool_abs q = [(sample_file ''/d/'' ''a b'', False),
                                (sample_file ''/d/'' ''Cat.txt'', False)]"
  using Load_Serialize [OF pool_inv_safe [OF sample_pool_inv] sample_image_fits, of 5 6]
  by (simp add: sample_pool_live)



text \<open>C6: A truncated index never loads: every strict prefix of an image that \<open>Serialize\<close>
  wrote is rejected, whatever its checksum happens to be.\<close>

theorem Load_truncated:
  assumes "pool_safe p" "image_fits (live_entries p)" "Serialize p ts stop = Some bytes"
    and "strict_prefix b bytes"
  shows "Load (Some b) = Some load_failed"
proof -
  have "load_ok bytes"
    using Load_Serialize_image [OF assms(1,2), of ts stop] assms(3) by (auto simp: load_ok_def)
  then show ?thesis
    using assms(4) by (rule load_prefix_free)
qed

lemma empty_image:
  "Serialize empty_pool 5 6 = Some (header 5 0 (Crc32 (payload [] [] 6)) @ payload [] [] 6)"
  using Serialize_image [of empty_pool 5 6] by (simp add: empty_pool_def)

lemma empty_payload: "payload [] [] 6 = CHR 0x00 # tl (payload [] [] 6)"
proof -
  have "enc (0 :: u64) = le_nat (Suc 7) 0"
    by (simp add: enc_def)
  then have "enc (0 :: u64) = CHR 0x00 # le_nat 7 0"
    by (simp only: le_nat.simps) (simp add: char_of_def)
  then show ?thesis by (simp add: payload_def)
qed

lemma empty_image_fits: "image_fits (live_entries empty_pool)"
  by (simp add: image_fits_def live_entries_def)

theorem Load_truncated_witness:
  "Load (Some (header 5 0 (Crc32 (payload [] [] 6)))) = Some load_failed"
  by (rule Load_truncated [OF pool_inv_safe [OF empty_pool_inv] empty_image_fits empty_image])
    (use empty_payload in \<open>auto simp: strict_prefix_def\<close>)

text \<open>Damage confined to four consecutive payload bytes of a written image is always
  detected: the load fails and nothing of the file is used.\<close>

lemma Load_burst:
  assumes "pool_safe p" "image_fits (live_entries p)" "Serialize p ts stop = Some bytes"
    and "bytes = pre @ old @ post" "kHeaderSize \<le> length pre"
    and "length new = length old" "length old \<le> 4" "new \<noteq> old"
  shows "Load (Some (pre @ new @ post)) = Some load_failed"
proof -
  let ?body = "payload (ip_pathPool p) (ip_meta p) stop"
  let ?h = "header ts (word_of_nat (length (live_metas (ip_meta p)))) (Crc32 ?body)"
  have ok: "metas_ok (ip_pathPool p) (ip_meta p)"
    using assms(1) by (rule pool_safe_metas_ok)
  have "pre @ old @ post = ?h @ ?body"
    using Serialize_image [OF ok image_fits_metas(1) [OF assms(2) ok], of ts stop] assms(3,4) by simp
  then have "prefix ?h (pre @ old @ post)" by (simp only: prefixI)
  then have "prefix ?h pre"
    using assms(5) by (auto simp: kHeaderSize_def intro: prefix_length_prefix [of _ "pre @ old @ post"])
  then obtain pre' where pre: "pre = ?h @ pre'" by (auto simp: prefix_def)
  with \<open>pre @ old @ post = ?h @ ?body\<close> have body: "?body = pre' @ old @ post" by simp
  have "Crc32 (pre' @ new @ post) \<noteq> Crc32 ?body"
    using Crc32_window [of new old pre' post] assms(6-8) by (auto simp: body)
  from load_image_corrupt [OF this] pre show ?thesis by simp
qed

lemma Load_burst_witness:
  "Load (Some (header 5 0 (Crc32 (payload [] [] 6)) @ ''X'' @ tl (payload [] [] 6))) =
   Some load_failed"
  by (rule Load_burst [OF pool_inv_safe [OF empty_pool_inv] empty_image_fits empty_image,
        of _ "[CHR 0x00]"]) (use empty_payload in \<open>simp_all add: kHeaderSize_def\<close>)

text \<open>C2: Saving is crash safe. After every step of \<open>Save\<close>, whichever library call failed, the
  index file is either what it was or the complete new index, which loads with the pool's
  live entries; no file but the index and its temporary is touched; and success is reported
  only with the new index in place and no temporary left.\<close>

theorem Save_crash_safe:
  assumes "pool_safe p" "image_fits (live_entries p)"
    and "Save env fs f p ts stop = Some (ok, fss)" "fs' \<in> set fss"
  shows "(fs' f = fs f \<or>
          (\<exists>q. Load (fs' f) = Some \<lparr>lr_success = True, lr_pool = q, lr_buildTimestampNs = ts,
                                     lr_lastMonitorStopNs = stop\<rparr> \<and>
               pool_abs q = map (\<lambda>e. (e, False)) (live_entries p))) \<and>
         (\<forall>g. g \<noteq> f \<and> g \<noteq> tempPath f \<longrightarrow> fs' g = fs g) \<and>
         (ok \<longrightarrow> last fss f = Serialize p ts stop \<and> last fss (tempPath f) = None)"
proof -
  from Load_Serialize_image [OF assms(1,2), of ts stop] obtain bytes q where
    b: "Serialize p ts stop = Some bytes"
    and q: "Load (Some bytes) = Some \<lparr>lr_success = True, lr_pool = q, lr_buildTimestampNs = ts,
        lr_lastMonitorStopNs = stop\<rparr>" "pool_abs q = map (\<lambda>e. (e, False)) (live_entries p)"
    by blast
  from b assms(3) have w: "WriteFileAtomically env fs f bytes = (ok, fss)"
    by (simp add: Save_def)
  with assms(4) WriteFileAtomically_steps [of fs' env fs f bytes]
  have "fs' f = fs f \<or> fs' f = Some bytes" "\<forall>g. g \<noteq> f \<and> g \<noteq> tempPath f \<longrightarrow> fs' g = fs g"
    by auto
  with q b WriteFileAtomically_result(2) [OF w] show ?thesis by auto
qed

definition sample_env :: WriteEnv where
  "sample_env = \<lparr>we_open = True, we_landed = 0, we_good = True, we_reopen = True, we_fsync = True,
     we_rename = True, we_dirOpen = True, we_dirSync = True\<rparr>"

theorem Save_crash_safe_witness:
  "\<exists>fss. Save sample_env Map.empty ''i'' empty_pool 5 6 = Some (True, fss) \<and>
     last fss ''i'' = Serialize empty_pool 5 6 \<and> last fss ''i.tmp'' = None"
proof -
  obtain fss where s: "Save sample_env Map.empty ''i'' empty_pool 5 6 = Some (True, fss)"
    and ne: "fss \<noteq> []"
    by (simp add: Save_def empty_image WriteFileAtomically_def sample_env_def Let_def)
  then have "hd fss \<in> set fss" by simp
  from Save_crash_safe [OF pool_inv_safe [OF empty_pool_inv] empty_image_fits s this] s
  show ?thesis by (simp add: tempPath_def)
qed

end
