(* ===== verification/Simd_Search.thy ===== *)
theory Simd_Search
  imports Prelude
begin

text \<open>
  Substring search (\<open>search/SimdSearch*.cpp\<close>): the scalar tier and the two vector tiers,
  which collect the positions of the needle's first byte of a chunk in a bit mask, walk its
  set bits from the lowest, and confirm every candidate. A chunk comparison and its
  \<open>movemask\<close> are the documented result of the intrinsics: bit \<open>i\<close> says that byte \<open>i\<close> is equal.
  \<open>npos\<close> is \<open>None\<close>. All tiers are shown to return the first occurrence, and that contract is
  the locale \<open>searcher\<close> the search engine relies on.
\<close>

unbundle bit_operations_syntax

section \<open>The code\<close>

definition FindSubstringScalar :: "string \<Rightarrow> string \<Rightarrow> nat option" where
  "FindSubstringScalar haystack needle = str_find haystack needle"

text \<open>\<open>_mm_movemask_epi8 (_mm_cmpeq_epi8 chunk firstByte)\<close>, and \<open>__builtin_ctz\<close>.\<close>

definition eq_mask :: "string \<Rightarrow> char \<Rightarrow> u32" where
  "eq_mask chunk firstByte = horner_sum of_bool 2 (map (\<lambda>c. c = firstByte) chunk)"

definition ctz :: "u32 \<Rightarrow> nat" where
  "ctz m = length (takeWhile (\<lambda>i. \<not> bit m i) [0..<32])"

definition memcmp_eq :: "string \<Rightarrow> string \<Rightarrow> nat \<Rightarrow> bool" where
  "memcmp_eq haystack needle pos \<longleftrightarrow> take (length needle) (drop pos haystack) = needle"

lemma clear_lowest_less: "m \<noteq> 0 \<Longrightarrow> m AND (m - 1) < m" for m :: u32
proof -
  assume "m \<noteq> 0"
  then have "m - 1 < m" by (simp add: word_less_nat_alt unat_minus_one unat_gt_0 diff_less)
  with word_and_le1 [of m "m - 1"] show ?thesis by (rule order_le_less_trans)
qed

text \<open>The loop \<open>while (mask != 0)\<close> over the candidates of one chunk.\<close>

function scan_mask :: "string \<Rightarrow> string \<Rightarrow> nat \<Rightarrow> u32 \<Rightarrow> nat option" where
  "scan_mask haystack needle chunkStart msk =
     (if msk = 0 then None
      else
        let candidatePos = chunkStart + ctz msk
        in if candidatePos + length needle \<le> length haystack \<and> memcmp_eq haystack needle candidatePos
           then Some candidatePos
           else scan_mask haystack needle chunkStart (msk AND (msk - 1)))"
  by pat_completeness auto
termination
  by (relation "measure (\<lambda>(h, n, s, m). unat m)")
    (auto simp: word_less_nat_alt [symmetric] clear_lowest_less)

text \<open>The scalar tail loop.\<close>

function tail_scan :: "string \<Rightarrow> string \<Rightarrow> nat \<Rightarrow> nat option" where
  "tail_scan haystack needle pos =
     (if pos + length needle \<le> length haystack then
        if haystack ! pos = hd needle \<and> memcmp_eq haystack needle pos then Some pos
        else tail_scan haystack needle (pos + 1)
      else None)"
  by pat_completeness auto
termination
  by (relation "measure (\<lambda>(h, n, p). Suc (length h) - p)") auto

text \<open>The loop over the chunks of \<open>kChunkWidth\<close> (\<open>Suc w\<close>) bytes, then the tail.\<close>

function chunk_scan :: "nat \<Rightarrow> string \<Rightarrow> string \<Rightarrow> nat \<Rightarrow> nat option" where
  "chunk_scan w haystack needle chunkStart =
     (if chunkStart + Suc w \<le> length haystack then
        case scan_mask haystack needle chunkStart
               (eq_mask (take (Suc w) (drop chunkStart haystack)) (hd needle)) of
          Some pos \<Rightarrow> Some pos
        | None \<Rightarrow> chunk_scan w haystack needle (chunkStart + Suc w)
      else tail_scan haystack needle chunkStart)"
  by pat_completeness auto
termination
  by (relation "measure (\<lambda>(w, h, n, s). length h - s)") auto

declare scan_mask.simps [simp del] tail_scan.simps [simp del] chunk_scan.simps [simp del]

definition FindSubstringAvx2 :: "string \<Rightarrow> string \<Rightarrow> nat option" where
  "FindSubstringAvx2 haystack needle =
     (if needle = [] then Some 0
      else if length needle > length haystack then None
      else chunk_scan 31 haystack needle 0)"

definition FindSubstringSse42 :: "string \<Rightarrow> string \<Rightarrow> nat option" where
  "FindSubstringSse42 haystack needle =
     (if needle = [] then Some 0
      else if length needle > length haystack then None
      else chunk_scan 15 haystack needle 0)"

datatype Tier = kAvx2 | kSse42 | kScalar

definition DetectTier :: "bool \<Rightarrow> bool \<Rightarrow> Tier" where
  "DetectTier avx2 sse42 = (if avx2 then kAvx2 else if sse42 then kSse42 else kScalar)"

definition FindSubstring :: "Tier \<Rightarrow> string \<Rightarrow> string \<Rightarrow> nat option" where
  "FindSubstring kTier haystack needle =
     (case kTier of
        kAvx2 \<Rightarrow> FindSubstringAvx2 haystack needle
      | kSse42 \<Rightarrow> FindSubstringSse42 haystack needle
      | kScalar \<Rightarrow> FindSubstringScalar haystack needle)"

section \<open>The mask and its lowest bit\<close>

lemma bit_eq_mask: "bit (eq_mask chunk c) i \<longleftrightarrow> i < 32 \<and> i < length chunk \<and> chunk ! i = c"
  by (auto simp: eq_mask_def bit_horner_sum_bit_word_iff)

lemma ctz_bit:
  assumes "m \<noteq> 0"
  shows "ctz m < 32" "bit m (ctz m)" "\<forall>i < ctz m. \<not> bit m i"
proof -
  let ?xs = "[0..<32]" and ?P = "\<lambda>i. \<not> bit m i"
  obtain i where "bit m i"
    using assms by (auto simp: bit_eq_iff)
  then have i: "i < 32" "bit m i" using bit_imp_le_length [of m i] by auto
  have lt: "length (takeWhile ?P ?xs) < length ?xs"
  proof (rule ccontr)
    assume "\<not> ?thesis"
    then have "takeWhile ?P ?xs = ?xs"
      using length_takeWhile_le [of ?P ?xs] takeWhile_eq_take [of ?P ?xs] by simp
    then have "\<forall>x \<in> set ?xs. ?P x" by (simp only: takeWhile_eq_all_conv)
    with i show False by simp
  qed
  then show lt32: "ctz m < 32" by (simp add: ctz_def)
  have "\<not> ?P (?xs ! ctz m)"
    unfolding ctz_def by (rule nth_length_takeWhile [OF lt])
  with lt32 show "bit m (ctz m)" by simp
  show "\<forall>j < ctz m. \<not> bit m j"
  proof (intro allI impI)
    fix j assume j: "j < ctz m"
    then have "takeWhile ?P ?xs ! j = ?xs ! j"
      by (simp only: ctz_def takeWhile_nth)
    moreover have "takeWhile ?P ?xs ! j \<in> set (takeWhile ?P ?xs)"
      using j by (simp add: ctz_def)
    ultimately show "?P j"
      using j lt32 set_takeWhileD by fastforce
  qed
qed

lemma clear_lowest:
  fixes m :: u32
  assumes "m \<noteq> 0"
  shows "m AND (m - 1) = m AND NOT (2 ^ ctz m)"
proof -
  let ?k = "ctz m"
  let ?m = "m AND NOT (2 ^ ?k)"
  have k: "bit m ?k" "\<forall>i < ?k. \<not> bit m i" using ctz_bit [OF assms] by auto
  have "NOT m AND 2 ^ ?k = 0"
    using k(1) by (intro bit_eqI) (auto simp: bit_simps)
  then have "m - 2 ^ ?k = ?m" by (rule disjunctive_diff_eq_and_not)
  moreover have "m - 1 = (m - 2 ^ ?k) + mask ?k"
    by (simp add: mask_eq_exp_minus_1)
  moreover have "?m AND mask ?k = 0"
    using k(2) by (intro bit_eqI) (auto simp: bit_simps)
  then have "?m + mask ?k = ?m OR mask ?k" by (rule disjunctive_add_eq_or)
  ultimately have "m - 1 = ?m OR mask ?k" by simp
  moreover have "m AND (?m OR mask ?k) = ?m"
    using k(2) by (intro bit_eqI) (auto simp: bit_simps)
  ultimately show ?thesis by simp
qed

lemma bit_clear_lowest:
  "m \<noteq> 0 \<Longrightarrow> bit (m AND (m - 1)) i \<longleftrightarrow> bit m i \<and> i \<noteq> ctz m" for m :: u32
  by (auto simp: clear_lowest bit_simps dest: bit_imp_le_length)

section \<open>Every tier finds the first occurrence\<close>

text \<open>\<open>r\<close> is the first position from \<open>s\<close> on that satisfies \<open>P\<close>.\<close>

definition is_first :: "(nat \<Rightarrow> bool) \<Rightarrow> nat \<Rightarrow> nat option \<Rightarrow> bool" where
  "is_first P s r \<longleftrightarrow>
     (case r of
        Some p \<Rightarrow> s \<le> p \<and> P p \<and> (\<forall>j. s \<le> j \<and> j < p \<longrightarrow> \<not> P j)
      | None \<Rightarrow> \<forall>j \<ge> s. \<not> P j)"

lemma is_first_here: "P s \<Longrightarrow> is_first P s (Some s)"
  by (auto simp: is_first_def)

lemma is_first_skip:
  assumes "is_first P t r" "s \<le> t" "\<forall>j. s \<le> j \<and> j < t \<longrightarrow> \<not> P j"
  shows "is_first P s r"
  using assms by (cases r) (auto simp: is_first_def not_less [symmetric] intro: order.trans)

lemma is_first_unique: "is_first P s r \<Longrightarrow> is_first P s r' \<Longrightarrow> r = r'"
proof -
  assume r: "is_first P s r" "is_first P s r'"
  have "p = q" if "r = Some p" "r' = Some q" for p q
    using r that linorder_less_linear [of p q] by (auto simp: is_first_def)
  with r show ?thesis
    by (cases r; cases r') (auto simp: is_first_def)
qed

lemma str_find_first: "is_first (occurs_at n h) 0 (str_find h n)"
proof (cases "str_find h n")
  case None
  then show ?thesis by (simp add: is_first_def str_find_None_iff [symmetric])
next
  case (Some p)
  with str_find_Some_iff [of h n p] show ?thesis by (simp add: is_first_def)
qed

lemma memcmp_occurs:
  "p + length n \<le> length h \<and> memcmp_eq h n p \<longleftrightarrow> occurs_at n h p"
  by (simp add: memcmp_eq_def occurs_at_iff_slice)

lemma occurs_first_byte: "occurs_at n h p \<Longrightarrow> n \<noteq> [] \<Longrightarrow> p < length h \<and> h ! p = hd n"
proof -
  assume occ: "occurs_at n h p" and ne: "n \<noteq> []"
  then have p: "p < length h" by (cases n) (auto simp: occurs_at_iff_slice)
  obtain zs where "drop p h = n @ zs" using occ by (auto simp: occurs_at_def prefix_def)
  with ne have "hd (drop p h) = hd n" by simp
  with p show ?thesis by (simp add: hd_drop_conv_nth)
qed

lemma tail_scan_first: "n \<noteq> [] \<Longrightarrow> is_first (occurs_at n h) pos (tail_scan h n pos)"
proof (induction h n pos rule: tail_scan.induct)
  case (1 h n pos)
  show ?case
  proof (cases "pos + length n \<le> length h")
    case False
    then have "\<forall>j \<ge> pos. \<not> occurs_at n h j"
      by (auto simp: occurs_at_iff_slice)
    with False show ?thesis by (simp add: tail_scan.simps is_first_def)
  next
    case True
    show ?thesis
    proof (cases "occurs_at n h pos")
      case True
      with 1 occurs_first_byte [OF True] show ?thesis
        by (simp add: tail_scan.simps memcmp_occurs [symmetric] is_first_here)
    next
      case False
      with \<open>pos + length n \<le> length h\<close>
      have "tail_scan h n pos = tail_scan h n (pos + 1)"
        by (simp add: tail_scan.simps [of h n pos] memcmp_occurs [symmetric])
      moreover have "is_first (occurs_at n h) (pos + 1) (tail_scan h n (pos + 1))"
        using 1 \<open>pos + length n \<le> length h\<close> False memcmp_occurs [of pos n h] by blast
      moreover have "\<forall>j. pos \<le> j \<and> j < pos + 1 \<longrightarrow> \<not> occurs_at n h j"
        using False by (auto simp: less_Suc_eq)
      ultimately show ?thesis by (auto intro: is_first_skip)
    qed
  qed
qed

lemma scan_mask_first:
  "is_first (\<lambda>i. bit m i \<and> occurs_at n h (s + i)) 0
     (map_option (\<lambda>p. p - s) (scan_mask h n s m)) \<and>
   (\<forall>p. scan_mask h n s m = Some p \<longrightarrow> s \<le> p)"
proof (induction h n s m rule: scan_mask.induct)
  case (1 h n s m)
  show ?case
  proof (cases "m = 0")
    case True
    then show ?thesis by (simp add: scan_mask.simps is_first_def)
  next
    case False
    note low = ctz_bit [OF False]
    show ?thesis
    proof (cases "occurs_at n h (s + ctz m)")
      case True
      with False low show ?thesis
        by (simp add: scan_mask.simps Let_def memcmp_occurs is_first_def)
    next
      case no: False
      then have eq: "scan_mask h n s m = scan_mask h n s (m AND (m - 1))"
        using False by (simp add: scan_mask.simps [of h n s m] Let_def memcmp_occurs)
      have "(\<lambda>i. bit (m AND (m - 1)) i \<and> occurs_at n h (s + i)) =
            (\<lambda>i. bit m i \<and> occurs_at n h (s + i))"
        using no by (auto simp: fun_eq_iff bit_clear_lowest [OF False])
      with 1 [OF False refl] no eq show ?thesis
        by (simp add: memcmp_occurs)
    qed
  qed
qed

lemma chunk_scan_first: "n \<noteq> [] \<Longrightarrow> w < 32 \<Longrightarrow> is_first (occurs_at n h) s (chunk_scan w h n s)"
proof (induction w h n s rule: chunk_scan.induct)
  case (1 w h n s)
  show ?case
  proof (cases "s + Suc w \<le> length h")
    case False
    with 1 show ?thesis by (simp add: chunk_scan.simps tail_scan_first)
  next
    case True
    let ?m = "eq_mask (take (Suc w) (drop s h)) (hd n)"
    let ?r = "scan_mask h n s ?m"
    have bit: "bit ?m (j - s)" if "occurs_at n h j" "s \<le> j" "j < s + Suc w" for j
      using occurs_first_byte [OF that(1) 1(2)] that(2,3) 1(3)
      by (auto simp: bit_eq_mask)
    note scan = scan_mask_first [of ?m n h s]
    show ?thesis
    proof (cases ?r)
      case None
      then have "\<forall>j. s \<le> j \<and> j < s + Suc w \<longrightarrow> \<not> occurs_at n h j"
        using scan bit by (auto simp: is_first_def) (metis le_add_diff_inverse)
      moreover have "is_first (occurs_at n h) (s + Suc w) (chunk_scan w h n (s + Suc w))"
        using 1 True None by simp
      ultimately show ?thesis
        using True None is_first_skip [of "occurs_at n h" "s + Suc w" _ s]
        by (simp add: chunk_scan.simps [of w h n s])
    next
      case (Some p)
      then have p: "s \<le> p" "bit ?m (p - s)" "occurs_at n h p"
        and before: "\<forall>j < p - s. \<not> (bit ?m j \<and> occurs_at n h (s + j))"
        using scan by (auto simp: is_first_def)
      from p(1,2) have "p < s + Suc w" by (auto simp: bit_eq_mask)
      moreover have "\<not> occurs_at n h j" if "s \<le> j" "j < p" for j
      proof
        assume "occurs_at n h j"
        moreover from this that \<open>p < s + Suc w\<close> have "bit ?m (j - s)" by (intro bit) auto
        moreover have "j - s < p - s" "s + (j - s) = j" using that by auto
        ultimately show False using before by metis
      qed
      ultimately show ?thesis
        using True Some p by (simp add: chunk_scan.simps is_first_def)
    qed
  qed
qed

lemma vector_tier_first:
  "w < 32 \<Longrightarrow>
   (if needle = [] then Some 0
    else if length needle > length haystack then None
    else chunk_scan w haystack needle 0) = str_find haystack needle"
proof -
  assume w: "w < 32"
  have "str_find haystack needle = None" if "length needle > length haystack"
    using that by (auto simp: str_find_None_iff occurs_at_iff_slice)
  moreover have "str_find haystack needle = Some 0" if "needle = []"
    using that by (cases haystack) simp_all
  moreover have "chunk_scan w haystack needle 0 = str_find haystack needle" if "needle \<noteq> []"
    using chunk_scan_first [OF that w, of haystack 0] str_find_first by (rule is_first_unique)
  ultimately show ?thesis by auto
qed

section \<open>The contract of a searcher\<close>

locale searcher =
  fixes find_sub :: "string \<Rightarrow> string \<Rightarrow> nat option"
  assumes find_sub_first: "find_sub h n = Some i \<longleftrightarrow> occurs_at n h i \<and> (\<forall>j < i. \<not> occurs_at n h j)"
    and find_sub_none: "find_sub h n = None \<longleftrightarrow> (\<forall>i. \<not> occurs_at n h i)"
begin

lemma find_sub_sublist: "find_sub h n \<noteq> None \<longleftrightarrow> sublist n h"
proof
  assume "find_sub h n \<noteq> None"
  then obtain i where "occurs_at n h i" by (auto simp: find_sub_none)
  then obtain zs where "drop i h = n @ zs" by (auto simp: occurs_at_def prefix_def)
  then have "h = take i h @ n @ zs" by (metis append_take_drop_id)
  then show "sublist n h" by (metis sublist_appendI)
next
  assume "sublist n h"
  then obtain ps ss where "h = ps @ n @ ss" by (auto simp: sublist_def)
  then have "occurs_at n h (length ps)" by (simp add: occurs_at_def)
  then show "find_sub h n \<noteq> None" by (auto simp: find_sub_none)
qed

lemma find_sub_bounds: "find_sub h n = Some i \<Longrightarrow> i + length n \<le> length h"
  by (simp add: find_sub_first occurs_at_iff_slice)

lemma find_sub_slice: "find_sub h n = Some i \<Longrightarrow> take (length n) (drop i h) = n"
  by (simp add: find_sub_first occurs_at_iff_slice)

end

lemma FindSubstring_str_find: "FindSubstring t h n = str_find h n"
  using vector_tier_first [of 31 n h] vector_tier_first [of 15 n h]
  by (cases t) (simp_all add: FindSubstring_def FindSubstringAvx2_def FindSubstringSse42_def
      FindSubstringScalar_def)

interpretation std_find: searcher str_find
  by unfold_locales (simp_all add: str_find_Some_iff str_find_None_iff)

interpretation tier: searcher "FindSubstring t" for t
  by unfold_locales (simp_all add: FindSubstring_str_find str_find_Some_iff str_find_None_iff)

section \<open>Properties\<close>

text \<open>C12: The tier a processor selects cannot change a search: the vector tiers, with their
  chunk masks and tail loop, return the same position as the standard library's search, for
  every haystack and needle, the empty ones and those shorter than a chunk included.\<close>

theorem FindSubstring_tiers:
  "FindSubstring (DetectTier avx2 sse42) haystack needle = FindSubstringScalar haystack needle"
  by (simp add: FindSubstring_str_find FindSubstringScalar_def)

end
