(* ===== verification/Token_Matcher.thy ===== *)
theory Token_Matcher
  imports Index_Pool Simd_Search
begin

text \<open>
  Token matching (\<open>search/TokenMatcher.{h,cpp}\<close>): the separators split a text into non-empty
  tokens, and a query matches a name when each of its tokens is part of some name token.
  The splitter is shown to be the specification \<open>tokens\<close>, and the spans cached in the pool
  (\<open>docs/adr/0012\<close>) to give the same tokens, for the name and for its lower-case form.
\<close>

section \<open>The code\<close>

definition TM_IsSeparator :: "char \<Rightarrow> bool" where
  "TM_IsSeparator c \<longleftrightarrow> c = CHR '' '' \<or> c = CHR ''_'' \<or> c = CHR ''-'' \<or> c = CHR ''.''"

text \<open>\<open>i\<close> is the index in \<open>text\<close> of the first byte of the rest.\<close>

fun TokenizeInto_loop ::
  "string \<Rightarrow> string \<Rightarrow> nat \<Rightarrow> nat \<Rightarrow> bool \<Rightarrow> string list \<Rightarrow> string list option" where
  "TokenizeInto_loop text [] i tokenStart inToken out =
     (if inToken then do {
        t \<leftarrow> substr text tokenStart (length text - tokenStart);
        Some (out @ [t]) }
      else Some out)"
| "TokenizeInto_loop text (c # cs) i tokenStart inToken out =
     (if TM_IsSeparator c then
        (if inToken then do {
           t \<leftarrow> substr text tokenStart (i - tokenStart);
           TokenizeInto_loop text cs (i + 1) tokenStart False (out @ [t]) }
         else TokenizeInto_loop text cs (i + 1) tokenStart inToken out)
      else if \<not> inToken then TokenizeInto_loop text cs (i + 1) i True out
      else TokenizeInto_loop text cs (i + 1) tokenStart inToken out)"

text \<open>The caller's vector is cleared first, whatever it held.\<close>

definition TokenizeInto :: "string \<Rightarrow> string list \<Rightarrow> string list option" where
  "TokenizeInto text out = TokenizeInto_loop text text 0 0 False []"

definition Tokenize :: "string \<Rightarrow> string list option" where
  "Tokenize text = TokenizeInto text []"

definition MatchesAllTokens :: "string list \<Rightarrow> string list \<Rightarrow> bool" where
  "MatchesAllTokens queryTokens nameTokens \<longleftrightarrow>
     list_all (\<lambda>queryToken. list_ex (\<lambda>nameToken. str_find nameToken queryToken \<noteq> None) nameTokens)
       queryTokens"

section \<open>What the tokens of a text are\<close>

fun split_at_seps :: "string \<Rightarrow> string list" where
  "split_at_seps [] = [[]]"
| "split_at_seps (c # cs) =
     (if IsSeparator c then [] # split_at_seps cs
      else (c # hd (split_at_seps cs)) # tl (split_at_seps cs))"

definition tokens :: "string \<Rightarrow> string list" where
  "tokens text = filter (\<lambda>t. t \<noteq> []) (split_at_seps text)"

lemma TM_IsSeparator [simp]: "TM_IsSeparator = IsSeparator"
  by (simp add: fun_eq_iff TM_IsSeparator_def IsSeparator_def)

lemma split_at_seps_nonempty [simp]: "split_at_seps s \<noteq> []"
  by (induction s) simp_all

text \<open>The tokens of a rest whose first token already began with \<open>cur\<close>.\<close>

definition tokens_from :: "string \<Rightarrow> string \<Rightarrow> string list" where
  "tokens_from cur rest =
     filter (\<lambda>t. t \<noteq> []) ((cur @ hd (split_at_seps rest)) # tl (split_at_seps rest))"

lemma tokens_from_Nil: "tokens_from [] rest = tokens rest"
  unfolding tokens_from_def tokens_def by (cases "split_at_seps rest") simp_all

lemma tokens_from_end: "tokens_from cur [] = (if cur = [] then [] else [cur])"
  by (simp add: tokens_from_def)

lemma tokens_from_sep:
  "IsSeparator c \<Longrightarrow> tokens_from cur (c # cs) = (if cur = [] then [] else [cur]) @ tokens cs"
  unfolding tokens_from_def tokens_def by (cases "split_at_seps cs") simp_all

lemma tokens_from_char:
  "\<not> IsSeparator c \<Longrightarrow> tokens_from cur (c # cs) = tokens_from (cur @ [c]) cs"
  by (simp add: tokens_from_def)

lemma TokenizeInto_loop_tokens:
  "text = pre @ cur @ rest \<Longrightarrow> inToken = (cur \<noteq> []) \<Longrightarrow> (inToken \<Longrightarrow> b = length pre) \<Longrightarrow>
   TokenizeInto_loop text rest (length (pre @ cur)) b inToken out = Some (out @ tokens_from cur rest)"
proof (induction rest arbitrary: pre cur b inToken out)
  case Nil
  then show ?case by (auto simp: tokens_from_end substr_def)
next
  case (Cons c cs)
  show ?case
  proof (cases "IsSeparator c")
    case True
    have "TokenizeInto_loop text cs (length (pre @ cur @ [c])) b False out' =
          Some (out' @ tokens cs)" for out'
      using Cons.IH [of "pre @ cur @ [c]" "[]" False b out'] Cons.prems(1)
      by (simp add: tokens_from_Nil)
    with True Cons.prems show ?thesis
      by (auto simp: tokens_from_sep substr_def)
  next
    case False
    show ?thesis
    proof (cases inToken)
      case True
      with False Cons.IH [of pre "cur @ [c]" True b out] Cons.prems show ?thesis
        by (simp add: tokens_from_char)
    next
      case no: False
      with False Cons.IH [of pre "[c]" True "length pre" out] Cons.prems show ?thesis
        by (simp add: tokens_from_char)
    qed
  qed
qed

lemma TokenizeInto_tokens: "TokenizeInto text out = Some (tokens text)"
  using TokenizeInto_loop_tokens [of "text" "[]" "[]" "text" False 0 "[]"]
  by (simp add: TokenizeInto_def tokens_from_Nil)

lemma Tokenize_tokens: "Tokenize text = Some (tokens text)"
  by (simp add: Tokenize_def TokenizeInto_tokens)

lemma split_at_seps_no_sep: "\<forall>t \<in> set (split_at_seps s). \<forall>c \<in> set t. \<not> IsSeparator c"
proof (induction s)
  case Nil
  then show ?case by simp
next
  case (Cons x xs)
  then show ?case
    by (cases "split_at_seps xs") auto
qed

lemma tokens_no_sep: "t \<in> set (tokens s) \<Longrightarrow> t \<noteq> [] \<and> (\<forall>c \<in> set t. \<not> IsSeparator c)"
  using split_at_seps_no_sep [of s] by (auto simp: tokens_def)

section \<open>The cached spans give the same tokens\<close>

definition span_text :: "string \<Rightarrow> TokenSpan \<Rightarrow> string" where
  "span_text text sp = take (unat (ts_length sp)) (drop (unat (ts_offset sp)) text)"

lemma span_nat [simp]:
  "a < 2 ^ 32 \<Longrightarrow> unat (ts_offset (span a b)) = a" "b < 2 ^ 32 \<Longrightarrow> unat (ts_length (span a b)) = b"
  by (simp_all add: span_def)

lemma those_Some_map: "(\<forall>x \<in> set xs. f x = Some (g x)) \<Longrightarrow> those (map f xs) = Some (map g xs)"
  by (induction xs) simp_all

lemma TokenizeToSpans_loop_tokens:
  "text = pre @ cur @ rest \<Longrightarrow> inToken = (cur \<noteq> []) \<Longrightarrow> (inToken \<Longrightarrow> b = length pre) \<Longrightarrow>
   length text < 2 ^ 32 \<Longrightarrow>
   (let spans = TokenizeToSpans_loop rest (length (pre @ cur)) b inToken
    in map (span_text text) spans = tokens_from cur rest \<and>
       (\<forall>sp \<in> set spans. unat (ts_offset sp) \<le> length text))"
proof (induction rest arbitrary: pre cur b inToken)
  case Nil
  then show ?case by (simp add: tokens_from_end span_text_def)
next
  case (Cons c cs)
  show ?case
  proof (cases "IsSeparator c")
    case True
    then show ?thesis
      using Cons.IH [of "pre @ cur @ [c]" "[]" False b] Cons.prems
      by (auto simp: tokens_from_Nil tokens_from_sep span_text_def Let_def)
  next
    case False
    show ?thesis
    proof (cases inToken)
      case True
      with False Cons.IH [of pre "cur @ [c]" True b] Cons.prems show ?thesis
        by (simp add: tokens_from_char)
    next
      case no: False
      with False Cons.IH [of pre "[c]" True "length pre"] Cons.prems show ?thesis
        by (simp add: tokens_from_char)
    qed
  qed
qed

lemma ApplyTokenSpans_tokens:
  assumes "length text < 2 ^ 32"
  shows "ApplyTokenSpans text (TokenizeToSpans text) = Some (tokens text)"
proof -
  let ?spans = "TokenizeToSpans text"
  have sp: "map (span_text text) ?spans = tokens text"
    "\<forall>sp \<in> set ?spans. unat (ts_offset sp) \<le> length text"
    using TokenizeToSpans_loop_tokens [of "text" "[]" "[]" "text" False 0] assms
    by (simp_all add: TokenizeToSpans_def tokens_from_Nil Let_def)
  then have "ApplyTokenSpans text ?spans = Some (map (span_text text) ?spans)"
    unfolding ApplyTokenSpans_def
    by (intro those_Some_map) (simp add: substr_def span_text_def)
  with sp(1) show ?thesis by simp
qed

lemma MatchesAllTokens_iff:
  "MatchesAllTokens qs ns \<longleftrightarrow> (\<forall>q \<in> set qs. \<exists>n \<in> set ns. sublist q n)"
  using std_find.find_sub_sublist by (auto simp: MatchesAllTokens_def list_all_iff list_ex_iff)

section \<open>Properties\<close>

text \<open>Tokenizing never throws and returns the non-empty runs between separators, in order,
  whatever the reused output vector held before.\<close>

lemma TokenizeInto_split:
  "TokenizeInto text out = Some (filter (\<lambda>t. t \<noteq> []) (split_at_seps text))"
  by (simp add: TokenizeInto_tokens tokens_def)

text \<open>The token cache is transparent: applied to a name or to its lower-case form, the spans
  computed once when the entry was added give exactly the tokens that tokenizing that text
  again would give.\<close>

lemma cached_tokens_match_live:
  assumes "length name < 2 ^ 32" "subject \<in> {name, CaseFoldAscii name}"
  shows "ApplyTokenSpans subject (TokenizeToSpans (CaseFoldAscii name)) = Tokenize subject"
proof -
  have "TokenizeToSpans (CaseFoldAscii name) = TokenizeToSpans subject" "length subject < 2 ^ 32"
    using assms by auto
  then show ?thesis
    by (simp add: ApplyTokenSpans_tokens Tokenize_tokens)
qed

lemma cached_tokens_match_live_witness:
  "ApplyTokenSpans ''My Cat.TXT'' (TokenizeToSpans (CaseFoldAscii ''My Cat.TXT'')) =
   Some [''My'', ''Cat'', ''TXT'']"
  using cached_tokens_match_live [of "''My Cat.TXT''" "''My Cat.TXT''"]
  by (simp add: Tokenize_tokens tokens_def IsSeparator_def)

end
