(* ===== verification/Search_Engine.thy ===== *)
theory Search_Engine
  imports Token_Matcher
begin

text \<open>
  The search engine (\<open>search/SearchEngine.cpp\<close>, \<open>search/ISearchEngine.h\<close>). RE2 and utf8proc
  are third-party libraries: what the code calls of them is the record \<open>SearchLib\<close>, a
  parameter of the definitions. The cancel token is read once per entry: \<open>cancel i\<close> is its
  value at entry \<open>i\<close>. \<open>None\<close> is a fault: a bad index or a read outside a text.
\<close>

section \<open>Options, results, libraries\<close>

record SearchOptions =
  so_useRegex :: bool
  so_caseSensitive :: bool
  so_wholeWord :: bool
  so_matchPath :: bool
  so_ignoreDiacritics :: bool

record SearchResult =
  sr_entryIndex :: nat
  sr_matchStart :: nat
  sr_matchLen :: nat

definition default_options :: SearchOptions where
  "default_options = \<lparr>so_useRegex = False, so_caseSensitive = False, so_wholeWord = False,
     so_matchPath = False, so_ignoreDiacritics = False\<rparr>"

definition kMaxSearchResults :: nat where "kMaxSearchResults = 10000"

text \<open>
  \<open>sl_compile pattern caseSensitive\<close> is \<open>None\<close> when \<open>RE2::ok\<close> is false; \<open>sl_partial\<close> and \<open>sl_span\<close>
  are the two \<open>PartialMatch\<close> overloads; \<open>sl_utf8proc text caseSensitive\<close> is \<open>None\<close> on failure.
\<close>

record 're SearchLib =
  sl_compile :: "string \<Rightarrow> bool \<Rightarrow> 're option"
  sl_partial :: "'re \<Rightarrow> string \<Rightarrow> bool"
  sl_span :: "'re \<Rightarrow> string \<Rightarrow> (nat \<times> nat) option"
  sl_utf8proc :: "string \<Rightarrow> bool \<Rightarrow> string option"

section \<open>Texts\<close>

definition SE_IsSeparator :: "char \<Rightarrow> bool" where
  "SE_IsSeparator c \<longleftrightarrow> c = CHR '' '' \<or> c = CHR ''_'' \<or> c = CHR ''-'' \<or> c = CHR ''.''"

definition ContainsSeparator :: "string \<Rightarrow> bool" where
  "ContainsSeparator s \<longleftrightarrow> find_idx (\<lambda>c. c \<in> set '' _-.'') s \<noteq> None"

definition FoldDiacritics :: "'re SearchLib \<Rightarrow> string \<Rightarrow> bool \<Rightarrow> string" where
  "FoldDiacritics lib s caseSensitive =
     (case sl_utf8proc lib s caseSensitive of
        None \<Rightarrow> if caseSensitive then s else CaseFoldAscii s
      | Some result \<Rightarrow> result)"

definition GetSearchTarget :: "'re SearchLib \<Rightarrow> EntryView \<Rightarrow> SearchOptions \<Rightarrow> string" where
  "GetSearchTarget lib entry options =
     (if so_matchPath options then
        (if so_ignoreDiacritics options
         then FoldDiacritics lib (ev_path entry) (so_caseSensitive options)
         else if so_caseSensitive options then ev_path entry
         else CaseFoldAscii (ev_path entry))
      else if so_ignoreDiacritics options
      then FoldDiacritics lib (ev_name entry) (so_caseSensitive options)
      else if so_caseSensitive options then ev_name entry
      else ev_nameLower entry)"

definition GetQueryText :: "'re SearchLib \<Rightarrow> string \<Rightarrow> SearchOptions \<Rightarrow> string" where
  "GetQueryText lib query options =
     (if so_ignoreDiacritics options then FoldDiacritics lib query (so_caseSensitive options)
      else if so_caseSensitive options then query
      else CaseFoldAscii query)"

definition MatchesWholeWord :: "string \<Rightarrow> nat \<Rightarrow> nat \<Rightarrow> bool option" where
  "MatchesWholeWord subject matchStart matchLen = do {
     leftOk \<leftarrow> (if matchStart = 0 then Some True
                else map_option SE_IsSeparator (nth_opt subject (matchStart - 1)));
     let matchEnd = matchStart + matchLen;
     rightOk \<leftarrow> (if matchEnd = length subject then Some True
                 else map_option SE_IsSeparator (nth_opt subject matchEnd));
     Some (leftOk \<and> rightOk) }"

section \<open>The loop over the entries\<close>

definition RegexPattern :: "string \<Rightarrow> SearchOptions \<Rightarrow> string" where
  "RegexPattern query options =
     (let inner = (if so_wholeWord options
                   then [CHR 0x5C] @ ''b(?:'' @ query @ '')'' @ [CHR 0x5C] @ ''b'' else query)
      in ''('' @ inner @ '')'')"

text \<open>The regex branch: \<open>None\<close> is \<open>continue\<close>.\<close>

definition SearchRegex ::
  "'re SearchLib \<Rightarrow> 're \<Rightarrow> SearchOptions \<Rightarrow> nat \<Rightarrow> EntryView \<Rightarrow> SearchResult option" where
  "SearchRegex lib regex options i entry =
     (let subject = (if so_matchPath options then ev_path entry else ev_name entry)
      in if \<not> sl_partial lib regex subject then None
         else map_option (\<lambda>(start, len).
                \<lparr>sr_entryIndex = i, sr_matchStart = start, sr_matchLen = len\<rparr>)
                (sl_span lib regex subject))"

text \<open>The text branch: the results it appends. \<open>nameTokensBuf\<close> is the reused token vector.\<close>

definition SearchText ::
  "'re SearchLib \<Rightarrow> Tier \<Rightarrow> SearchOptions \<Rightarrow> bool \<Rightarrow> string \<Rightarrow> string list \<Rightarrow> nat \<Rightarrow> EntryView \<Rightarrow>
   string list \<Rightarrow> (SearchResult list \<times> string list) option" where
  "SearchText lib tier options tokenMode queryText queryTokens i entry nameTokensBuf =
     (let subject = GetSearchTarget lib entry options
      in if tokenMode then do {
           nameTokens \<leftarrow> (if \<not> so_matchPath options \<and> \<not> so_ignoreDiacritics options
                         then ApplyTokenSpans subject (ev_nameTokenSpans entry)
                         else TokenizeInto subject nameTokensBuf);
           Some (if MatchesAllTokens queryTokens nameTokens then
                   let result = \<lparr>sr_entryIndex = i, sr_matchStart = 0, sr_matchLen = 0\<rparr>
                   in [case queryTokens of
                         [] \<Rightarrow> result
                       | q # _ \<Rightarrow>
                           (case FindSubstring tier subject q of
                              None \<Rightarrow> result
                            | Some pos \<Rightarrow> result\<lparr>sr_matchStart := pos, sr_matchLen := length q\<rparr>)]
                 else [], nameTokens) }
         else
           (case FindSubstring tier subject queryText of
              None \<Rightarrow> Some ([], nameTokensBuf)
            | Some pos \<Rightarrow> do {
                ok \<leftarrow> (if so_wholeWord options
                       then MatchesWholeWord subject pos (length queryText) else Some True);
                Some (if ok then [\<lparr>sr_entryIndex = i, sr_matchStart = pos,
                                   sr_matchLen = length queryText\<rparr>] else [],
                      nameTokensBuf) }))"

fun Search_loop ::
  "'re SearchLib \<Rightarrow> Tier \<Rightarrow> (nat \<Rightarrow> bool) \<Rightarrow> IndexPool \<Rightarrow> 're option \<Rightarrow> SearchOptions \<Rightarrow> bool \<Rightarrow> string \<Rightarrow>
   string list \<Rightarrow> nat list \<Rightarrow> SearchResult list \<Rightarrow> string list \<Rightarrow> SearchResult list option" where
  "Search_loop lib tier cancel pool regex options tokenMode queryText queryTokens [] results buf =
     Some results"
| "Search_loop lib tier cancel pool regex options tokenMode queryText queryTokens (i # is) results buf =
     (if cancel i then Some results
      else do {
        deleted \<leftarrow> IsDeleted pool i;
        if deleted then
          Search_loop lib tier cancel pool regex options tokenMode queryText queryTokens is results buf
        else do {
          entry \<leftarrow> GetEntry pool i;
          (case regex of
             Some re \<Rightarrow>
               (case SearchRegex lib re options i entry of
                  None \<Rightarrow> Search_loop lib tier cancel pool regex options tokenMode queryText
                            queryTokens is results buf
                | Some result \<Rightarrow>
                    (let results = results @ [result]
                     in if length results \<ge> kMaxSearchResults then Some results
                        else Search_loop lib tier cancel pool regex options tokenMode queryText
                               queryTokens is results buf))
           | None \<Rightarrow> do {
               (new, buf) \<leftarrow> SearchText lib tier options tokenMode queryText queryTokens i entry buf;
               let results = results @ new;
               if length results \<ge> kMaxSearchResults then Some results
               else Search_loop lib tier cancel pool regex options tokenMode queryText queryTokens
                      is results buf }) } })"

definition Search ::
  "'re SearchLib \<Rightarrow> Tier \<Rightarrow> (nat \<Rightarrow> bool) \<Rightarrow> IndexPool \<Rightarrow> string \<Rightarrow> SearchOptions \<Rightarrow>
   SearchResult list option" where
  "Search lib tier cancel pool query options =
     (if so_useRegex options then
        (case sl_compile lib (RegexPattern query options) (so_caseSensitive options) of
           None \<Rightarrow> Some []
         | Some re \<Rightarrow>
             Search_loop lib tier cancel pool (Some re) options False [] [] [0..<Count pool] [] [])
      else do {
        let tokenMode = ContainsSeparator query;
        let queryText = GetQueryText lib query options;
        queryTokens \<leftarrow> (if tokenMode then Tokenize queryText else Some []);
        Search_loop lib tier cancel pool None options tokenMode queryText queryTokens
          [0..<Count pool] [] [] })"

section \<open>What one entry contributes\<close>

lemma SE_IsSeparator [simp]: "SE_IsSeparator = IsSeparator"
  by (simp add: fun_eq_iff SE_IsSeparator_def IsSeparator_def)

lemma ContainsSeparator_iff: "ContainsSeparator s \<longleftrightarrow> (\<exists>c \<in> set s. IsSeparator c)"
  by (auto simp: ContainsSeparator_def find_idx_None_iff IsSeparator_def)

definition target_of :: "'re SearchLib \<Rightarrow> SearchOptions \<Rightarrow> FileEntry \<Rightarrow> string" where
  "target_of lib options e = GetSearchTarget lib (view_of e) options"

definition word_bounded :: "string \<Rightarrow> nat \<Rightarrow> nat \<Rightarrow> bool" where
  "word_bounded s start len \<longleftrightarrow>
     (start = 0 \<or> IsSeparator (s ! (start - 1))) \<and>
     (start + len = length s \<or> IsSeparator (s ! (start + len)))"

lemma MatchesWholeWord_bounded:
  "start + len \<le> length s \<Longrightarrow> MatchesWholeWord s start len = Some (word_bounded s start len)"
  by (auto simp: MatchesWholeWord_def word_bounded_def Let_def le_less)

definition mk_result :: "nat \<Rightarrow> nat \<Rightarrow> nat \<Rightarrow> SearchResult" where
  "mk_result i start len = \<lparr>sr_entryIndex = i, sr_matchStart = start, sr_matchLen = len\<rparr>"

definition text_hit :: "'re SearchLib \<Rightarrow> SearchOptions \<Rightarrow> string \<Rightarrow> nat \<Rightarrow> FileEntry \<Rightarrow> SearchResult list"
where
  "text_hit lib options queryText i e =
     (let subject = target_of lib options e
      in case str_find subject queryText of
           None \<Rightarrow> []
         | Some pos \<Rightarrow>
             if so_wholeWord options \<longrightarrow> word_bounded subject pos (length queryText)
             then [mk_result i pos (length queryText)] else [])"

definition token_hit :: "'re SearchLib \<Rightarrow> SearchOptions \<Rightarrow> string \<Rightarrow> nat \<Rightarrow> FileEntry \<Rightarrow> SearchResult list"
where
  "token_hit lib options queryText i e =
     (let subject = target_of lib options e; qs = tokens queryText
      in if \<forall>q \<in> set qs. \<exists>n \<in> set (tokens subject). sublist q n
         then [case qs of
                 [] \<Rightarrow> mk_result i 0 0
               | q # _ \<Rightarrow> (case str_find subject q of
                             None \<Rightarrow> mk_result i 0 0 | Some pos \<Rightarrow> mk_result i pos (length q))]
         else [])"

definition hits :: "'re SearchLib \<Rightarrow> SearchOptions \<Rightarrow> string \<Rightarrow> nat \<Rightarrow> FileEntry \<Rightarrow> SearchResult list" where
  "hits lib options query i e =
     (if so_useRegex options then
        (case sl_compile lib (RegexPattern query options) (so_caseSensitive options) of
           None \<Rightarrow> []
         | Some re \<Rightarrow> (case SearchRegex lib re options i (view_of e) of None \<Rightarrow> [] | Some r \<Rightarrow> [r]))
      else if ContainsSeparator query then token_hit lib options (GetQueryText lib query options) i e
      else text_hit lib options (GetQueryText lib query options) i e)"

lemma hits_single: "length (hits lib options query i e) \<le> 1"
  by (simp add: hits_def token_hit_def text_hit_def Let_def split: option.split)

text \<open>The cached spans of an entry fit every target they are applied to.\<close>

lemma cached_target_tokens:
  assumes "length (fe_name e) < 2 ^ 32" "\<not> so_matchPath options" "\<not> so_ignoreDiacritics options"
  shows "ApplyTokenSpans (target_of lib options e) (ev_nameTokenSpans (view_of e)) =
         Some (tokens (target_of lib options e))"
proof -
  let ?s = "target_of lib options e"
  have s: "?s = fe_name e \<or> ?s = CaseFoldAscii (fe_name e)"
    using assms(2,3) by (simp add: target_of_def GetSearchTarget_def view_of_def)
  then have "ev_nameTokenSpans (view_of e) = TokenizeToSpans ?s" "length ?s < 2 ^ 32"
    using assms(1) by (auto simp: view_of_def)
  then show ?thesis by (simp add: ApplyTokenSpans_tokens)
qed

lemma SearchText_token:
  assumes "length (fe_name e) < 2 ^ 32"
  shows "\<exists>buf'. SearchText lib tier options True qt (tokens qt) i (view_of e) buf =
           Some (token_hit lib options qt i e, buf')"
proof -
  let ?s = "target_of lib options e"
  have "(if \<not> so_matchPath options \<and> \<not> so_ignoreDiacritics options
         then ApplyTokenSpans ?s (ev_nameTokenSpans (view_of e))
         else TokenizeInto ?s buf) = Some (tokens ?s)"
    using cached_target_tokens [OF assms, of options lib] by (simp add: TokenizeInto_tokens)
  then show ?thesis
    by (auto simp: SearchText_def token_hit_def Let_def target_of_def [symmetric] mk_result_def
        MatchesAllTokens_iff FindSubstring_str_find split: list.split option.split)
qed

lemma SearchText_plain:
  "SearchText lib tier options False qt [] i (view_of e) buf =
     Some (text_hit lib options qt i e, buf)"
proof (cases "str_find (target_of lib options e) qt")
  case None
  then show ?thesis
    by (simp add: SearchText_def text_hit_def Let_def target_of_def FindSubstring_str_find)
next
  case (Some pos)
  with std_find.find_sub_bounds [OF Some] show ?thesis
    by (simp add: SearchText_def text_hit_def Let_def target_of_def FindSubstring_str_find
        MatchesWholeWord_bounded mk_result_def)
qed

section \<open>The whole search\<close>

definition contrib :: "'re SearchLib \<Rightarrow> SearchOptions \<Rightarrow> string \<Rightarrow> IndexPool \<Rightarrow> nat \<Rightarrow> SearchResult list"
where
  "contrib lib options query p i =
     (if snd (pool_abs p ! i) then [] else hits lib options query i (fst (pool_abs p ! i)))"

definition all_hits ::
  "'re SearchLib \<Rightarrow> SearchOptions \<Rightarrow> string \<Rightarrow> IndexPool \<Rightarrow> nat list \<Rightarrow> SearchResult list" where
  "all_hits lib options query p ixs = concat (map (contrib lib options query p) ixs)"

lemma pool_names_fit:
  assumes "pool_safe p" "i < Count p"
  shows "length (fe_name (fst (pool_abs p ! i))) < 2 ^ 32"
proof -
  have "meta_in_pool (ip_pathPool p) (ip_meta p ! i)"
    using assms by (simp add: pool_safe_def entry_safe_def Count_def)
  from length_meta_name [OF this] assms(2) show ?thesis
    by (simp add: pool_abs_nth)
qed

lemma take_cap_full: "cap \<le> length xs \<Longrightarrow> take cap (xs @ ys) = take cap xs"
  by simp

lemma cap_step:
  "length xs < cap \<Longrightarrow> length ys \<le> 1 \<Longrightarrow> cap \<le> length (xs @ ys) \<Longrightarrow> take cap (xs @ ys @ zs) = xs @ ys"
  by (auto simp: le_Suc_eq)

lemma Search_loop_text:
  assumes "pool_inv p" "\<not> so_useRegex options"
    and "qts = (if ContainsSeparator query then tokens (GetQueryText lib query options) else [])"
    and "\<forall>i \<in> set ixs. i < Count p" "length results < kMaxSearchResults"
  shows "Search_loop lib tier cancel p None options (ContainsSeparator query)
           (GetQueryText lib query options) qts ixs results buf =
         Some (take kMaxSearchResults
           (results @ all_hits lib options query p (takeWhile (\<lambda>i. \<not> cancel i) ixs)))"
  using assms(4,5)
proof (induction ixs arbitrary: results buf)
  case Nil
  then show ?case by (simp add: all_hits_def)
next
  case (Cons i ixs)
  let ?e = "fst (pool_abs p ! i)"
  have i: "i < Count p" using Cons.prems by simp
  show ?case
  proof (cases "cancel i \<or> snd (pool_abs p ! i)")
    case True
    with Cons i show ?thesis by (auto simp: all_hits_def contrib_def IsDeleted_abs)
  next
    case False
    let ?h = "hits lib options query i ?e"
    have "length (fe_name ?e) < 2 ^ 32"
      using pool_names_fit [OF pool_inv_safe [OF assms(1)] i] .
    then have "\<exists>buf'. SearchText lib tier options (ContainsSeparator query)
        (GetQueryText lib query options) qts i (view_of ?e) buf = Some (?h, buf')"
      using SearchText_token [of ?e lib tier options "GetQueryText lib query options" i buf]
        SearchText_plain [of lib tier options "GetQueryText lib query options" i ?e buf] assms(2,3)
      by (cases "ContainsSeparator query") (auto simp: hits_def)
    then obtain buf' where step: "SearchText lib tier options (ContainsSeparator query)
        (GetQueryText lib query options) qts i (view_of ?e) buf = Some (?h, buf')" ..
    show ?thesis
    proof (cases "kMaxSearchResults \<le> length (results @ ?h)")
      case True
      with False step i assms(1) Cons.prems(2) hits_single [of lib options query i ?e]
        cap_step [of results kMaxSearchResults ?h]
      show ?thesis
        by (simp add: IsDeleted_abs GetEntry_inv Let_def all_hits_def contrib_def)
    next
      case less: False
      then have "length (results @ ?h) < kMaxSearchResults" by simp
      from Cons.IH [OF _ this, of buf'] Cons.prems False step i assms(1) less show ?thesis
        by (simp add: IsDeleted_abs GetEntry_inv Let_def all_hits_def contrib_def)
    qed
  qed
qed

lemma Search_loop_regex:
  assumes "pool_inv p" "so_useRegex options"
    and "sl_compile lib (RegexPattern query options) (so_caseSensitive options) = Some re"
    and "\<forall>i \<in> set ixs. i < Count p" "length results < kMaxSearchResults"
  shows "Search_loop lib tier cancel p (Some re) options tm qt qts ixs results buf =
         Some (take kMaxSearchResults
           (results @ all_hits lib options query p (takeWhile (\<lambda>i. \<not> cancel i) ixs)))"
  using assms(4,5)
proof (induction ixs arbitrary: results)
  case Nil
  then show ?case by (simp add: all_hits_def)
next
  case (Cons i ixs)
  let ?e = "fst (pool_abs p ! i)"
  have i: "i < Count p" using Cons.prems by simp
  show ?case
  proof (cases "cancel i \<or> snd (pool_abs p ! i)")
    case True
    with Cons i show ?thesis by (auto simp: all_hits_def contrib_def IsDeleted_abs)
  next
    case False
    let ?h = "hits lib options query i ?e"
    have h: "?h = (case SearchRegex lib re options i (view_of ?e) of None \<Rightarrow> [] | Some r \<Rightarrow> [r])"
      using assms(2,3) by (simp add: hits_def)
    show ?thesis
    proof (cases "SearchRegex lib re options i (view_of ?e)")
      case None
      with False h Cons i assms(1) show ?thesis
        by (simp add: IsDeleted_abs GetEntry_inv all_hits_def contrib_def)
    next
      case (Some r)
      with h have hr: "?h = [r]" by simp
      show ?thesis
      proof (cases "kMaxSearchResults \<le> length (results @ [r])")
        case True
        with False Some hr i assms(1) Cons.prems(2) cap_step [of results kMaxSearchResults "[r]"]
        show ?thesis
          by (simp add: IsDeleted_abs GetEntry_inv Let_def all_hits_def contrib_def)
      next
        case less: False
        then have "length (results @ [r]) < kMaxSearchResults" by simp
        from Cons.IH [OF _ this] Cons.prems False Some hr i assms(1) less show ?thesis
          by (simp add: IsDeleted_abs GetEntry_inv Let_def all_hits_def contrib_def)
      qed
    qed
  qed
qed

lemma Search_all_hits:
  assumes "pool_inv p"
  shows "Search lib tier cancel p query options =
         Some (take kMaxSearchResults
           (all_hits lib options query p (takeWhile (\<lambda>i. \<not> cancel i) [0..<Count p])))"
proof (cases "so_useRegex options")
  case True
  show ?thesis
  proof (cases "sl_compile lib (RegexPattern query options) (so_caseSensitive options)")
    case None
    with True have "contrib lib options query p = (\<lambda>i. [])"
      by (simp add: fun_eq_iff contrib_def hits_def)
    then have "all_hits lib options query p ixs = []" for ixs
      by (induction ixs) (simp_all add: all_hits_def)
    with True None show ?thesis by (simp add: Search_def)
  next
    case (Some re)
    with True Search_loop_regex [OF assms True Some, where ixs = "[0..<Count p]" and results = "[]"] show ?thesis
      by (simp add: Search_def kMaxSearchResults_def)
  qed
next
  case False
  then show ?thesis
    using Search_loop_text [OF assms False refl, where ixs = "[0..<Count p]" and results = "[]"
        and query = query and lib = lib]
    by (cases "ContainsSeparator query")
      (simp_all add: Search_def Let_def Tokenize_tokens kMaxSearchResults_def)
qed

section \<open>Properties\<close>

text \<open>C8: A search returns the hits of the live entries in index order, each entry judged on its
  own, cut at the cap of 10000 and at the first entry where cancellation was seen: no entry
  is skipped or reported twice, whatever the mode, and the vector tier, the token cache and
  the reused token buffer do not change the result. The search never faults.\<close>

theorem Search_hits:
  assumes "pool_inv p"
  shows "Search lib tier cancel p query options =
         Some (take kMaxSearchResults
           (concat (map (contrib lib options query p)
              (takeWhile (\<lambda>i. \<not> cancel i) [0..<Count p]))))"
  using Search_all_hits [OF assms] by (simp add: all_hits_def)

lemma sample_folds:
  "CaseFoldAscii ''cAt'' = ''cat''" "CaseFoldAscii ''Cat.txt'' = ''cat.txt''"
  "CaseFoldAscii ''a b'' = ''a b''" "CaseFoldAscii ''B a'' = ''b a''"
  "CaseFoldAscii ''b a'' = ''b a''"
  by code_simp+

definition sample_cats :: IndexPool where
  "sample_cats =
     AddEntry (AddEntry empty_pool (sample_file ''/d/'' ''a b'')) (sample_file ''/d/'' ''Cat.txt'')"

lemma sample_cats_inv: "pool_inv sample_cats"
  by (simp add: sample_cats_def AddEntry_inv sample_fits)

lemma sample_cats_abs:
  "pool_abs sample_cats =
     [(sample_file ''/d/'' ''a b'', False), (sample_file ''/d/'' ''Cat.txt'', False)]"
  by (simp add: sample_cats_def AddEntry_abs AddEntry_inv sample_fits)

lemma sample_cats_Count: "Count sample_cats = 2"
  by (simp add: sample_cats_def)

text \<open>Libraries that compile no pattern and fold nothing: enough where neither is asked for.\<close>

definition no_lib :: "unit SearchLib" where
  "no_lib = \<lparr>sl_compile = (\<lambda>p cs. None), sl_partial = (\<lambda>re s. False), sl_span = (\<lambda>re s. None),
     sl_utf8proc = (\<lambda>s cs. None)\<rparr>"

theorem Search_hits_witness:
  "Search no_lib kScalar (\<lambda>i. i = 1) sample_cats ''b a'' default_options =
     Some [mk_result 0 2 1]"
  using Search_hits [OF sample_cats_inv, of no_lib kScalar "\<lambda>i. i = 1" "''b a''" default_options]
  by (simp add: sample_cats_Count sample_cats_abs upt_rec contrib_def hits_def default_options_def
      ContainsSeparator_iff IsSeparator_def token_hit_def tokens_def GetQueryText_def
      CaseFoldAscii_def fold_char_def target_of_def GetSearchTarget_def view_of_def
      sample_file_def Let_def kMaxSearchResults_def conj_disj_distribR ex_disj_distrib
      numeral_2_eq_2)

lemma take_map_hits:
  assumes "\<forall>i \<in> set ixs. map sr_entryIndex (f i) = (if P i then [i] else [])"
  shows "map sr_entryIndex (take n (concat (map f ixs))) = take n (filter P ixs)"
proof -
  have "map sr_entryIndex (concat (map f ixs)) = filter P ixs"
    using assms by (induction ixs) auto
  then show ?thesis by (simp add: take_map [symmetric])
qed

definition live_at :: "IndexPool \<Rightarrow> nat \<Rightarrow> (FileEntry \<Rightarrow> bool) \<Rightarrow> bool" where
  "live_at p i P \<longleftrightarrow> \<not> snd (pool_abs p ! i) \<and> P (fst (pool_abs p ! i))"

lemma takeWhile_True [simp]: "takeWhile (\<lambda>i. True) xs = xs"
  by (induction xs) simp_all

text \<open>What a query asks of an entry under the default options: its tokens, or a part of the name.\<close>

definition name_matches :: "string \<Rightarrow> FileEntry \<Rightarrow> bool" where
  "name_matches query e \<longleftrightarrow>
     (if ContainsSeparator query
      then \<forall>q \<in> set (tokens (CaseFoldAscii query)). \<exists>n \<in> set (tokens (CaseFoldAscii (fe_name e))). sublist q n
      else sublist (CaseFoldAscii query) (CaseFoldAscii (fe_name e)))"

lemma name_matches_cases:
  "\<not> ContainsSeparator query \<Longrightarrow>
     name_matches query = (\<lambda>e. sublist (CaseFoldAscii query) (CaseFoldAscii (fe_name e)))"
  "ContainsSeparator query \<Longrightarrow>
     name_matches query = (\<lambda>e. \<forall>q \<in> set (tokens (CaseFoldAscii query)).
       \<exists>n \<in> set (tokens (CaseFoldAscii (fe_name e))). sublist q n)"
  by (simp_all add: name_matches_def fun_eq_iff)

lemma contrib_default:
  "map sr_entryIndex (contrib lib default_options query p i) =
     (if live_at p i (name_matches query) then [i] else [])"
  using std_find.find_sub_sublist
    [of "CaseFoldAscii (fe_name (fst (pool_abs p ! i)))" "CaseFoldAscii query"]
  by (auto simp: contrib_def hits_def text_hit_def token_hit_def Let_def live_at_def mk_result_def
      target_of_def GetSearchTarget_def view_of_def GetQueryText_def default_options_def name_matches_def
      split: option.split list.split)

lemma Search_indices:
  assumes "pool_inv p"
  shows "\<exists>rs. Search lib tier (\<lambda>i. False) p query default_options = Some rs \<and>
    map sr_entryIndex rs =
      take kMaxSearchResults (filter (\<lambda>i. live_at p i (name_matches query)) [0..<Count p])"
proof -
  have "map sr_entryIndex (take kMaxSearchResults
      (concat (map (contrib lib default_options query p) [0..<Count p]))) =
    take kMaxSearchResults (filter (\<lambda>i. live_at p i (name_matches query)) [0..<Count p])"
    by (intro take_map_hits) (simp add: contrib_default)
  with Search_all_hits [OF assms, of lib tier "\<lambda>i. False" query default_options] show ?thesis
    by (simp add: all_hits_def)
qed

text \<open>C9: Substring search is sound and complete: a query without separators, under the default
  options, returns exactly the live entries whose case-folded name contains the case-folded
  query, each once and in index order, up to the cap.\<close>

theorem Search_substring:
  assumes "pool_inv p" "\<not> ContainsSeparator query"
  shows "\<exists>rs. Search lib tier (\<lambda>i. False) p query default_options = Some rs \<and>
    map sr_entryIndex rs =
      take kMaxSearchResults
        (filter (\<lambda>i. live_at p i (\<lambda>e. sublist (CaseFoldAscii query) (CaseFoldAscii (fe_name e))))
          [0..<Count p])"
  using Search_indices [OF assms(1), of lib tier query] by (simp only: name_matches_cases(1) [OF assms(2)])

theorem Search_substring_witness:
  "\<exists>rs. Search no_lib kScalar (\<lambda>i. False) sample_cats ''cAt'' default_options = Some rs \<and>
     map sr_entryIndex rs = [1]"
proof -
  have "\<not> ContainsSeparator ''cAt''"
    by (simp add: ContainsSeparator_iff IsSeparator_def)
  from Search_substring [OF sample_cats_inv this, of no_lib kScalar] show ?thesis
    by (simp add: sample_cats_Count sample_cats_abs live_at_def upt_rec sample_file_def
        sample_folds sublist_Cons_right kMaxSearchResults_def conj_disj_distribR ex_disj_distrib)
qed



lemma hits_bounds:
  assumes "\<not> so_useRegex options" "\<not> so_ignoreDiacritics options" "r \<in> set (hits lib options query i e)"
  shows "sr_entryIndex r = i \<and> sr_matchStart r + sr_matchLen r \<le>
    length (if so_matchPath options then fe_path e else fe_name e)"
proof -
  have len: "length (target_of lib options e) =
      length (if so_matchPath options then fe_path e else fe_name e)"
    using assms(2) by (simp add: target_of_def GetSearchTarget_def view_of_def)
  have "sr_entryIndex r = i \<and> sr_matchStart r + sr_matchLen r \<le> length (target_of lib options e)"
    using assms(1,3) std_find.find_sub_bounds
    by (auto simp: hits_def token_hit_def text_hit_def Let_def mk_result_def
        split: if_splits option.splits list.splits)
  with len show ?thesis by simp
qed



text \<open>
  The whole-word option looks at the first occurrence only: here the query is a whole word
  of the name, at position 7, and the search does not return the entry.
\<close>

lemma whole_word_first_occurrence_only:
  "Search lib tier (\<lambda>i. False) (AddEntry empty_pool (sample_file ''/'' ''concat+bee-cat''))
     ''cat'' (default_options\<lparr>so_wholeWord := True\<rparr>) = Some [] \<and>
   occurs_at ''cat'' ''concat+bee-cat'' 11 \<and> word_bounded ''concat+bee-cat'' 11 3"
proof -
  let ?e = "sample_file ''/'' ''concat+bee-cat''"
  have fits: "entry_fits empty_pool ?e"
    by (simp add: entry_fits_def sample_file_def empty_pool_def TokenizeToSpans_def
        IsSeparator_def suffix_def)
  have fold: "CaseFoldAscii ''concat+bee-cat'' = ''concat+bee-cat''" "CaseFoldAscii ''cat'' = ''cat''"
    by code_simp+
  have "pool_inv (AddEntry empty_pool ?e)" "pool_abs (AddEntry empty_pool ?e) = [(?e, False)]"
    using fits by (simp_all add: AddEntry_inv AddEntry_abs)
  then have "Search lib tier (\<lambda>i. False) (AddEntry empty_pool ?e) ''cat''
      (default_options\<lparr>so_wholeWord := True\<rparr>) = Some []"
    by (simp add: Search_all_hits all_hits_def contrib_def hits_def default_options_def
        ContainsSeparator_iff IsSeparator_def text_hit_def GetQueryText_def fold target_of_def
        GetSearchTarget_def view_of_def word_bounded_def Let_def sample_file_def)
  moreover have "occurs_at ''cat'' ''concat+bee-cat'' 11" "word_bounded ''concat+bee-cat'' 11 3"
    by (simp_all add: occurs_at_def word_bounded_def IsSeparator_def)
  ultimately show ?thesis by blast
qed

end
