(* ===== verification/Text_Codec.thy ===== *)
theory Text_Codec
  imports Prelude
begin

text \<open>
  The text conventions the configuration and status files share: decimal numbers as
  \<open>std::to_string\<close>, \<open>std::from_chars\<close> and \<open>std::stoi\<close> define them, white space, lines, and the
  contract of an escaping that keeps a value on one line (locale \<open>line_codec\<close>).
\<close>

section \<open>Decimal numbers\<close>

definition digit :: "nat \<Rightarrow> char" where
  "digit d = char_of (48 + d)"

definition is_digit :: "char \<Rightarrow> bool" where
  "is_digit c \<longleftrightarrow> 48 \<le> (of_char c :: nat) \<and> (of_char c :: nat) \<le> 57"

definition digit_value :: "char \<Rightarrow> nat" where
  "digit_value c = of_char c - 48"

fun to_string :: "nat \<Rightarrow> string" where
  "to_string n = (if n < 10 then [digit n] else to_string (n div 10) @ [digit (n mod 10)])"

declare to_string.simps [simp del]

definition digits_value :: "string \<Rightarrow> nat" where
  "digits_value s = foldl (\<lambda>a c. 10 * a + digit_value c) 0 s"

text \<open>\<open>from_chars\<close> into a 64-bit value that must consume the whole text.\<close>

definition from_chars_u64 :: "string \<Rightarrow> u64 option" where
  "from_chars_u64 s =
     (if s \<noteq> [] \<and> list_all is_digit s \<and> digits_value s < 2 ^ 64
      then Some (word_of_nat (digits_value s)) else None)"

lemma digit_chars:
  "digit 0 = CHR ''0''" "digit 1 = CHR ''1''" "digit (Suc 0) = CHR ''1''" "digit 2 = CHR ''2''"
  "digit 3 = CHR ''3''" "digit 4 = CHR ''4''" "digit 5 = CHR ''5''" "digit 6 = CHR ''6''"
  "digit 7 = CHR ''7''" "digit 8 = CHR ''8''" "digit 9 = CHR ''9''"
  by code_simp+

lemma of_char_digit [simp]: "d < 10 \<Longrightarrow> of_char (digit d) = 48 + d"
  by (simp add: digit_def of_char_of take_bit_eq_mod)

lemma digit_is_digit [simp]: "d < 10 \<Longrightarrow> is_digit (digit d)" "d < 10 \<Longrightarrow> digit_value (digit d) = d"
  by (simp_all add: is_digit_def digit_value_def)

lemma to_string_digits [simp]: "list_all is_digit (to_string n)"
  by (induction n rule: to_string.induct) (subst to_string.simps, simp)

lemma to_string_nonempty [simp]: "to_string n \<noteq> []"
  by (subst to_string.simps) simp

lemma digits_value_snoc [simp]: "digits_value (s @ [c]) = 10 * digits_value s + digit_value c"
  by (simp add: digits_value_def)

lemma digits_value_to_string [simp]: "digits_value (to_string n) = n"
proof (induction n rule: to_string.induct)
  case (1 n)
  show ?case
  proof (cases "n < 10")
    case True
    then show ?thesis by (simp add: to_string.simps [of n] digits_value_def)
  next
    case False
    with 1 show ?thesis by (simp add: to_string.simps [of n])
  qed
qed

lemma from_chars_to_string [simp]: "from_chars_u64 (to_string (unat w)) = Some w"
  using unsigned_less [of w, where 'a = nat] by (simp add: from_chars_u64_def)

lemma to_string_inj: "to_string m = to_string n \<Longrightarrow> m = n"
  by (metis digits_value_to_string)

lemma not_digit_in_to_string: "\<not> is_digit c \<Longrightarrow> c \<notin> set (to_string n)"
  using to_string_digits [of n] by (auto simp: list_all_iff)

text \<open>\<open>to_string\<close> of a signed value, and \<open>stoi\<close>: leading space, sign, digits; the rest is ignored.\<close>

definition isspace :: "char \<Rightarrow> bool" where
  "isspace c \<longleftrightarrow> (of_char c :: nat) = 32 \<or> (9 \<le> (of_char c :: nat) \<and> (of_char c :: nat) \<le> 13)"

definition int_to_string :: "int \<Rightarrow> string" where
  "int_to_string i = (if i < 0 then CHR ''-'' # to_string (nat (- i)) else to_string (nat i))"

definition stoi :: "string \<Rightarrow> int option" where
  "stoi s =
     (let t = dropWhile isspace s;
          neg = (t \<noteq> [] \<and> hd t = CHR ''-'');
          u = (if t \<noteq> [] \<and> (hd t = CHR ''-'' \<or> hd t = CHR ''+'') then tl t else t);
          ds = takeWhile is_digit u;
          v = (if neg then - int (digits_value ds) else int (digits_value ds))
      in if ds = [] \<or> v < - (2 ^ 31) \<or> v \<ge> 2 ^ 31 then None else Some v)"

lemma is_digit_not:
  "is_digit c \<Longrightarrow> \<not> isspace c" "\<not> is_digit (CHR ''-'')" "\<not> is_digit (CHR ''+'')"
  "\<not> isspace (CHR ''-'')" "\<not> is_digit (CHR 0x0A)" "\<not> is_digit (CHR '','')" "\<not> is_digit (CHR 0x5C)"
  by (auto simp: is_digit_def isspace_def)

lemma takeWhile_digits [simp]: "takeWhile is_digit (to_string n) = to_string n"
  using to_string_digits [of n] by (simp add: takeWhile_eq_all_conv list_all_iff)

lemma hd_to_string: "is_digit (hd (to_string n))"
  using to_string_digits [of n] by (cases "to_string n") auto

lemma dropWhile_space_to_string [simp]: "dropWhile isspace (to_string n) = to_string n"
  using hd_to_string [of n] by (cases "to_string n") (auto dest: is_digit_not(1))

lemma stoi_int_to_string:
  assumes "- (2 ^ 31) \<le> i" "i < 2 ^ 31"
  shows "stoi (int_to_string i) = Some i"
proof (cases "i < 0")
  case True
  with assms show ?thesis
    by (simp add: stoi_def int_to_string_def Let_def is_digit_not)
next
  case False
  have "hd (to_string (nat i)) \<noteq> CHR ''-''" "hd (to_string (nat i)) \<noteq> CHR ''+''"
    using hd_to_string [of "nat i"] is_digit_not by metis+
  with False assms show ?thesis
    by (simp add: stoi_def int_to_string_def Let_def)
qed

section \<open>Lines\<close>

abbreviation newline :: char where "newline \<equiv> CHR 0x0A"

text \<open>The pieces between newlines, at least one.\<close>

fun split_nl :: "string \<Rightarrow> string list" where
  "split_nl [] = [[]]"
| "split_nl (c # cs) =
     (if c = newline then [] # split_nl cs
      else (c # hd (split_nl cs)) # tl (split_nl cs))"

lemma split_nl_nonempty [simp]: "split_nl s \<noteq> []"
  by (cases s) simp_all

lemma split_nl_line: "newline \<notin> set l \<Longrightarrow> split_nl (l @ newline # s) = l # split_nl s"
  by (induction l) auto

lemma split_nl_no_newline: "newline \<notin> set l \<Longrightarrow> split_nl l = [l]"
  by (induction l) auto

text \<open>A text made of whole lines.\<close>

definition unlines :: "string list \<Rightarrow> string" where
  "unlines ls = concat (map (\<lambda>l. l @ [newline]) ls)"

lemma unlines_simps [simp]:
  "unlines [] = []" "unlines (l # ls) = l @ newline # unlines ls"
  "unlines (ls @ ls') = unlines ls @ unlines ls'"
  by (simp_all add: unlines_def)

lemma split_nl_unlines:
  "\<forall>l \<in> set ls. newline \<notin> set l \<Longrightarrow> newline \<notin> set s \<Longrightarrow> split_nl (unlines ls @ s) = ls @ [s]"
  by (induction ls) (simp_all add: split_nl_line split_nl_no_newline)

lemma split_nl_join: "unlines (butlast (split_nl s)) @ last (split_nl s) = s"
proof (induction s)
  case Nil
  then show ?case by simp
next
  case (Cons c cs)
  show ?case
  proof (cases "split_nl cs")
    case Nil
    then show ?thesis by simp
  next
    case (Cons l ls)
    with \<open>unlines (butlast (split_nl cs)) @ last (split_nl cs) = cs\<close> show ?thesis
      by (cases ls) auto
  qed
qed

lemma split_nl_pieces: "\<forall>l \<in> set (split_nl s). newline \<notin> set l"
proof (induction s)
  case Nil
  then show ?case by simp
next
  case (Cons c cs)
  then show ?case by (cases "split_nl cs") auto
qed

section \<open>Escaping\<close>

text \<open>What the readers and writers of one-line values rely on.\<close>

locale line_codec =
  fixes enc :: "string \<Rightarrow> string" and dec :: "string \<Rightarrow> string"
  assumes dec_enc: "dec (enc s) = s"
    and enc_line: "newline \<notin> set (enc s)"
begin

lemma enc_inj: "enc s = enc t \<Longrightarrow> s = t"
  by (metis dec_enc)

lemma map_dec_enc [simp]: "map dec (map enc ss) = ss"
  by (induction ss) (simp_all add: dec_enc)

lemma split_enc_lines:
  "newline \<notin> set k \<Longrightarrow> split_nl (unlines (map (\<lambda>s. k @ enc s) ss)) = map (\<lambda>s. k @ enc s) ss @ [[]]"
  using split_nl_unlines [of "map (\<lambda>s. k @ enc s) ss" "[]"] enc_line by auto

end

end
