(* ===== verification/Path_Utils.thy ===== *)
theory Path_Utils
  imports Text_Codec "HOL-Library.List_Lexorder" "HOL-Library.Char_ord"
begin

text \<open>
  Paths (\<open>settings/PathUtils.{h,cpp}\<close>): where the files of the program live, the minimal set
  of root folders, and the texts shown for counts and ages. \<open>realpath\<close> and the existence
  tests of the file system are parameters. Strings are ordered by their bytes.
\<close>

section \<open>Joining paths\<close>

text \<open>\<open>fs::path (dir) / file\<close> for a relative \<open>file\<close>, which is all the code joins.\<close>

definition path_join :: "string \<Rightarrow> string \<Rightarrow> string" where
  "path_join dir file =
     (if dir = [] then file
      else if last dir = CHR ''/'' then dir @ file
      else dir @ CHR ''/'' # file)"

definition JoinPath :: "string \<Rightarrow> string \<Rightarrow> string" where
  "JoinPath dir file = path_join dir file"

definition XdgDirOrDefault :: "string \<Rightarrow> string \<Rightarrow> string \<Rightarrow> string" where
  "XdgDirOrDefault overrideValue homeDir defaultSuffix =
     (if overrideValue \<noteq> [] then overrideValue else path_join homeDir defaultSuffix)"

record XdgEnv =
  xe_home :: string
  xe_xdgConfigHome :: string
  xe_xdgCacheHome :: string
  xe_xdgStateHome :: string

record DataDirs =
  dd_configPath :: string
  dd_indexPath :: string
  dd_logPath :: string

definition IsPortableMode :: "(string \<Rightarrow> bool) \<Rightarrow> string \<Rightarrow> bool" where
  "IsPortableMode exists executableDir \<longleftrightarrow>
     executableDir \<noteq> [] \<and> exists (path_join executableDir ''indexed.conf'')"

definition ResolveDataDirs :: "(string \<Rightarrow> bool) \<Rightarrow> string \<Rightarrow> XdgEnv \<Rightarrow> DataDirs" where
  "ResolveDataDirs exists executableDir xdg =
     (if IsPortableMode exists executableDir then
        \<lparr>dd_configPath = JoinPath executableDir ''indexed.conf'',
         dd_indexPath = JoinPath executableDir ''indexed.idx'',
         dd_logPath = JoinPath executableDir ''indexed.log''\<rparr>
      else
        let configHome = XdgDirOrDefault (xe_xdgConfigHome xdg) (xe_home xdg) ''.config'';
            cacheHome = XdgDirOrDefault (xe_xdgCacheHome xdg) (xe_home xdg) ''.cache'';
            stateHome = XdgDirOrDefault (xe_xdgStateHome xdg) (xe_home xdg) ''.local/state''
        in \<lparr>dd_configPath = JoinPath (JoinPath configHome ''indexed'') ''indexed.conf'',
            dd_indexPath = JoinPath (JoinPath cacheHome ''indexed'') ''indexed.idx'',
            dd_logPath = JoinPath (JoinPath stateHome ''indexed'') ''indexed.log''\<rparr>)"

text \<open>The environment as \<open>getenv\<close> reads it.\<close>

definition ReadXdgEnv :: "(string \<Rightarrow> string option) \<Rightarrow> XdgEnv" where
  "ReadXdgEnv getenv =
     (let orEmpty = (\<lambda>name. case getenv name of None \<Rightarrow> [] | Some v \<Rightarrow> v)
      in \<lparr>xe_home = orEmpty ''HOME'', xe_xdgConfigHome = orEmpty ''XDG_CONFIG_HOME'',
          xe_xdgCacheHome = orEmpty ''XDG_CACHE_HOME'', xe_xdgStateHome = orEmpty ''XDG_STATE_HOME''\<rparr>)"

section \<open>Root folders\<close>

function StripTrailingSlash :: "string \<Rightarrow> string" where
  "StripTrailingSlash path =
     (if length path > 1 \<and> last path = CHR ''/'' then StripTrailingSlash (butlast path) else path)"
  by pat_completeness auto
termination by (relation "measure length") auto

declare StripTrailingSlash.simps [simp del]

definition IsUnderOrEqual :: "string \<Rightarrow> string \<Rightarrow> bool" where
  "IsUnderOrEqual path ancestor \<longleftrightarrow>
     (if path = ancestor then True
      else if ancestor = ''/'' then length path > 1 \<and> hd path = CHR ''/''
      else length path > length ancestor \<and> take (length ancestor) path = ancestor \<and>
           path ! length ancestor = CHR ''/'')"

definition CanonicalizeBestEffort :: "(string \<Rightarrow> string option) \<Rightarrow> string \<Rightarrow> string" where
  "CanonicalizeBestEffort realpath path =
     (case realpath path of
        Some resolved \<Rightarrow> StripTrailingSlash resolved
      | None \<Rightarrow> StripTrailingSlash path)"

text \<open>The loop that fills \<open>minimal\<close>.\<close>

fun Collapse_loop :: "string list \<Rightarrow> string list \<Rightarrow> string list" where
  "Collapse_loop [] minimal = minimal"
| "Collapse_loop (candidate # rest) minimal =
     (let absorbed = list_ex (\<lambda>kept. IsUnderOrEqual candidate kept) minimal
      in Collapse_loop rest (if \<not> absorbed then minimal @ [candidate] else minimal))"

definition CollapseRedundantRoots :: "(string \<Rightarrow> string option) \<Rightarrow> string list \<Rightarrow> string list" where
  "CollapseRedundantRoots realpath roots =
     Collapse_loop (remdups_adj (sort (map (CanonicalizeBestEffort realpath) roots))) []"

section \<open>Display texts\<close>

fun FormatFileCount_loop :: "string \<Rightarrow> nat \<Rightarrow> string \<Rightarrow> string" where
  "FormatFileCount_loop [] sinceGroup result = result"
| "FormatFileCount_loop (d # ds) sinceGroup result =
     FormatFileCount_loop ds (sinceGroup + 1)
       ((if sinceGroup \<noteq> 0 \<and> sinceGroup mod 3 = 0 then result @ '','' else result) @ [d])"

definition FormatFileCount :: "u64 \<Rightarrow> string" where
  "FormatFileCount n = rev (FormatFileCount_loop (rev (to_string (unat n))) 0 [])"

definition FormatAge :: "u64 \<Rightarrow> string" where
  "FormatAge ageSeconds =
     (let kMinute = 60; kHour = 60 * kMinute; kDay = 24 * kHour
      in if ageSeconds < kMinute then ''just indexed''
         else if ageSeconds < kHour then to_string (unat (ageSeconds div kMinute)) @ '' min old''
         else if ageSeconds < kDay then to_string (unat (ageSeconds div kHour)) @ '' hrs old''
         else let days = ageSeconds div kDay; hours = (ageSeconds mod kDay) div kHour
              in to_string (unat days) @ '' days, '' @ to_string (unat hours) @ '' hrs old'')"

fun FormatLocationList_loop :: "string list \<Rightarrow> bool \<Rightarrow> string \<Rightarrow> string" where
  "FormatLocationList_loop [] first result = result"
| "FormatLocationList_loop (root # roots) first result =
     (let root = (if length root > 1 \<and> last root = CHR ''/'' then butlast root else root)
      in FormatLocationList_loop roots False ((if first then result else result @ '', '') @ root))"

definition FormatLocationList :: "string list \<Rightarrow> string" where
  "FormatLocationList roots = FormatLocationList_loop roots True []"

section \<open>The roots that survive\<close>

lemma sorted_remdups_adj_strict:
  fixes xs :: "'a::linorder list"
  shows "sorted xs \<Longrightarrow> sorted_wrt (<) (remdups_adj xs)"
  by (induction xs rule: remdups_adj.induct) auto

lemma strict_prefix_less:
  fixes xs ys :: "'a::linorder list"
  shows "ys \<noteq> [] \<Longrightarrow> xs < xs @ ys"
  by (induction xs) (cases ys; simp)+

lemma IsUnderOrEqual_prefix: "IsUnderOrEqual p a \<Longrightarrow> p \<noteq> a \<Longrightarrow> \<exists>rest. p = a @ rest \<and> rest \<noteq> []"
proof -
  assume "IsUnderOrEqual p a" "p \<noteq> a"
  then have "length p > length a \<and> take (length a) p = a"
    by (cases p) (auto simp: IsUnderOrEqual_def split: if_splits)
  then show ?thesis
    by (metis append_take_drop_id drop_eq_Nil not_less)
qed

lemma IsUnderOrEqual_less: "IsUnderOrEqual p a \<Longrightarrow> p \<noteq> a \<Longrightarrow> a < p"
  using IsUnderOrEqual_prefix strict_prefix_less by blast

lemma IsUnderOrEqual_refl [simp]: "IsUnderOrEqual p p"
  by (simp add: IsUnderOrEqual_def)

definition antichain :: "string list \<Rightarrow> bool" where
  "antichain rs \<longleftrightarrow> (\<forall>a \<in> set rs. \<forall>b \<in> set rs. IsUnderOrEqual a b \<longrightarrow> a = b)"

lemma Collapse_loop_result:
  assumes "sorted_wrt (<) (minimal @ rest)" "antichain minimal"
  defines "res \<equiv> Collapse_loop rest minimal"
  shows "antichain res \<and> sorted_wrt (<) res \<and> set minimal \<subseteq> set res \<and>
         set res \<subseteq> set minimal \<union> set rest \<and>
         (\<forall>c \<in> set rest. \<exists>k \<in> set res. IsUnderOrEqual c k)"
  using assms(1,2) unfolding res_def
proof (induction rest arbitrary: minimal)
  case Nil
  then show ?case by simp
next
  case (Cons c rest)
  let ?absorbed = "list_ex (\<lambda>k. IsUnderOrEqual c k) minimal"
  show ?case
  proof (cases ?absorbed)
    case True
    moreover have "sorted_wrt (<) (minimal @ rest)"
      using Cons.prems(1) by (simp add: sorted_wrt_append)
    ultimately show ?thesis
      using Cons.IH [OF _ Cons.prems(2)] by (fastforce simp: list_ex_iff)
  next
    case False
    have "\<not> IsUnderOrEqual k c" if "k \<in> set minimal" for k
      using IsUnderOrEqual_less [of k c] that Cons.prems(1)
      by (auto simp: sorted_wrt_append dest: order.asym)
    then have "antichain (minimal @ [c])"
      using False Cons.prems(2) by (auto simp: antichain_def list_ex_iff)
    moreover have "sorted_wrt (<) ((minimal @ [c]) @ rest)"
      using Cons.prems(1) by simp
    moreover have "Collapse_loop (c # rest) minimal = Collapse_loop rest (minimal @ [c])"
      using False by (simp add: Let_def)
    moreover have "\<exists>k \<in> set xs. IsUnderOrEqual c k" if "c \<in> set xs" for xs
      using that IsUnderOrEqual_refl by blast
    ultimately show ?thesis
      using Cons.IH [of "minimal @ [c]"] by simp
  qed
qed

lemma Collapse_loop_antichain:
  assumes "sorted_wrt (<) (minimal @ rest)" "antichain (minimal @ rest)"
  shows "Collapse_loop rest minimal = minimal @ rest"
  using assms
proof (induction rest arbitrary: minimal)
  case Nil
  then show ?case by simp
next
  case (Cons c rest)
  have "\<not> list_ex (\<lambda>k. IsUnderOrEqual c k) minimal"
    using Cons.prems by (auto simp: antichain_def list_ex_iff sorted_wrt_append)
  with Cons.IH [of "minimal @ [c]"] Cons.prems show ?case by simp
qed

lemma Collapse_result:
  defines "canonical \<equiv> \<lambda>rp roots. set (map (CanonicalizeBestEffort rp) roots)"
  shows "antichain (CollapseRedundantRoots rp roots)"
    and "sorted_wrt (<) (CollapseRedundantRoots rp roots)"
    and "set (CollapseRedundantRoots rp roots) \<subseteq> canonical rp roots"
    and "c \<in> canonical rp roots \<Longrightarrow> \<exists>k \<in> set (CollapseRedundantRoots rp roots). IsUnderOrEqual c k"
proof -
  let ?c = "remdups_adj (sort (map (CanonicalizeBestEffort rp) roots))"
  have "sorted_wrt (<) ([] @ ?c)"
    using sorted_remdups_adj_strict [OF sorted_sort] by simp
  from Collapse_loop_result [OF this]
  show "antichain (CollapseRedundantRoots rp roots)"
    "sorted_wrt (<) (CollapseRedundantRoots rp roots)"
    "set (CollapseRedundantRoots rp roots) \<subseteq> canonical rp roots"
    "c \<in> canonical rp roots \<Longrightarrow> \<exists>k \<in> set (CollapseRedundantRoots rp roots). IsUnderOrEqual c k"
    by (auto simp: CollapseRedundantRoots_def antichain_def canonical_def)
qed

text \<open>Roots that are already collapsed and canonical are left as they are.\<close>

lemma Collapse_stable:
  assumes "antichain roots" "sorted_wrt (<) roots"
    and "\<forall>r \<in> set roots. CanonicalizeBestEffort rp r = r"
  shows "CollapseRedundantRoots rp roots = roots"
proof -
  have "map (CanonicalizeBestEffort rp) roots = roots"
    using assms(3) by (simp add: map_idI)
  moreover have "sort roots = roots" "remdups_adj roots = roots"
    using assms(2) by (auto simp: strict_sorted_iff sorted_sort_id remdups_adj_distinct)
  ultimately show ?thesis
    using Collapse_loop_antichain [of "[]" roots] assms by (simp add: CollapseRedundantRoots_def)
qed

section \<open>Grouped digits\<close>

lemma FormatFileCount_loop_digits:
  "list_all is_digit ds \<Longrightarrow>
   filter is_digit (FormatFileCount_loop ds k result) = filter is_digit result @ ds"
proof (induction ds arbitrary: k result)
  case Nil
  then show ?case by simp
next
  case (Cons d ds)
  then show ?case by (simp add: is_digit_not)
qed

definition grouped :: "string \<Rightarrow> bool" where
  "grouped s \<longleftrightarrow> (\<forall>i < length s. (s ! i = CHR '','') = (i mod 4 = 3))"

lemma grouped_snoc:
  "grouped (s @ [c]) \<longleftrightarrow> grouped s \<and> (c = CHR '','') = (length s mod 4 = 3)"
  by (auto simp: grouped_def nth_append less_Suc_eq)

lemma FormatFileCount_loop_grouped:
  "grouped result \<Longrightarrow> list_all is_digit ds \<Longrightarrow> length result = k + (k - 1) div 3 \<Longrightarrow>
   grouped (FormatFileCount_loop ds k result)"
proof (induction ds arbitrary: k result)
  case Nil
  then show ?case by simp
next
  case (Cons d ds)
  have d: "d \<noteq> CHR '',''" using Cons.prems(2) is_digit_not(6) by auto
  show ?case
  proof (cases "k \<noteq> 0 \<and> k mod 3 = 0")
    case True
    then obtain j where k: "k = 3 * Suc j"
      by (metis mod_0_imp_dvd dvdE mult_0_right not0_implies_Suc)
    have len: "length result = 3 + 4 * j"
      using Cons.prems(3) unfolding k by presburger
    then have "length result mod 4 = 3" "Suc (length result) mod 4 \<noteq> 3"
      by presburger+
    then have "grouped ((result @ '','') @ [d])"
      unfolding grouped_snoc using Cons.prems(1) d by simp
    then have "grouped (result @ '','' @ [d])" by simp
    moreover have "length (result @ '','' @ [d]) = Suc k + (Suc k - 1) div 3"
      using len by (simp add: k)
    ultimately show ?thesis
      using Cons.IH [of "result @ '','' @ [d]" "Suc k"] Cons.prems(2) True by simp
  next
    case False
    have "length result mod 4 \<noteq> 3 \<and> length (result @ [d]) = Suc k + (Suc k - 1) div 3"
    proof (cases "k = 0")
      case True
      with Cons.prems(3) show ?thesis by simp
    next
      case nz: False
      define q r where "q = k div 3" and "r = k mod 3"
      have k: "k = 3 * q + r" "r = 1 \<or> r = 2"
        using False nz by (auto simp: q_def r_def)
      then have "(k - 1) div 3 = q" "k div 3 = q" by auto
      with Cons.prems(3) k have "length result = 4 * q + r" by simp
      with k \<open>k div 3 = q\<close> show ?thesis by auto
    qed
    then have ne: "length result mod 4 \<noteq> 3" "length (result @ [d]) = Suc k + (Suc k - 1) div 3"
      by blast+
    then have "grouped (result @ [d])"
      unfolding grouped_snoc using Cons.prems(1) d by simp
    moreover have "FormatFileCount_loop (d # ds) k result =
        FormatFileCount_loop ds (Suc k) (result @ [d])"
      using False by auto
    ultimately show ?thesis
      using ne(2) Cons.IH [of "result @ [d]" "Suc k"] Cons.prems(2) by simp
  qed
qed

section \<open>Properties\<close>

text \<open>The indexed roots are minimal: no surviving root lies under another, every requested
  root is covered by a survivor on whole path components, each survivor is a canonical
  requested root, and the list is strictly sorted.\<close>

lemma Collapse_minimal:
  "(\<forall>a \<in> set (CollapseRedundantRoots rp roots). \<forall>b \<in> set (CollapseRedundantRoots rp roots).
      IsUnderOrEqual a b \<longrightarrow> a = b) \<and>
   (\<forall>r \<in> set roots. \<exists>k \<in> set (CollapseRedundantRoots rp roots).
      IsUnderOrEqual (CanonicalizeBestEffort rp r) k) \<and>
   set (CollapseRedundantRoots rp roots) \<subseteq> CanonicalizeBestEffort rp ` set roots \<and>
   sorted_wrt (<) (CollapseRedundantRoots rp roots)"
  using Collapse_result [where rp = rp and roots = roots] by (auto simp: antichain_def)

lemma Collapse_minimal_witness:
  "\<exists>k \<in> {''/home'', ''/homes''}. IsUnderOrEqual (CanonicalizeBestEffort (\<lambda>p. None) ''/home/u/'') k"
proof -
  have "CollapseRedundantRoots (\<lambda>p. None) [''/home/u/'', ''/home'', ''/homes''] = [''/home'', ''/homes'']"
    by code_simp
  then show ?thesis
    using Collapse_minimal [of "\<lambda>p. None" "[''/home/u/'', ''/home'', ''/homes'']"] by simp
qed

text \<open>A formatted count shows its digits unchanged, with a comma before every third digit
  from the right and nowhere else.\<close>

lemma FormatFileCount_grouped:
  "filter is_digit (FormatFileCount n) = to_string (unat n) \<and>
   (\<forall>i < length (FormatFileCount n).
      (rev (FormatFileCount n) ! i = CHR '','') = (i mod 4 = 3))"
  using FormatFileCount_loop_digits [of "rev (to_string (unat n))" 0 "[]"]
    FormatFileCount_loop_grouped [of "[]" "rev (to_string (unat n))" 0]
  by (simp add: FormatFileCount_def rev_filter [symmetric]) (simp add: grouped_def)

lemma FormatFileCount_grouped_witness:
  "FormatFileCount 1234567 = ''1,234,567'' \<and> rev (FormatFileCount 1234567) ! 3 = CHR '',''"
proof -
  have "FormatFileCount 1234567 = ''1,234,567''"
    by (simp add: FormatFileCount_def to_string.simps digit_chars)
  with FormatFileCount_grouped [of 1234567] show ?thesis by simp
qed

end
