(* ===== verification/Roots_Diff.thy ===== *)
theory Roots_Diff
  imports Prelude
begin

text \<open>
  The difference between the old and the new roots of a settings change
  (\<open>settings/RootsDiff.{h,cpp}\<close>). The hash sets of the code are the sets of the elements.
\<close>

record RootsDiff =
  rd_added :: "string list"
  rd_removed :: "string list"

definition bothChanged :: "RootsDiff \<Rightarrow> bool" where
  "bothChanged d \<longleftrightarrow> rd_added d \<noteq> [] \<and> rd_removed d \<noteq> []"

definition DiffRoots :: "string list \<Rightarrow> string list \<Rightarrow> RootsDiff" where
  "DiffRoots oldRoots newRoots =
     \<lparr>rd_added = filter (\<lambda>root. root \<notin> set oldRoots) newRoots,
      rd_removed = filter (\<lambda>root. root \<notin> set newRoots) oldRoots\<rparr>"

text \<open>Applying a difference to the old roots gives the new ones: what is removed was there,
  what is added was not, and when nothing is added or removed the two sets are the same.\<close>

lemma DiffRoots_exact:
  "(set oldRoots - set (rd_removed (DiffRoots oldRoots newRoots))) \<union>
     set (rd_added (DiffRoots oldRoots newRoots)) = set newRoots \<and>
   set (rd_removed (DiffRoots oldRoots newRoots)) \<subseteq> set oldRoots \<and>
   set (rd_added (DiffRoots oldRoots newRoots)) \<inter> set oldRoots = {} \<and>
   (rd_added (DiffRoots oldRoots newRoots) = [] \<and> rd_removed (DiffRoots oldRoots newRoots) = [] \<longleftrightarrow>
      set oldRoots = set newRoots)"
  by (auto simp: DiffRoots_def filter_empty_conv)

end
