(* ===== verification/Logger.thy ===== *)
theory Logger
  imports Path_Utils
begin

text \<open>
  Log levels and the logger (\<open>settings/Logger.{h,cpp}\<close>). The log file is its text; the calls
  that can fail (making the directory, opening, writing) and the time stamp are arguments.
\<close>

datatype LogLevel = LevelError | LevelWarning | LevelInfo | LevelDebug

definition level_rank :: "LogLevel \<Rightarrow> nat" where
  "level_rank l =
     (case l of LevelError \<Rightarrow> 0 | LevelWarning \<Rightarrow> 1 | LevelInfo \<Rightarrow> 2 | LevelDebug \<Rightarrow> 3)"

instantiation LogLevel :: linorder
begin

definition less_eq_LogLevel :: "LogLevel \<Rightarrow> LogLevel \<Rightarrow> bool" where
  "less_eq_LogLevel a b \<longleftrightarrow> level_rank a \<le> level_rank b"

definition less_LogLevel :: "LogLevel \<Rightarrow> LogLevel \<Rightarrow> bool" where
  "less_LogLevel a b \<longleftrightarrow> level_rank a < level_rank b"

instance
  by standard (auto simp: less_eq_LogLevel_def less_LogLevel_def level_rank_def split: LogLevel.splits)

end

definition upper_char :: "char \<Rightarrow> char" where
  "upper_char c =
     (let n = of_char c :: nat in if 97 \<le> n \<and> n \<le> 122 then char_of (n - 32) else c)"

definition ToUpper :: "string \<Rightarrow> string" where
  "ToUpper s = map upper_char s"

definition ParseLogLevel :: "string \<Rightarrow> LogLevel \<Rightarrow> LogLevel" where
  "ParseLogLevel name fallback =
     (let upper = ToUpper name
      in if upper = ''ERROR'' then LevelError
         else if upper = ''WARNING'' then LevelWarning
         else if upper = ''INFO'' then LevelInfo
         else if upper = ''DEBUG'' then LevelDebug
         else fallback)"

definition LogLevelName :: "LogLevel \<Rightarrow> string" where
  "LogLevelName level =
     (case level of
        LevelError \<Rightarrow> ''ERROR'' | LevelWarning \<Rightarrow> ''WARNING''
      | LevelInfo \<Rightarrow> ''INFO'' | LevelDebug \<Rightarrow> ''DEBUG'')"

record Logger =
  lg_logPath :: string
  lg_level :: LogLevel

text \<open>\<open>fs::path::parent_path\<close>.\<close>

definition parent_path :: "string \<Rightarrow> string" where
  "parent_path p =
     (case str_rfind (CHR ''/'') p of
        None \<Rightarrow> []
      | Some i \<Rightarrow> if i = 0 then ''/'' else StripTrailingSlash (take i p))"

text \<open>
  \<open>ensure\<close> is \<open>EnsureDirectory\<close>, \<open>log\<close> the file before the call, or \<open>None\<close> when it cannot be
  opened for appending, and \<open>good\<close> the state of the stream after the write.
\<close>

definition Log ::
  "(string \<Rightarrow> bool) \<Rightarrow> string option \<Rightarrow> bool \<Rightarrow> string \<Rightarrow> Logger \<Rightarrow> string \<Rightarrow> LogLevel \<Rightarrow>
   bool \<times> string option" where
  "Log ensure log good timestamp logger message level =
     (if level > lg_level logger then (True, log)
      else let parent = parent_path (lg_logPath logger)
           in if parent \<noteq> [] \<and> \<not> ensure parent then (False, log)
              else case log of
                     None \<Rightarrow> (False, None)
                   | Some text \<Rightarrow>
                       (good, Some (text @ ''['' @ timestamp @ ''] ['' @ LogLevelName level @ ''] '' @
                                    message @ [newline])))"

lemma ParseLogLevel_Name: "ParseLogLevel (LogLevelName l) fb = l"
proof -
  have "ToUpper ''ERROR'' = ''ERROR''" "ToUpper ''WARNING'' = ''WARNING''"
    "ToUpper ''INFO'' = ''INFO''" "ToUpper ''DEBUG'' = ''DEBUG''"
    by code_simp+
  then show ?thesis
    by (cases l) (simp_all add: ParseLogLevel_def LogLevelName_def)
qed

lemma LogLevelName_plain: "LogLevelName l \<noteq> [] \<and> \<not> isspace (last (LogLevelName l))"
  by (cases l) (simp_all add: LogLevelName_def isspace_def)

end
