(* ===== verification/Ini_File.thy ===== *)
theory Ini_File
  imports Text_Codec
begin

text \<open>
  The key-value file under the settings (\<open>settings/IniFile.{h,cpp}\<close>). Reading it gives its
  text, or says that it is missing or that it cannot be opened. The hash map is a map; the
  order in which \<open>Save\<close> walks it is an argument.
\<close>

section \<open>The code\<close>

fun EscapeValue :: "string \<Rightarrow> string" where
  "EscapeValue [] = []"
| "EscapeValue (c # cs) =
     (if c = CHR 0x5C then [CHR 0x5C, CHR 0x5C]
      else if c = newline then [CHR 0x5C, CHR ''n''] else [c]) @ EscapeValue cs"

fun UnescapeValue :: "string \<Rightarrow> string" where
  "UnescapeValue [] = []"
| "UnescapeValue [c] = [c]"
| "UnescapeValue (c # d # cs) =
     (if c = CHR 0x5C then (if d = CHR ''n'' then newline else d) # UnescapeValue cs
      else c # UnescapeValue (d # cs))"

definition Trim :: "string \<Rightarrow> string" where
  "Trim s = rev (dropWhile isspace (rev (dropWhile isspace s)))"

record IniFile =
  ini_values :: "string \<rightharpoonup> string"

definition empty_ini :: IniFile where
  "empty_ini = \<lparr>ini_values = Map.empty\<rparr>"

datatype FileRead = FileMissing | FileUnreadable | FileText string

text \<open>\<open>std::getline\<close>: a last piece without a newline is a line unless it is empty.\<close>

definition getlines :: "string \<Rightarrow> string list" where
  "getlines s =
     (let ls = split_nl s in if last ls = [] then butlast ls else ls)"

definition Load_line :: "IniFile \<Rightarrow> string \<Rightarrow> IniFile" where
  "Load_line ini line =
     (let trimmed = Trim line
      in if trimmed = [] \<or> hd trimmed = CHR ''#'' \<or> hd trimmed = CHR '';'' then ini
         else case find_idx (\<lambda>c. c = CHR ''='') trimmed of
                None \<Rightarrow> ini
              | Some eq \<Rightarrow>
                  ini\<lparr>ini_values := (ini_values ini)
                        (Trim (take eq trimmed) \<mapsto> UnescapeValue (drop (eq + 1) trimmed))\<rparr>)"

definition Ini_Load :: "FileRead \<Rightarrow> bool \<times> IniFile" where
  "Ini_Load file =
     (case file of
        FileMissing \<Rightarrow> (True, empty_ini)
      | FileUnreadable \<Rightarrow> (False, empty_ini)
      | FileText text \<Rightarrow> (True, foldl Load_line empty_ini (getlines text)))"

definition Ini_text :: "string list \<Rightarrow> IniFile \<Rightarrow> string" where
  "Ini_text keys ini =
     concat (map (\<lambda>key. key @ CHR ''='' # EscapeValue (the (ini_values ini key)) @ [newline]) keys)"

text \<open>\<open>opened\<close> and \<open>good\<close> are the stream's state; the result is the file's new text, if written.\<close>

definition Ini_Save :: "bool \<Rightarrow> bool \<Rightarrow> string list \<Rightarrow> IniFile \<Rightarrow> bool \<times> string option" where
  "Ini_Save opened good keys ini =
     (if \<not> opened then (False, None) else (good, Some (Ini_text keys ini)))"

definition GetString :: "IniFile \<Rightarrow> string \<Rightarrow> string option" where
  "GetString ini key = ini_values ini key"

definition SetString :: "IniFile \<Rightarrow> string \<Rightarrow> string \<Rightarrow> IniFile" where
  "SetString ini key value = ini\<lparr>ini_values := (ini_values ini)(key \<mapsto> value)\<rparr>"

definition GetInt :: "IniFile \<Rightarrow> string \<Rightarrow> int \<Rightarrow> int" where
  "GetInt ini key defaultValue =
     (case ini_values ini key of
        None \<Rightarrow> defaultValue
      | Some v \<Rightarrow> (case stoi v of None \<Rightarrow> defaultValue | Some i \<Rightarrow> i))"

definition SetInt :: "IniFile \<Rightarrow> string \<Rightarrow> int \<Rightarrow> IniFile" where
  "SetInt ini key value = SetString ini key (int_to_string value)"

definition GetBool :: "IniFile \<Rightarrow> string \<Rightarrow> bool \<Rightarrow> bool" where
  "GetBool ini key defaultValue =
     (case ini_values ini key of
        None \<Rightarrow> defaultValue
      | Some v \<Rightarrow> if v = ''1'' then True else if v = ''0'' then False else defaultValue)"

definition SetBool :: "IniFile \<Rightarrow> string \<Rightarrow> bool \<Rightarrow> IniFile" where
  "SetBool ini key value = SetString ini key (if value then ''1'' else ''0'')"

definition Has :: "IniFile \<Rightarrow> string \<Rightarrow> bool" where
  "Has ini key \<longleftrightarrow> ini_values ini key \<noteq> None"

section \<open>The escaping is a line codec\<close>

lemma UnescapeValue_plain: "c \<noteq> CHR 0x5C \<Longrightarrow> UnescapeValue (c # s) = c # UnescapeValue s"
  by (cases s) simp_all

lemma UnescapeValue_Escape: "UnescapeValue (EscapeValue s) = s"
  by (induction s) (auto simp: UnescapeValue_plain)

lemma EscapeValue_line: "newline \<notin> set (EscapeValue s)"
  by (induction s) auto

interpretation ini_codec: line_codec EscapeValue UnescapeValue
  by unfold_locales (simp_all add: UnescapeValue_Escape EscapeValue_line)

lemma EscapeValue_Nil_iff [simp]: "EscapeValue v = [] \<longleftrightarrow> v = []"
  by (cases v) auto

lemma last_EscapeValue:
  "v \<noteq> [] \<Longrightarrow> last (EscapeValue v) = (if last v = newline then CHR ''n'' else last v)"
  by (induction v) auto

section \<open>Saving and loading\<close>

text \<open>Keys and values that survive the trimming of a line.\<close>

definition safe_key :: "string \<Rightarrow> bool" where
  "safe_key k \<longleftrightarrow>
     newline \<notin> set k \<and> CHR ''='' \<notin> set k \<and>
     (k \<noteq> [] \<longrightarrow> \<not> isspace (hd k) \<and> \<not> isspace (last k) \<and>
                 hd k \<noteq> CHR ''#'' \<and> hd k \<noteq> CHR '';'')"

definition safe_value :: "string \<Rightarrow> bool" where
  "safe_value v \<longleftrightarrow> v = [] \<or> \<not> isspace (last v) \<or> last v = newline"

definition ini_safe :: "IniFile \<Rightarrow> bool" where
  "ini_safe ini \<longleftrightarrow> (\<forall>k v. ini_values ini k = Some v \<longrightarrow> safe_key k \<and> safe_value v)"

lemma Trim_id: "s \<noteq> [] \<Longrightarrow> \<not> isspace (hd s) \<Longrightarrow> \<not> isspace (last s) \<Longrightarrow> Trim s = s"
proof -
  assume ne: "s \<noteq> []" and ends: "\<not> isspace (hd s)" "\<not> isspace (last s)"
  have "dropWhile isspace s = s"
    using ne ends by (cases s) simp_all
  moreover have "dropWhile isspace (rev s) = rev s"
    using ne ends by (cases s rule: rev_cases) simp_all
  ultimately show ?thesis by (simp add: Trim_def)
qed

lemma Trim_Nil [simp]: "Trim [] = []"
  by (simp add: Trim_def)

lemma find_idx_at: "x \<notin> set k \<Longrightarrow> find_idx (\<lambda>c. c = x) (k @ x # s) = Some (length k)"
  by (induction k) auto

lemma Load_line_saved:
  assumes "safe_key k" "safe_value v"
  shows "Load_line ini (k @ CHR ''='' # EscapeValue v) =
         ini\<lparr>ini_values := (ini_values ini)(k \<mapsto> v)\<rparr>"
proof -
  let ?line = "k @ CHR ''='' # EscapeValue v"
  have "\<not> isspace (last ?line)"
    using assms(2) last_EscapeValue [of v] by (auto simp: safe_value_def isspace_def)
  then have trim: "Trim ?line = ?line"
    using assms(1) by (intro Trim_id) (auto simp: safe_key_def hd_append isspace_def)
  have "Trim k = k"
    using assms(1) by (cases "k = []") (auto simp: safe_key_def Trim_id)
  moreover have "hd ?line \<noteq> CHR ''#''" "hd ?line \<noteq> CHR '';''"
    using assms(1) by (auto simp: safe_key_def hd_append)
  ultimately show ?thesis
    using assms(1) trim by (simp add: Load_line_def safe_key_def find_idx_at UnescapeValue_Escape)
qed

lemma getlines_unlines: "\<forall>l \<in> set ls. newline \<notin> set l \<Longrightarrow> getlines (unlines ls) = ls"
  using split_nl_unlines [of ls "[]"] by (simp add: getlines_def)

definition saved_line :: "IniFile \<Rightarrow> string \<Rightarrow> string" where
  "saved_line ini k = k @ CHR ''='' # EscapeValue (the (ini_values ini k))"

lemma Ini_text_lines: "Ini_text keys ini = unlines (map (saved_line ini) keys)"
  by (induction keys) (simp_all add: Ini_text_def saved_line_def)

lemma Load_lines:
  "ini_safe ini \<Longrightarrow> set keys \<subseteq> dom (ini_values ini) \<Longrightarrow>
   foldl Load_line acc (map (saved_line ini) keys) =
   acc\<lparr>ini_values := (\<lambda>k. if k \<in> set keys then ini_values ini k else ini_values acc k)\<rparr>"
proof (induction keys arbitrary: acc)
  case Nil
  then show ?case by simp
next
  case (Cons k keys)
  from Cons.prems obtain v where v: "ini_values ini k = Some v" by auto
  with Cons.prems(1) have "Load_line acc (saved_line ini k) =
      acc\<lparr>ini_values := (ini_values acc)(k \<mapsto> v)\<rparr>"
    by (simp add: saved_line_def ini_safe_def Load_line_saved)
  with Cons v show ?case by (auto simp: fun_eq_iff)
qed

lemma Ini_Load_text:
  assumes "ini_safe ini" "set keys = dom (ini_values ini)"
  shows "Ini_Load (FileText (Ini_text keys ini)) = (True, ini)"
proof -
  have "\<forall>l \<in> set (map (saved_line ini) keys). newline \<notin> set l"
    using assms by (auto simp: saved_line_def ini_safe_def safe_key_def EscapeValue_line)
  then have "Ini_Load (FileText (Ini_text keys ini)) =
      (True, foldl Load_line empty_ini (map (saved_line ini) keys))"
    by (simp add: Ini_Load_def Ini_text_lines getlines_unlines)
  moreover have "foldl Load_line empty_ini (map (saved_line ini) keys) = ini"
    using Load_lines [OF assms(1), of keys empty_ini] assms(2)
    by (cases ini) (auto simp: empty_ini_def fun_eq_iff domIff)
  ultimately show ?thesis by simp
qed

section \<open>Every loaded map can be saved\<close>

lemma Trim_ends: "Trim s \<noteq> [] \<Longrightarrow> \<not> isspace (hd (Trim s)) \<and> \<not> isspace (last (Trim s))"
proof -
  let ?t = "dropWhile isspace s"
  assume ne: "Trim s \<noteq> []"
  then have last: "\<not> isspace (last (Trim s))"
    using hd_dropWhile [of isspace "rev ?t"] by (simp add: Trim_def last_rev)
  obtain ws where "?t = Trim s @ ws"
    using takeWhile_dropWhile_id [of isspace "rev ?t"] by (metis Trim_def rev_append rev_rev_ident)
  with ne have "hd (Trim s) = hd ?t" "?t \<noteq> []" by auto
  with hd_dropWhile [of isspace s] last show ?thesis by metis
qed

lemma set_Trim: "set (Trim s) \<subseteq> set s"
  by (auto simp: Trim_def dest!: set_dropWhileD)

lemma hd_Trim: "s \<noteq> [] \<Longrightarrow> \<not> isspace (hd s) \<Longrightarrow> Trim s \<noteq> [] \<and> hd (Trim s) = hd s"
proof -
  assume ne: "s \<noteq> []" and hd: "\<not> isspace (hd s)"
  then have d: "dropWhile isspace s = s" by (cases s) simp_all
  obtain ws where s: "s = Trim s @ ws" and ws: "\<forall>c \<in> set ws. isspace c"
    using takeWhile_dropWhile_id [of isspace "rev s"] set_takeWhileD [of _ isspace "rev s"]
    by (metis Trim_def d rev_append rev_rev_ident set_rev)
  have "Trim s \<noteq> []"
  proof
    assume "Trim s = []"
    with s ws ne hd show False by (metis append_Nil list.set_sel(1))
  qed
  with s show ?thesis by (metis hd_append2)
qed

lemma UnescapeValue_safe:
  "u \<noteq> [] \<Longrightarrow> \<not> isspace (last u) \<Longrightarrow> UnescapeValue u \<noteq> [] \<and> safe_value (UnescapeValue u)"
  by (induction u rule: UnescapeValue.induct) (auto simp: safe_value_def split: if_splits)

lemma Load_line_safe:
  assumes "ini_safe ini" "newline \<notin> set line"
  shows "ini_safe (Load_line ini line)"
proof -
  let ?t = "Trim line"
  show ?thesis
  proof (cases "?t = [] \<or> hd ?t = CHR ''#'' \<or> hd ?t = CHR '';'' \<or>
      find_idx (\<lambda>c. c = CHR ''='') ?t = None")
    case True
    with assms(1) show ?thesis by (auto simp: Load_line_def Let_def)
  next
    case False
    then obtain eq where eq: "find_idx (\<lambda>c. c = CHR ''='') ?t = Some eq" and ne: "?t \<noteq> []"
      by auto
    let ?k = "take eq ?t" and ?v = "drop (eq + 1) ?t"
    have at: "eq < length ?t" "?t ! eq = CHR ''=''" "\<forall>j < eq. ?t ! j \<noteq> CHR ''=''"
      using eq by (simp_all add: find_idx_Some_iff)
    then have "CHR ''='' \<notin> set ?k"
      by (auto simp: in_set_conv_nth)
    moreover have "newline \<notin> set ?k"
      using assms(2) set_Trim [of line] by (auto dest: in_set_takeD)
    moreover have "?k \<noteq> [] \<Longrightarrow> hd ?k = hd ?t" using ne by (cases ?t; cases eq) auto
    ultimately have key: "safe_key (Trim ?k)"
      using False set_Trim [of ?k] Trim_ends [of line] Trim_ends [of ?k] hd_Trim [of ?k]
      by (cases "?k = []") (auto simp: safe_key_def)
    have "?v \<noteq> [] \<Longrightarrow> last ?v = last ?t" by simp
    then have "safe_value (UnescapeValue ?v)"
      using UnescapeValue_safe [of ?v] Trim_ends [OF ne] by (cases "?v = []") (auto simp: safe_value_def)
    with key assms(1) False eq show ?thesis
      by (auto simp: Load_line_def Let_def ini_safe_def)
  qed
qed

lemma empty_ini_safe [simp]: "ini_safe empty_ini"
  by (simp add: ini_safe_def empty_ini_def)

lemma Ini_Load_safe: "ini_safe (snd (Ini_Load f))"
proof (cases f)
  case (FileText s)
  have lines: "\<forall>l \<in> set (getlines s). newline \<notin> set l"
    using split_nl_pieces [of s] by (auto simp: getlines_def Let_def dest: in_set_butlastD)
  have "ini_safe (foldl Load_line acc ls)" if "ini_safe acc" "\<forall>l \<in> set ls. newline \<notin> set l" for acc ls
    using that
  proof (induction ls arbitrary: acc)
    case (Cons l ls)
    then show ?case using Load_line_safe [of acc l] by simp
  qed simp
  with lines FileText show ?thesis
    by (simp add: Ini_Load_def)
qed (simp_all add: Ini_Load_def)

lemma Ini_Load_finite: "finite (dom (ini_values (snd (Ini_Load f))))"
proof -
  have "finite (dom (ini_values (foldl Load_line acc ls)))" if "finite (dom (ini_values acc))" for acc ls
    using that
    by (induction ls arbitrary: acc) (auto simp: Load_line_def Let_def split: option.split)
  then show ?thesis
    by (cases f) (simp_all add: Ini_Load_def empty_ini_def)
qed

section \<open>Properties\<close>

text \<open>A saved key-value file loads back to the same map, whatever order the hash map is
  walked in and whatever newlines and backslashes the values hold, provided no value ends in
  white space other than a newline.\<close>

lemma Ini_round_trip:
  assumes "ini_safe ini" "set keys = dom (ini_values ini)" "Ini_Save True True keys ini = (ok, Some text)"
  shows "ok \<and> Ini_Load (FileText text) = (True, ini)"
  using assms by (auto simp: Ini_Save_def Ini_Load_text)

definition sample_ini :: IniFile where
  "sample_ini = \<lparr>ini_values = [''K'' \<mapsto> [CHR ''a'', newline, CHR 0x5C, CHR ''n'']]\<rparr>"

lemma Ini_round_trip_witness:
  "Ini_Load (FileText (Ini_text [''K''] sample_ini)) = (True, sample_ini)"
proof -
  have "ini_safe sample_ini" "set [''K''] = dom (ini_values sample_ini)"
    by (auto simp: sample_ini_def ini_safe_def safe_key_def safe_value_def isspace_def
        split: if_splits)
  moreover have "Ini_Save True True [''K''] sample_ini = (True, Some (Ini_text [''K''] sample_ini))"
    by (simp add: Ini_Save_def)
  ultimately show ?thesis using Ini_round_trip by blast
qed

text \<open>A value that ends in a space comes back without it: the whole line is trimmed.\<close>

lemma trailing_space_lost:
  "Ini_Load (FileText (Ini_text [''K''] \<lparr>ini_values = [''K'' \<mapsto> ''/my dir '']\<rparr>)) =
   (True, \<lparr>ini_values = [''K'' \<mapsto> ''/my dir'']\<rparr>)"
  by (simp add: Ini_Load_def Ini_text_def getlines_def Load_line_def Trim_def isspace_def
      empty_ini_def)

end
