(* ===== verification/Settings_Store.thy ===== *)
theory Settings_Store
  imports Ini_File Logger
begin

text \<open>
  The settings (\<open>settings/Settings.{h,cpp}\<close>, \<open>settings/HelperSettings.cpp\<close>): typed fields over
  the key-value file, with path lists joined by newlines. \<open>realpath\<close>, the making of the
  configuration directory and the outcome of opening and writing the file are arguments.
\<close>

section \<open>Lists of lines\<close>

function SplitLines_loop :: "string \<Rightarrow> string list" where
  "SplitLines_loop s =
     (case find_idx (\<lambda>c. c = newline) s of
        None \<Rightarrow> [s]
      | Some next \<Rightarrow> take next s # SplitLines_loop (drop (next + 1) s))"
  by pat_completeness auto
termination
  by (relation "measure length") (auto simp: find_idx_Some_iff)

declare SplitLines_loop.simps [simp del]

definition SplitLines :: "string \<Rightarrow> string list" where
  "SplitLines joined = (if joined = [] then [] else SplitLines_loop joined)"

fun JoinLines_loop :: "string list \<Rightarrow> bool \<Rightarrow> string \<Rightarrow> string" where
  "JoinLines_loop [] first result = result"
| "JoinLines_loop (l # ls) first result =
     JoinLines_loop ls False ((if first then result else result @ [newline]) @ l)"

definition JoinLines :: "string list \<Rightarrow> string" where
  "JoinLines lines = JoinLines_loop lines True []"

definition AnyContainsNewline :: "string list \<Rightarrow> bool" where
  "AnyContainsNewline entries \<longleftrightarrow> list_ex (\<lambda>s. find_idx (\<lambda>c. c = newline) s \<noteq> None) entries"

definition ExpandHome :: "string \<Rightarrow> string \<Rightarrow> string" where
  "ExpandHome path homeDir =
     (if path = ''~'' then homeDir
      else if length path > 1 \<and> path ! 0 = CHR ''~'' \<and> path ! 1 = CHR ''/'' then homeDir @ drop 1 path
      else path)"

definition DefaultExcludedPaths :: "string \<Rightarrow> string list" where
  "DefaultExcludedPaths homeDir =
     map (\<lambda>path. ExpandHome path homeDir)
       [''/proc'', ''/sys'', ''/dev'', ''/run'', ''/tmp'', ''/var/cache'', ''/var/tmp'',
        ''/var/lib/docker'', ''/var/lib/containers'', ''/snap'', ''/var/lib/flatpak'', ''~/.cache'',
        ''~/.local/share/Trash'', ''~/.local/share/containers'', ''~/.var/app'', ''/lost+found'']"

section \<open>The settings\<close>

record Settings =
  st_configPath :: string
  st_homeDir :: string
  st_lastError :: string
  st_selectedRoots :: "string list"
  st_excludedPaths :: "string list"
  st_reindexIntervalHours :: int
  st_useRegex :: bool
  st_caseSensitive :: bool
  st_wholeWord :: bool
  st_matchPath :: bool
  st_ignoreDiacritics :: bool
  st_firstRunComplete :: bool
  st_logLevel :: LogLevel

definition new_Settings :: "string \<Rightarrow> string \<Rightarrow> Settings" where
  "new_Settings configPath homeDir =
     \<lparr>st_configPath = configPath, st_homeDir = homeDir, st_lastError = [], st_selectedRoots = [],
      st_excludedPaths = [], st_reindexIntervalHours = 48, st_useRegex = False,
      st_caseSensitive = False, st_wholeWord = False, st_matchPath = False,
      st_ignoreDiacritics = False, st_firstRunComplete = False, st_logLevel = LevelWarning\<rparr>"

definition SetSelectedRoots :: "(string \<Rightarrow> string option) \<Rightarrow> Settings \<Rightarrow> string list \<Rightarrow> Settings" where
  "SetSelectedRoots realpath s roots =
     s\<lparr>st_selectedRoots := CollapseRedundantRoots realpath roots\<rparr>"

definition SetExcludedPaths :: "Settings \<Rightarrow> string list \<Rightarrow> Settings" where
  "SetExcludedPaths s paths = s\<lparr>st_excludedPaths := paths\<rparr>"

definition SetReindexIntervalHours :: "Settings \<Rightarrow> int \<Rightarrow> Settings" where
  "SetReindexIntervalHours s hours = s\<lparr>st_reindexIntervalHours := hours\<rparr>"

definition SetFirstRunComplete :: "Settings \<Rightarrow> bool \<Rightarrow> Settings" where
  "SetFirstRunComplete s value = s\<lparr>st_firstRunComplete := value\<rparr>"

definition SetUseRegex :: "Settings \<Rightarrow> bool \<Rightarrow> Settings" where
  "SetUseRegex s value = s\<lparr>st_useRegex := value\<rparr>"

definition SetCaseSensitive :: "Settings \<Rightarrow> bool \<Rightarrow> Settings" where
  "SetCaseSensitive s value = s\<lparr>st_caseSensitive := value\<rparr>"

definition SetWholeWord :: "Settings \<Rightarrow> bool \<Rightarrow> Settings" where
  "SetWholeWord s value = s\<lparr>st_wholeWord := value\<rparr>"

definition SetMatchPath :: "Settings \<Rightarrow> bool \<Rightarrow> Settings" where
  "SetMatchPath s value = s\<lparr>st_matchPath := value\<rparr>"

definition SetIgnoreDiacritics :: "Settings \<Rightarrow> bool \<Rightarrow> Settings" where
  "SetIgnoreDiacritics s value = s\<lparr>st_ignoreDiacritics := value\<rparr>"

definition SetLogLevel :: "Settings \<Rightarrow> LogLevel \<Rightarrow> Settings" where
  "SetLogLevel s value = s\<lparr>st_logLevel := value\<rparr>"

lemmas Settings_setters [simp] =
  SetExcludedPaths_def SetReindexIntervalHours_def SetFirstRunComplete_def SetUseRegex_def
  SetCaseSensitive_def SetWholeWord_def SetMatchPath_def SetIgnoreDiacritics_def SetLogLevel_def

definition value_or :: "string option \<Rightarrow> string \<Rightarrow> string" where
  "value_or v d = (case v of None \<Rightarrow> d | Some x \<Rightarrow> x)"

definition Settings_Load ::
  "(string \<Rightarrow> string option) \<Rightarrow> FileRead \<Rightarrow> Settings \<Rightarrow> bool \<times> Settings" where
  "Settings_Load realpath config s =
     (let (ok, ini) = Ini_Load config
      in if \<not> ok then (False, s)
         else (True, s\<lparr>
           st_selectedRoots :=
             CollapseRedundantRoots realpath (SplitLines (value_or (GetString ini ''SelectedRoots'') [])),
           st_excludedPaths :=
             (if Has ini ''ExcludedPaths''
              then SplitLines (value_or (GetString ini ''ExcludedPaths'') [])
              else DefaultExcludedPaths (st_homeDir s)),
           st_reindexIntervalHours := GetInt ini ''ReindexIntervalHours'' 48,
           st_useRegex := GetBool ini ''UseRegex'' False,
           st_caseSensitive := GetBool ini ''CaseSensitive'' False,
           st_wholeWord := GetBool ini ''WholeWord'' False,
           st_matchPath := GetBool ini ''MatchPath'' False,
           st_ignoreDiacritics := GetBool ini ''IgnoreDiacritics'' False,
           st_firstRunComplete := GetBool ini ''FirstRunComplete'' False,
           st_logLevel :=
             ParseLogLevel (value_or (GetString ini ''LogLevel'') ''WARNING'') LevelWarning\<rparr>))"

definition Settings_ini :: "Settings \<Rightarrow> IniFile \<Rightarrow> IniFile" where
  "Settings_ini s ini =
     (let ini = SetString ini ''SelectedRoots'' (JoinLines (st_selectedRoots s));
          ini = SetString ini ''ExcludedPaths'' (JoinLines (st_excludedPaths s));
          ini = SetInt ini ''ReindexIntervalHours'' (st_reindexIntervalHours s);
          ini = SetBool ini ''UseRegex'' (st_useRegex s);
          ini = SetBool ini ''CaseSensitive'' (st_caseSensitive s);
          ini = SetBool ini ''WholeWord'' (st_wholeWord s);
          ini = SetBool ini ''MatchPath'' (st_matchPath s);
          ini = SetBool ini ''IgnoreDiacritics'' (st_ignoreDiacritics s);
          ini = SetBool ini ''FirstRunComplete'' (st_firstRunComplete s)
      in SetString ini ''LogLevel'' (LogLevelName (st_logLevel s)))"

text \<open>
  \<open>existing\<close> is the file that is merged into; \<open>order\<close> is the walk of the hash map. The result
  is the return value, the object, and the new text of the file when it was written.
\<close>

definition Settings_Save ::
  "(string \<Rightarrow> bool) \<Rightarrow> FileRead \<Rightarrow> bool \<Rightarrow> bool \<Rightarrow> (IniFile \<Rightarrow> string list) \<Rightarrow> Settings \<Rightarrow>
   bool \<times> Settings \<times> string option" where
  "Settings_Save ensure existing opened good order s =
     (if AnyContainsNewline (st_selectedRoots s) \<or> AnyContainsNewline (st_excludedPaths s) then
        (False, s\<lparr>st_lastError :=
           ''Settings::Save: a path contains a literal newline, which cannot be stored '' @
           ''(newline is the list separator for SelectedRoots/ExcludedPaths) -- rejecting save''\<rparr>,
         None)
      else let parent = parent_path (st_configPath s)
      in if parent \<noteq> [] \<and> \<not> ensure parent then
           (False, s\<lparr>st_lastError := ''Settings::Save: failed to create config directory''\<rparr>, None)
         else
           let ini = Settings_ini s (snd (Ini_Load existing));
               (saved, text) = Ini_Save opened good (order ini) ini
           in if \<not> saved then
                (False, s\<lparr>st_lastError := ''Settings::Save: failed to write config file''\<rparr>, text)
              else (True, s\<lparr>st_lastError := []\<rparr>, text))"

section \<open>Joining and splitting\<close>

lemma SplitLines_loop_split: "SplitLines_loop s = split_nl s"
proof (induction s rule: SplitLines_loop.induct)
  case (1 s)
  show ?case
  proof (cases "find_idx (\<lambda>c. c = newline) s")
    case None
    then have "newline \<notin> set s" by (auto simp: find_idx_None_iff)
    with None show ?thesis
      by (simp add: SplitLines_loop.simps [of s] split_nl_no_newline)
  next
    case (Some i)
    then have i: "i < length s" "s ! i = newline" "newline \<notin> set (take i s)"
      by (auto simp: find_idx_Some_iff in_set_conv_nth)
    then have "s = take i s @ newline # drop (i + 1) s"
      using id_take_nth_drop by fastforce
    then have "split_nl s = take i s # split_nl (drop (i + 1) s)"
      using split_nl_line [OF i(3)] by metis
    with 1 Some show ?thesis by (simp add: SplitLines_loop.simps [of s])
  qed
qed

lemma JoinLines_loop_more:
  "JoinLines_loop ls False result = result @ concat (map (\<lambda>l. newline # l) ls)"
  by (induction ls arbitrary: result) simp_all

lemma JoinLines_Cons: "JoinLines (l # ls) = l @ concat (map (\<lambda>l. newline # l) ls)"
  by (simp add: JoinLines_def JoinLines_loop_more)

lemma split_nl_joined:
  "newline \<notin> set l \<Longrightarrow> \<forall>x \<in> set ls. newline \<notin> set x \<Longrightarrow>
   split_nl (l @ concat (map (\<lambda>l. newline # l) ls)) = l # ls"
  by (induction ls arbitrary: l) (simp_all add: split_nl_no_newline split_nl_line)

lemma AnyContainsNewline_iff: "AnyContainsNewline ls \<longleftrightarrow> (\<exists>l \<in> set ls. newline \<in> set l)"
  by (auto simp: AnyContainsNewline_def list_ex_iff find_idx_None_iff)

lemma SplitLines_JoinLines:
  assumes "\<not> AnyContainsNewline ls" "ls \<noteq> [[]]"
  shows "SplitLines (JoinLines ls) = ls"
proof (cases ls)
  case Nil
  then show ?thesis by (simp add: SplitLines_def JoinLines_def)
next
  case (Cons l ls')
  have "JoinLines ls \<noteq> []"
    using assms(2) by (cases ls') (auto simp: Cons JoinLines_Cons)
  moreover have "split_nl (JoinLines ls) = ls"
    using assms(1) by (simp add: Cons JoinLines_Cons split_nl_joined AnyContainsNewline_iff)
  ultimately show ?thesis
    by (simp add: SplitLines_def SplitLines_loop_split)
qed

section \<open>Saving and loading\<close>

text \<open>A path list that comes back: not the one-element list of the empty path, and no white
  space at the end of its last path, which is the end of the line it is stored on.\<close>

definition storable :: "string list \<Rightarrow> bool" where
  "storable ls \<longleftrightarrow> ls \<noteq> [[]] \<and> (ls \<noteq> [] \<longrightarrow> safe_value (last ls))"

lemma safe_value_JoinLines: "storable ls \<Longrightarrow> safe_value (JoinLines ls)"
proof (cases ls rule: rev_cases)
  case (snoc xs x)
  moreover assume "storable ls"
  ultimately have x: "safe_value x" by (simp add: storable_def)
  show ?thesis
  proof (cases xs)
    case Nil
    with snoc x show ?thesis by (simp add: JoinLines_Cons)
  next
    case (Cons y ys)
    with snoc have "JoinLines ls = (y @ concat (map (\<lambda>l. newline # l) ys)) @ newline # x"
      by (simp add: JoinLines_Cons)
    with x show ?thesis by (cases x) (auto simp: safe_value_def last_append)
  qed
qed (simp add: JoinLines_def safe_value_def)

lemma ini_safe_SetString:
  "ini_safe ini \<Longrightarrow> safe_key k \<Longrightarrow> safe_value v \<Longrightarrow> ini_safe (SetString ini k v)"
  by (auto simp: ini_safe_def SetString_def)

lemma digit_no_space: "is_digit (last (to_string n))"
  using to_string_digits [of n] last_in_set [OF to_string_nonempty [of n]] by (simp add: list_all_iff)

lemma safe_value_int: "safe_value (int_to_string i)"
  using digit_no_space is_digit_not(1) by (auto simp: safe_value_def int_to_string_def)

lemma safe_keys:
  "safe_key ''SelectedRoots''" "safe_key ''ExcludedPaths''" "safe_key ''ReindexIntervalHours''"
  "safe_key ''UseRegex''" "safe_key ''CaseSensitive''" "safe_key ''WholeWord''"
  "safe_key ''MatchPath''" "safe_key ''IgnoreDiacritics''" "safe_key ''FirstRunComplete''"
  "safe_key ''LogLevel''"
  by (simp_all add: safe_key_def isspace_def)

lemma Settings_ini_safe:
  assumes "ini_safe ini" "storable (st_selectedRoots s)" "storable (st_excludedPaths s)"
  shows "ini_safe (Settings_ini s ini)"
proof -
  have "safe_value (if b then ''1'' else ''0'')" for b
    by (simp add: safe_value_def isspace_def)
  moreover have "safe_value (LogLevelName l)" for l
    using LogLevelName_plain by (simp add: safe_value_def)
  ultimately show ?thesis
    unfolding Settings_ini_def Let_def SetInt_def SetBool_def
    by (intro ini_safe_SetString assms(1) safe_keys safe_value_JoinLines assms(2,3) safe_value_int)
qed

definition managed_keys :: "string set" where
  "managed_keys = {''SelectedRoots'', ''ExcludedPaths'', ''ReindexIntervalHours'', ''UseRegex'',
     ''CaseSensitive'', ''WholeWord'', ''MatchPath'', ''IgnoreDiacritics'', ''FirstRunComplete'',
     ''LogLevel''}"

lemma Settings_ini_other: "k \<notin> managed_keys \<Longrightarrow> ini_values (Settings_ini s ini) k = ini_values ini k"
  by (simp add: managed_keys_def Settings_ini_def Let_def SetInt_def SetBool_def SetString_def)

lemma Settings_ini_get:
  "GetString (Settings_ini s ini) ''SelectedRoots'' = Some (JoinLines (st_selectedRoots s))"
  "GetString (Settings_ini s ini) ''ExcludedPaths'' = Some (JoinLines (st_excludedPaths s))"
  "Has (Settings_ini s ini) ''ExcludedPaths''"
  "GetString (Settings_ini s ini) ''LogLevel'' = Some (LogLevelName (st_logLevel s))"
  "GetBool (Settings_ini s ini) ''UseRegex'' False = st_useRegex s"
  "GetBool (Settings_ini s ini) ''CaseSensitive'' False = st_caseSensitive s"
  "GetBool (Settings_ini s ini) ''WholeWord'' False = st_wholeWord s"
  "GetBool (Settings_ini s ini) ''MatchPath'' False = st_matchPath s"
  "GetBool (Settings_ini s ini) ''IgnoreDiacritics'' False = st_ignoreDiacritics s"
  "GetBool (Settings_ini s ini) ''FirstRunComplete'' False = st_firstRunComplete s"
  "ini_values (Settings_ini s ini) ''ReindexIntervalHours'' =
     Some (int_to_string (st_reindexIntervalHours s))"
  by (simp_all add: Settings_ini_def Let_def SetInt_def SetBool_def SetString_def GetString_def
      GetBool_def Has_def)

lemma Settings_ini_finite:
  "finite (dom (ini_values ini)) \<Longrightarrow> finite (dom (ini_values (Settings_ini s ini)))"
  by (simp add: Settings_ini_def Let_def SetInt_def SetBool_def SetString_def)

text \<open>The fields that are stored.\<close>

definition same_settings :: "Settings \<Rightarrow> Settings \<Rightarrow> bool" where
  "same_settings a b \<longleftrightarrow>
     a\<lparr>st_configPath := st_configPath b, st_homeDir := st_homeDir b, st_lastError := st_lastError b\<rparr> = b"

lemma Settings_Load_ini:
  assumes "\<not> AnyContainsNewline (st_selectedRoots s)" "st_selectedRoots s \<noteq> [[]]"
    and "\<not> AnyContainsNewline (st_excludedPaths s)" "st_excludedPaths s \<noteq> [[]]"
    and "CollapseRedundantRoots rp (st_selectedRoots s) = st_selectedRoots s"
    and "- (2 ^ 31) \<le> st_reindexIntervalHours s" "st_reindexIntervalHours s < 2 ^ 31"
    and "Ini_Load f = (True, Settings_ini s ini)"
  shows "\<exists>t. Settings_Load rp f s0 = (True, t) \<and> same_settings t s"
  using assms
  by (simp add: Settings_Load_def Settings_ini_get value_or_def SplitLines_JoinLines GetInt_def
      stoi_int_to_string ParseLogLevel_Name same_settings_def)

section \<open>Properties\<close>

text \<open>Saved settings load back: a successful save followed by a load, by any object, gives
  every stored field its saved value, and every key of the file that the settings do not
  manage keeps its value. It needs the roots to be collapsed, as the setter leaves them, the
  interval to be an \<open>int\<close>, and both path lists to be storable.\<close>

lemma Settings_round_trip:
  assumes "Settings_Save ensure existing opened good order s = (True, s', Some out)"
    and "\<And>ini. finite (dom (ini_values ini)) \<Longrightarrow> set (order ini) = dom (ini_values ini)"
    and "storable (st_selectedRoots s)" "storable (st_excludedPaths s)"
    and "CollapseRedundantRoots rp (st_selectedRoots s) = st_selectedRoots s"
    and "- (2 ^ 31) \<le> st_reindexIntervalHours s" "st_reindexIntervalHours s < 2 ^ 31"
  shows "(\<exists>t. Settings_Load rp (FileText out) s0 = (True, t) \<and> same_settings t s) \<and>
    (\<forall>k. k \<notin> managed_keys \<longrightarrow>
       GetString (snd (Ini_Load (FileText out))) k = GetString (snd (Ini_Load existing)) k)"
proof -
  let ?ini = "Settings_ini s (snd (Ini_Load existing))"
  from assms(1) have nl: "\<not> AnyContainsNewline (st_selectedRoots s)"
    "\<not> AnyContainsNewline (st_excludedPaths s)"
    and sv: "Ini_Save opened good (order ?ini) ?ini = (True, Some out)"
    by (auto simp: Settings_Save_def Let_def split: if_splits prod.splits)
  then have out: "out = Ini_text (order ?ini) ?ini"
    by (auto simp: Ini_Save_def split: if_splits)
  have safe: "ini_safe ?ini"
    using assms(3,4) by (intro Settings_ini_safe Ini_Load_safe)
  have load: "Ini_Load (FileText out) = (True, ?ini)"
    unfolding out using safe assms(2) [OF Settings_ini_finite [OF Ini_Load_finite]]
    by (rule Ini_Load_text)
  have "\<exists>t. Settings_Load rp (FileText out) s0 = (True, t) \<and> same_settings t s"
    using nl assms(3-7) load by (intro Settings_Load_ini) (simp_all add: storable_def)
  with load show ?thesis by (simp add: GetString_def Settings_ini_other)
qed

definition sample_settings :: Settings where
  "sample_settings = (new_Settings ''/c/indexed.conf'' ''/home/u'')
     \<lparr>st_selectedRoots := [''/home'', ''/srv''], st_excludedPaths := [''/proc'', ''/home/u/.cache''],
      st_useRegex := True, st_logLevel := LevelDebug\<rparr>"

lemma Settings_round_trip_witness:
  "\<exists>out t. Settings_Save (\<lambda>p. True) (FileText ''Theme=dark'') True True
       (\<lambda>ini. sorted_list_of_set (dom (ini_values ini))) sample_settings = (True, sample_settings, Some out) \<and>
     Settings_Load (\<lambda>p. None) (FileText out) (new_Settings [] []) = (True, t) \<and>
     st_selectedRoots t = [''/home'', ''/srv''] \<and> st_logLevel t = LevelDebug"
proof -
  let ?order = "\<lambda>ini. sorted_list_of_set (dom (ini_values ini))"
  have nl: "\<not> AnyContainsNewline (st_selectedRoots sample_settings)"
    "\<not> AnyContainsNewline (st_excludedPaths sample_settings)"
    by (simp_all add: sample_settings_def AnyContainsNewline_iff)
  then obtain out where s: "Settings_Save (\<lambda>p. True) (FileText ''Theme=dark'') True True ?order
      sample_settings = (True, sample_settings, Some out)"
    by (simp add: Settings_Save_def Ini_Save_def Let_def) (simp add: sample_settings_def new_Settings_def)
  have st: "storable (st_selectedRoots sample_settings)" "storable (st_excludedPaths sample_settings)"
    by (simp_all add: sample_settings_def storable_def safe_value_def isspace_def)
  have "CollapseRedundantRoots (\<lambda>p. None) [''/home'', ''/srv''] = [''/home'', ''/srv'']"
    by code_simp
  then have col: "CollapseRedundantRoots (\<lambda>p. None) (st_selectedRoots sample_settings) =
      st_selectedRoots sample_settings"
    by (simp add: sample_settings_def)
  have "- (2 ^ 31) \<le> st_reindexIntervalHours sample_settings"
    "st_reindexIntervalHours sample_settings < 2 ^ 31"
    by (simp_all add: sample_settings_def new_Settings_def)
  from Settings_round_trip [OF s _ st col this, of "new_Settings [] []"] obtain t where
    t: "Settings_Load (\<lambda>p. None) (FileText out) (new_Settings [] []) = (True, t)"
    "same_settings t sample_settings"
    by auto
  then have "st_selectedRoots t = [''/home'', ''/srv'']" "st_logLevel t = LevelDebug"
    by (cases t; simp add: same_settings_def sample_settings_def new_Settings_def)+
  with s t show ?thesis by blast
qed

text \<open>The one list that is stored as another: a single empty path is read as no path.\<close>

lemma single_empty_path_lost: "SplitLines (JoinLines [[]]) = []"
  by (simp add: SplitLines_def JoinLines_def)

end
