(* ===== verification/Status_File.thy ===== *)
theory Status_File
  imports Text_Codec "HOL-Library.Sublist"
begin

text \<open>
  The status file between the helper and the window (\<open>indexer/StatusFile.{h,cpp}\<close>, the status
  types of \<open>indexer/Indexer.h\<close>): one \<open>key=value\<close> line per field, in a fixed order. The reader
  may see the file while it is being written; the theory shows that it then reads nothing
  rather than a partial record.
\<close>

section \<open>The status\<close>

datatype IndexerState = Idle | Scanning | LoadingIndex | WatchingForChanges | ErrorState

record IndexerStatus =
  ix_state :: IndexerState
  ix_message :: string
  ix_filesIndexed :: u64
  ix_skippedPaths :: "string list"
  ix_locations :: "string list"
  ix_indexAgeSeconds :: u64

definition default_status :: IndexerStatus where
  "default_status = \<lparr>ix_state = Idle, ix_message = [], ix_filesIndexed = 0, ix_skippedPaths = [],
     ix_locations = [], ix_indexAgeSeconds = 0\<rparr>"

section \<open>Writing\<close>

fun Escape :: "string \<Rightarrow> string" where
  "Escape [] = []"
| "Escape (c # cs) =
     (if c = CHR 0x5C then [CHR 0x5C, CHR 0x5C]
      else if c = newline then [CHR 0x5C, CHR ''n''] else [c]) @ Escape cs"

fun Unescape :: "string \<Rightarrow> string" where
  "Unescape [] = []"
| "Unescape [c] = [c]"
| "Unescape (c # d # cs) =
     (if c = CHR 0x5C then (if d = CHR ''n'' then newline else d) # Unescape cs
      else c # Unescape (d # cs))"

definition StateName :: "IndexerState \<Rightarrow> string" where
  "StateName state =
     (case state of
        Idle \<Rightarrow> ''Idle'' | Scanning \<Rightarrow> ''Scanning'' | LoadingIndex \<Rightarrow> ''LoadingIndex''
      | WatchingForChanges \<Rightarrow> ''WatchingForChanges'' | ErrorState \<Rightarrow> ''Error'')"

definition field_line :: "string \<Rightarrow> string \<Rightarrow> string" where
  "field_line key value = key @ CHR ''='' # value @ [newline]"

definition SerializeStatus :: "IndexerStatus \<Rightarrow> string" where
  "SerializeStatus status =
     field_line ''State'' (StateName (ix_state status)) @
     field_line ''Message'' (Escape (ix_message status)) @
     field_line ''FilesIndexed'' (to_string (unat (ix_filesIndexed status))) @
     field_line ''IndexAgeSeconds'' (to_string (unat (ix_indexAgeSeconds status))) @
     field_line ''LocationsCount'' (to_string (length (ix_locations status))) @
     concat (map (\<lambda>l. field_line ''Location'' (Escape l)) (ix_locations status)) @
     field_line ''SkippedCount'' (to_string (length (ix_skippedPaths status))) @
     concat (map (\<lambda>s. field_line ''Skipped'' (Escape s)) (ix_skippedPaths status))"

section \<open>Reading\<close>

definition ParseStateName :: "string \<Rightarrow> IndexerState option" where
  "ParseStateName name =
     (if name = ''Idle'' then Some Idle
      else if name = ''Scanning'' then Some Scanning
      else if name = ''LoadingIndex'' then Some LoadingIndex
      else if name = ''WatchingForChanges'' then Some WatchingForChanges
      else if name = ''Error'' then Some ErrorState
      else None)"

definition ParseUint64 :: "string \<Rightarrow> u64 option" where
  "ParseUint64 s = from_chars_u64 s"

text \<open>The splitting loop: \<open>None\<close> when bytes follow the last newline.\<close>

function Split_loop :: "string \<Rightarrow> string list option" where
  "Split_loop s =
     (case find_idx (\<lambda>c. c = newline) s of
        None \<Rightarrow> if s \<noteq> [] then None else Some []
      | Some nl \<Rightarrow> map_option (\<lambda>ls. take nl s # ls) (Split_loop (drop (nl + 1) s)))"
  by pat_completeness auto
termination
  by (relation "measure length") (auto simp: find_idx_Some_iff)

declare Split_loop.simps [simp del]

definition takeField :: "string list \<Rightarrow> nat \<Rightarrow> string \<Rightarrow> string option" where
  "takeField lines index key =
     (if index \<ge> length lines then None
      else let line = lines ! index
           in if length line < length key + 1 \<or> take (length key) line \<noteq> key \<or>
                 line ! length key \<noteq> CHR ''='' then None
              else Some (drop (length key + 1) line))"

fun takeFields :: "string list \<Rightarrow> nat \<Rightarrow> string \<Rightarrow> nat \<Rightarrow> string list option" where
  "takeFields lines idx key 0 = Some []"
| "takeFields lines idx key (Suc n) = do {
     v \<leftarrow> takeField lines idx key;
     vs \<leftarrow> takeFields lines (idx + 1) key n;
     Some (Unescape v # vs) }"

definition ParseStatus :: "string \<Rightarrow> IndexerStatus option" where
  "ParseStatus s = do {
     lines \<leftarrow> Split_loop s;
     stateField \<leftarrow> takeField lines 0 ''State'';
     state \<leftarrow> ParseStateName stateField;
     messageField \<leftarrow> takeField lines 1 ''Message'';
     filesField \<leftarrow> takeField lines 2 ''FilesIndexed'';
     filesIndexed \<leftarrow> ParseUint64 filesField;
     ageField \<leftarrow> takeField lines 3 ''IndexAgeSeconds'';
     age \<leftarrow> ParseUint64 ageField;
     locCountField \<leftarrow> takeField lines 4 ''LocationsCount'';
     locCount \<leftarrow> ParseUint64 locCountField;
     locations \<leftarrow> takeFields lines 5 ''Location'' (unat locCount);
     skipCountField \<leftarrow> takeField lines (5 + unat locCount) ''SkippedCount'';
     skipCount \<leftarrow> ParseUint64 skipCountField;
     skipped \<leftarrow> takeFields lines (6 + unat locCount) ''Skipped'' (unat skipCount);
     Some \<lparr>ix_state = state, ix_message = Unescape messageField, ix_filesIndexed = filesIndexed,
           ix_skippedPaths = skipped, ix_locations = locations, ix_indexAgeSeconds = age\<rparr> }"

section \<open>Lines and fields\<close>

lemma Unescape_plain: "c \<noteq> CHR 0x5C \<Longrightarrow> Unescape (c # s) = c # Unescape s"
  by (cases s) simp_all

lemma Unescape_Escape: "Unescape (Escape s) = s"
  by (induction s) (auto simp: Unescape_plain)

lemma Escape_line: "newline \<notin> set (Escape s)"
  by (induction s) auto

interpretation status_codec: line_codec Escape Unescape
  by unfold_locales (simp_all add: Unescape_Escape Escape_line)

lemma Split_loop_split:
  "Split_loop s = (if last (split_nl s) = [] then Some (butlast (split_nl s)) else None)"
proof (induction s rule: Split_loop.induct)
  case (1 s)
  show ?case
  proof (cases "find_idx (\<lambda>c. c = newline) s")
    case None
    then have "newline \<notin> set s" by (auto simp: find_idx_None_iff)
    with None show ?thesis by (simp add: Split_loop.simps [of s] split_nl_no_newline)
  next
    case (Some i)
    then have i: "i < length s" "s ! i = newline" "newline \<notin> set (take i s)"
      by (auto simp: find_idx_Some_iff in_set_conv_nth)
    then have "s = take i s @ newline # drop (i + 1) s"
      using id_take_nth_drop by fastforce
    then have "split_nl s = take i s # split_nl (drop (i + 1) s)"
      using split_nl_line [OF i(3)] by metis
    with 1 Some show ?thesis by (simp add: Split_loop.simps [of s])
  qed
qed

definition status_lines :: "IndexerStatus \<Rightarrow> string list" where
  "status_lines status =
     [''State='' @ StateName (ix_state status), ''Message='' @ Escape (ix_message status),
      ''FilesIndexed='' @ to_string (unat (ix_filesIndexed status)),
      ''IndexAgeSeconds='' @ to_string (unat (ix_indexAgeSeconds status)),
      ''LocationsCount='' @ to_string (length (ix_locations status))] @
     map (\<lambda>l. ''Location='' @ Escape l) (ix_locations status) @
     [''SkippedCount='' @ to_string (length (ix_skippedPaths status))] @
     map (\<lambda>s. ''Skipped='' @ Escape s) (ix_skippedPaths status)"

lemma SerializeStatus_lines: "SerializeStatus status = unlines (status_lines status)"
proof -
  have "concat (map (\<lambda>l. field_line key (Escape l)) ls) =
        unlines (map (\<lambda>l. key @ CHR ''='' # Escape l) ls)" for key ls
    by (induction ls) (simp_all add: field_line_def)
  then show ?thesis
    by (simp add: SerializeStatus_def status_lines_def) (simp add: field_line_def)
qed

lemma status_lines_no_newline: "\<forall>l \<in> set (status_lines status). newline \<notin> set l"
  by (auto simp: status_lines_def StateName_def Escape_line not_digit_in_to_string is_digit_not
      split: IndexerState.splits)

lemma takeField_line:
  "index < length lines \<Longrightarrow> lines ! index = key @ CHR ''='' # v \<Longrightarrow> takeField lines index key = Some v"
  by (simp add: takeField_def nth_append)

lemma takeFields_lines:
  "idx + length vs \<le> length lines \<Longrightarrow>
   \<forall>i < length vs. lines ! (idx + i) = key @ CHR ''='' # Escape (vs ! i) \<Longrightarrow>
   takeFields lines idx key (length vs) = Some vs"
proof (induction vs arbitrary: idx)
  case Nil
  then show ?case by simp
next
  case (Cons v vs)
  have "lines ! idx = key @ CHR ''='' # Escape v"
    using Cons.prems(2) by (metis add_0_right length_greater_0_conv list.simps(3) nth_Cons_0)
  then have "takeField lines idx key = Some (Escape v)"
    using Cons.prems(1) by (intro takeField_line) simp_all
  moreover have "\<forall>i < length vs. lines ! (Suc idx + i) = key @ CHR ''='' # Escape (vs ! i)"
    using Cons.prems(2) by (metis Suc_less_eq add_Suc add_Suc_right length_Cons nth_Cons_Suc)
  ultimately show ?case
    using Cons.IH [of "Suc idx"] Cons.prems(1) by (simp add: Unescape_Escape)
qed

lemma takeField_Some: "takeField lines index key = Some v \<Longrightarrow> index < length lines"
  by (auto simp: takeField_def split: if_splits)

lemma ParseStateName_Name [simp]: "ParseStateName (StateName s) = Some s"
  by (cases s) (simp_all add: ParseStateName_def StateName_def)

section \<open>The whole record\<close>

definition parse_lines :: "string list \<Rightarrow> IndexerStatus option" where
  "parse_lines lines = do {
     stateField \<leftarrow> takeField lines 0 ''State'';
     state \<leftarrow> ParseStateName stateField;
     messageField \<leftarrow> takeField lines 1 ''Message'';
     filesField \<leftarrow> takeField lines 2 ''FilesIndexed'';
     filesIndexed \<leftarrow> ParseUint64 filesField;
     ageField \<leftarrow> takeField lines 3 ''IndexAgeSeconds'';
     age \<leftarrow> ParseUint64 ageField;
     locCountField \<leftarrow> takeField lines 4 ''LocationsCount'';
     locCount \<leftarrow> ParseUint64 locCountField;
     locations \<leftarrow> takeFields lines 5 ''Location'' (unat locCount);
     skipCountField \<leftarrow> takeField lines (5 + unat locCount) ''SkippedCount'';
     skipCount \<leftarrow> ParseUint64 skipCountField;
     skipped \<leftarrow> takeFields lines (6 + unat locCount) ''Skipped'' (unat skipCount);
     Some \<lparr>ix_state = state, ix_message = Unescape messageField, ix_filesIndexed = filesIndexed,
           ix_skippedPaths = skipped, ix_locations = locations, ix_indexAgeSeconds = age\<rparr> }"

lemma ParseStatus_parse_lines: "ParseStatus s = Option.bind (Split_loop s) parse_lines"
  unfolding ParseStatus_def parse_lines_def [abs_def] by (rule refl)

definition status_fits :: "IndexerStatus \<Rightarrow> bool" where
  "status_fits status \<longleftrightarrow>
     length (ix_locations status) < 2 ^ 64 \<and> length (ix_skippedPaths status) < 2 ^ 64"

lemma parse_status_lines:
  assumes "status_fits status"
  shows "parse_lines (status_lines status) = Some status"
proof -
  let ?L = "status_lines status" and ?n = "length (ix_locations status)"
    and ?m = "length (ix_skippedPaths status)"
  have len: "length ?L = 6 + ?n + ?m"
    by (simp add: status_lines_def)
  have heads: "takeField ?L 0 ''State'' = Some (StateName (ix_state status))"
    "takeField ?L 1 ''Message'' = Some (Escape (ix_message status))"
    "takeField ?L 2 ''FilesIndexed'' = Some (to_string (unat (ix_filesIndexed status)))"
    "takeField ?L 3 ''IndexAgeSeconds'' = Some (to_string (unat (ix_indexAgeSeconds status)))"
    "takeField ?L 4 ''LocationsCount'' = Some (to_string ?n)"
    by (rule takeField_line; simp add: status_lines_def)+
  have locs: "takeFields ?L 5 ''Location'' ?n = Some (ix_locations status)"
    using len by (intro takeFields_lines) (simp_all add: status_lines_def nth_append)
  have skc: "takeField ?L (5 + ?n) ''SkippedCount'' = Some (to_string ?m)"
    using len by (intro takeField_line) (simp_all add: status_lines_def nth_append)
  have skips: "takeFields ?L (6 + ?n) ''Skipped'' ?m = Some (ix_skippedPaths status)"
    using len by (intro takeFields_lines) (simp_all add: status_lines_def nth_append)
  have nums: "from_chars_u64 (to_string ?n) = Some (word_of_nat ?n)"
    "from_chars_u64 (to_string ?m) = Some (word_of_nat ?m)"
    using assms by (simp_all add: from_chars_u64_def status_fits_def)
  show ?thesis
    using heads locs skc skips nums assms
    by (simp add: parse_lines_def ParseUint64_def Unescape_Escape status_fits_def)
qed

lemma takeFields_Some:
  "takeFields lines idx key n = Some vs \<Longrightarrow> length vs = n \<and> (0 < n \<longrightarrow> idx + n \<le> length lines)"
proof (induction n arbitrary: idx vs)
  case 0
  then show ?case by simp
next
  case (Suc n)
  then obtain v ws where "takeField lines idx key = Some v" "takeFields lines (Suc idx) key n = Some ws"
    "vs = Unescape v # ws"
    by (auto simp: bind_eq_Some_conv)
  with Suc.IH [of "Suc idx" ws] takeField_Some [of lines idx key v] show ?case
    by (cases n) auto
qed

lemma takeField_take: "takeField (take k L) i key = Some v \<Longrightarrow> takeField L i key = Some v"
  by (auto simp: takeField_def split: if_splits)

lemma takeFields_take:
  "takeFields (take k L) idx key n = Some vs \<Longrightarrow> takeFields L idx key n = Some vs"
proof (induction n arbitrary: idx vs)
  case (Suc n)
  then show ?case by (fastforce simp: bind_eq_Some_conv dest: takeField_take)
qed simp

lemma parse_lines_take:
  assumes "parse_lines (take k L) = Some t"
  shows "parse_lines L = Some t" "6 + length (ix_locations t) + length (ix_skippedPaths t) \<le> k"
proof -
  from assms obtain sf st mf ff fi af ag lc n ls sc m ss where
    reads: "takeField (take k L) 0 ''State'' = Some sf" "ParseStateName sf = Some st"
      "takeField (take k L) 1 ''Message'' = Some mf"
      "takeField (take k L) 2 ''FilesIndexed'' = Some ff" "ParseUint64 ff = Some fi"
      "takeField (take k L) 3 ''IndexAgeSeconds'' = Some af" "ParseUint64 af = Some ag"
      "takeField (take k L) 4 ''LocationsCount'' = Some lc" "ParseUint64 lc = Some n"
      "takeFields (take k L) 5 ''Location'' (unat n) = Some ls"
      "takeField (take k L) (5 + unat n) ''SkippedCount'' = Some sc" "ParseUint64 sc = Some m"
      "takeFields (take k L) (6 + unat n) ''Skipped'' (unat m) = Some ss"
    and t: "t = \<lparr>ix_state = st, ix_message = Unescape mf, ix_filesIndexed = fi,
           ix_skippedPaths = ss, ix_locations = ls, ix_indexAgeSeconds = ag\<rparr>"
    unfolding parse_lines_def
    by (elim bind_SomeE) (rule that, assumption+, simp)
  note full = reads(1,3,4,6,8,11) [THEN takeField_take] reads(10,13) [THEN takeFields_take]
  show "parse_lines L = Some t"
    using full reads(2,5,7,9,12) by (simp add: parse_lines_def t)
  show "6 + length (ix_locations t) + length (ix_skippedPaths t) \<le> k"
    using t takeFields_Some [OF reads(10)] takeFields_Some [OF reads(13)]
      takeField_Some [OF reads(11)] by (cases "unat m") auto
qed

lemma split_nl_unlines_append:
  "\<forall>l \<in> set ls. newline \<notin> set l \<Longrightarrow> split_nl (unlines ls @ d) = ls @ split_nl d"
  by (induction ls) (simp_all add: split_nl_line)

lemma Split_loop_prefix:
  assumes "\<forall>l \<in> set L. newline \<notin> set l" "strict_prefix b (unlines L)" "Split_loop b = Some ls"
  shows "\<exists>k < length L. ls = take k L"
proof -
  from assms(3) have ls: "ls = butlast (split_nl b)" "last (split_nl b) = []"
    by (auto simp: Split_loop_split split: if_splits)
  then have b: "b = unlines ls" and nn: "\<forall>l \<in> set ls. newline \<notin> set l"
    using split_nl_join [of b] split_nl_pieces [of b] by (auto dest: in_set_butlastD)
  obtain d where d: "unlines L = unlines ls @ d"
    using assms(2) b by (auto simp: strict_prefix_def prefix_def)
  have "L @ [[]] = ls @ split_nl d"
    using split_nl_unlines [OF assms(1), of "[]"] split_nl_unlines_append [OF nn, of d] d by simp
  then have "L = ls @ butlast (split_nl d)"
    by (metis butlast_append butlast_snoc split_nl_nonempty)
  moreover have "L \<noteq> ls"
    using assms(2) b by (auto simp: strict_prefix_def)
  ultimately have "L = ls @ butlast (split_nl d)" "butlast (split_nl d) \<noteq> []"
    by auto
  moreover from this have "length ls < length L"
    by (metis append_eq_append_conv_if length_append length_greater_0_conv less_add_same_cancel1)
  ultimately show ?thesis
    by (intro exI [of _ "length ls"]) (metis append_eq_conv_conj)
qed

section \<open>Properties\<close>

text \<open>The window reads back the status the helper wrote, with newlines and backslashes in
  the message and the paths intact.\<close>

lemma ParseStatus_Serialize:
  assumes "status_fits status"
  shows "ParseStatus (SerializeStatus status) = Some status"
proof -
  have "Split_loop (SerializeStatus status) = Some (status_lines status)"
    using split_nl_unlines [OF status_lines_no_newline [of status], of "[]"]
    by (simp add: Split_loop_split SerializeStatus_lines)
  with assms show ?thesis by (simp add: ParseStatus_parse_lines parse_status_lines)
qed

definition sample_status :: IndexerStatus where
  "sample_status = \<lparr>ix_state = Scanning, ix_message = [CHR ''a'', newline, CHR 0x5C],
     ix_filesIndexed = 7, ix_skippedPaths = [''/x''], ix_locations = [''/home'', ''/srv''],
     ix_indexAgeSeconds = 3\<rparr>"

lemma ParseStatus_Serialize_witness:
  "ParseStatus (SerializeStatus sample_status) = Some sample_status"
  by (rule ParseStatus_Serialize) (simp add: status_fits_def sample_status_def)

text \<open>C18: A torn read is never mistaken for a status: every strict prefix of a written status
  file, cut inside a line or between two lines, parses as nothing.\<close>

theorem ParseStatus_torn:
  assumes "status_fits status" "strict_prefix b (SerializeStatus status)"
  shows "ParseStatus b = None"
proof (rule ccontr)
  assume "ParseStatus b \<noteq> None"
  then obtain ls t where ls: "Split_loop b = Some ls" "parse_lines ls = Some t"
    by (auto simp: ParseStatus_parse_lines bind_eq_Some_conv)
  obtain k where k: "k < length (status_lines status)" "ls = take k (status_lines status)"
    using Split_loop_prefix [OF status_lines_no_newline _ ls(1)] assms(2)
    by (auto simp: SerializeStatus_lines)
  with parse_lines_take [of k "status_lines status" t] ls(2) parse_status_lines [OF assms(1)]
  have "6 + length (ix_locations status) + length (ix_skippedPaths status) \<le> k"
    by auto
  with k(1) show False by (simp add: status_lines_def)
qed

theorem ParseStatus_torn_witness:
  "ParseStatus (field_line ''State'' ''Scanning'') = None"
proof (rule ParseStatus_torn)
  show "status_fits sample_status"
    by (simp add: status_fits_def sample_status_def)
  show "strict_prefix (field_line ''State'' ''Scanning'') (SerializeStatus sample_status)"
    by (simp add: SerializeStatus_def sample_status_def StateName_def field_line_def)
qed

end
