(* ===== verification/Save_Throttle.thy ===== *)
theory Save_Throttle
  imports Prelude
begin

text \<open>
  When live changes are written to disk (\<open>indexer/SaveThrottle.{h,cpp}\<close>): times are 64-bit
  nanosecond counts passed in by the caller, and their arithmetic wraps as in the code. The
  atomic flag is a field: every access of the code is one atomic step.
\<close>

record SaveThrottle =
  th_dirty :: bool
  th_minIntervalNs :: u64
  th_intervalNs :: u64
  th_lastSaveNs :: u64

definition new_SaveThrottle :: "u64 \<Rightarrow> u64 \<Rightarrow> SaveThrottle" where
  "new_SaveThrottle minIntervalNs nowNs =
     \<lparr>th_dirty = False, th_minIntervalNs = minIntervalNs, th_intervalNs = minIntervalNs,
      th_lastSaveNs = nowNs\<rparr>"

definition MarkDirty :: "SaveThrottle \<Rightarrow> SaveThrottle" where
  "MarkDirty t = t\<lparr>th_dirty := True\<rparr>"

definition ShouldSave :: "u64 \<Rightarrow> SaveThrottle \<Rightarrow> bool \<times> SaveThrottle" where
  "ShouldSave nowNs t =
     (if \<not> th_dirty t \<or> nowNs - th_lastSaveNs t < th_intervalNs t then (False, t)
      else (True, t\<lparr>th_dirty := False, th_lastSaveNs := nowNs\<rparr>))"

definition HasPendingChanges :: "SaveThrottle \<Rightarrow> bool" where
  "HasPendingChanges t = th_dirty t"

definition RecordSaveDuration :: "u64 \<Rightarrow> SaveThrottle \<Rightarrow> SaveThrottle" where
  "RecordSaveDuration durationNs t =
     t\<lparr>th_intervalNs := max (th_minIntervalNs t) (durationNs * 5),
       th_lastSaveNs := th_lastSaveNs t + durationNs\<rparr>"

definition MarkSaved :: "u64 \<Rightarrow> SaveThrottle \<Rightarrow> SaveThrottle" where
  "MarkSaved nowNs t = t\<lparr>th_dirty := False, th_lastSaveNs := nowNs\<rparr>"

section \<open>Reachable throttles\<close>

text \<open>The calls of the helper, in any order, and what each \<open>ShouldSave\<close> answered.\<close>

datatype ThrottleCall =
    CallMarkDirty
  | CallShouldSave u64
  | CallRecordSaveDuration u64
  | CallMarkSaved u64

fun call :: "ThrottleCall \<Rightarrow> SaveThrottle \<Rightarrow> SaveThrottle" where
  "call CallMarkDirty t = MarkDirty t"
| "call (CallShouldSave now) t = snd (ShouldSave now t)"
| "call (CallRecordSaveDuration d) t = RecordSaveDuration d t"
| "call (CallMarkSaved now) t = MarkSaved now t"

definition throttle_inv :: "SaveThrottle \<Rightarrow> bool" where
  "throttle_inv t \<longleftrightarrow> th_minIntervalNs t \<le> th_intervalNs t"

lemma call_inv: "throttle_inv t \<Longrightarrow> throttle_inv (call c t) \<and> th_minIntervalNs (call c t) = th_minIntervalNs t"
  by (cases c) (auto simp: throttle_inv_def MarkDirty_def ShouldSave_def RecordSaveDuration_def
      MarkSaved_def)

lemma calls_inv:
  "throttle_inv t \<Longrightarrow> throttle_inv (fold call cs t) \<and> th_minIntervalNs (fold call cs t) = th_minIntervalNs t"
  by (induction cs arbitrary: t) (simp_all add: call_inv)

lemma new_inv [simp]: "throttle_inv (new_SaveThrottle m n)"
  by (simp add: throttle_inv_def new_SaveThrottle_def)

lemma new_min: "th_minIntervalNs (new_SaveThrottle m n) = m"
  by (simp add: new_SaveThrottle_def)

lemma marks_dirty:
  "(call CallMarkDirty ^^ n) t = (if n = 0 then t else t\<lparr>th_dirty := True\<rparr>)"
  by (induction n) (auto simp: MarkDirty_def)

section \<open>Properties\<close>

text \<open>However the throttle was used before, a save happens only for a change that is waiting,
  it clears that change, and for the next minimum interval no number of further changes
  makes another save due; a change that is waiting becomes due once the current interval
  has passed.\<close>

lemma throttle_rate:
  assumes "t = fold call cs (new_SaveThrottle minIntervalNs start)"
  shows "(\<forall>nowNs t'. ShouldSave nowNs t = (True, t') \<longrightarrow>
            HasPendingChanges t \<and> \<not> HasPendingChanges t' \<and>
            (\<forall>later n. later - nowNs < minIntervalNs \<longrightarrow>
               fst (ShouldSave later (fold call (replicate n CallMarkDirty) t')) = False)) \<and>
         (\<forall>nowNs. HasPendingChanges t \<and> th_intervalNs t \<le> nowNs - th_lastSaveNs t \<longrightarrow>
            fst (ShouldSave nowNs t))"
proof -
  have inv: "minIntervalNs \<le> th_intervalNs t"
    using calls_inv [OF new_inv, of cs minIntervalNs start] assms
    unfolding throttle_inv_def new_min by metis
  show ?thesis
    using inv
    by (auto simp: ShouldSave_def HasPendingChanges_def marks_dirty split: if_splits
        dest: less_le_trans)
qed

lemma throttle_rate_witness:
  "fst (ShouldSave 100 (MarkDirty (new_SaveThrottle 60 0))) \<and>
   \<not> fst (ShouldSave 130 (MarkDirty (snd (ShouldSave 100 (MarkDirty (new_SaveThrottle 60 0))))))"
proof -
  define t where "t = fold call [CallMarkDirty] (new_SaveThrottle 60 0)"
  have save: "ShouldSave 100 t = (True, t\<lparr>th_dirty := False, th_lastSaveNs := 100\<rparr>)"
    by (simp add: t_def ShouldSave_def MarkDirty_def new_SaveThrottle_def)
  have "fst (ShouldSave later (fold call (replicate n CallMarkDirty)
      (t\<lparr>th_dirty := False, th_lastSaveNs := 100\<rparr>))) = False" if "later - 100 < 60" for later n
    using throttle_rate [OF t_def] save that by blast
  from this [of 130 1] have "\<not> fst (ShouldSave 130 (MarkDirty (t\<lparr>th_dirty := False, th_lastSaveNs := 100\<rparr>)))"
    by simp
  with save show ?thesis by (simp add: t_def)
qed

text \<open>A clock that steps back looks like a very long wait: the difference wraps.\<close>

lemma clock_step_back_saves:
  "fst (ShouldSave 999 (MarkDirty (new_SaveThrottle 60000 1000)))"
  by (simp add: ShouldSave_def MarkDirty_def new_SaveThrottle_def)

end
