(* ===== verification/Mount_Enumerator.thy ===== *)
theory Mount_Enumerator
  imports Text_Codec
begin

text \<open>
  Mounts (\<open>platform/MountEnumerator.{h,cpp}\<close>): the parser of \<open>/proc/self/mountinfo\<close>, the
  classification of file systems, and whether a block device is removable. The text of the
  file, libblkid's labels and \<open>/sys/block\<close> are parameters. The theory shows that the parser
  inverts the kernel's format, and that a partition is traced to its disk.
\<close>

record MountInfo =
  mi_mountPoint :: string
  mi_device :: string
  mi_fsType :: string
  mi_label :: string
  mi_removable :: bool
  mi_isNetwork :: bool

text \<open>\<open>IDeviceInfoResolver\<close>.\<close>

record Resolver =
  rv_label :: "string \<Rightarrow> string"
  rv_removable :: "string \<Rightarrow> bool"

definition PseudoFsTypes :: "string list" where
  "PseudoFsTypes =
     [''proc'', ''sysfs'', ''devtmpfs'', ''devpts'', ''tmpfs'', ''cgroup'',
      ''cgroup2'', ''run'', ''rpc_pipefs'', ''securityfs'', ''pstore'', ''efivarfs'',
      ''bpf'', ''configfs'', ''debugfs'', ''tracefs'', ''mqueue'', ''fusectl'',
      ''autofs'', ''selinuxfs'', ''binfmt_misc'', ''hugetlbfs'', ''ramfs'', ''nsfs'']"

definition NetworkFsTypes :: "string list" where
  "NetworkFsTypes = [''nfs'', ''nfs4'', ''cifs'', ''smb'', ''sshfs'', ''fuse.sshfs'']"

definition IsPseudoFsType :: "string \<Rightarrow> bool" where
  "IsPseudoFsType fsType \<longleftrightarrow> fsType \<in> set PseudoFsTypes"

definition IsNetworkFsType :: "string \<Rightarrow> bool" where
  "IsNetworkFsType fsType \<longleftrightarrow> fsType \<in> set NetworkFsTypes"

section \<open>The parser\<close>

abbreviation backslash :: char where "backslash \<equiv> CHR 0x5C"

fun DecodeMountinfoEscapes :: "string \<Rightarrow> string" where
  "DecodeMountinfoEscapes (c # d1 # d2 # d3 # rest) =
     (if c = backslash \<and> is_digit d1 \<and> is_digit d2 \<and> is_digit d3
      then char_of (digit_value d1 * 64 + digit_value d2 * 8 + digit_value d3) #
           DecodeMountinfoEscapes rest
      else c # DecodeMountinfoEscapes (d1 # d2 # d3 # rest))"
| "DecodeMountinfoEscapes (c # cs) = c # DecodeMountinfoEscapes cs"
| "DecodeMountinfoEscapes [] = []"

text \<open>The words \<open>iss >> field\<close> reads: what stands between white space.\<close>

fun split_ws :: "string \<Rightarrow> string \<Rightarrow> string list" where
  "split_ws cur [] = (if cur = [] then [] else [cur])"
| "split_ws cur (c # cs) =
     (if isspace c then (if cur = [] then split_ws [] cs else cur # split_ws [] cs)
      else split_ws (cur @ [c]) cs)"

fun find_from :: "'a \<Rightarrow> 'a list \<Rightarrow> nat option" where
  "find_from x [] = None"
| "find_from x (y # ys) = (if y = x then Some 0 else map_option Suc (find_from x ys))"

definition ParseMountInfoLine :: "string \<Rightarrow> MountInfo option" where
  "ParseMountInfoLine line =
     (let fields = split_ws [] line
      in if length fields < 6 then None
         else case find_from ''-'' (drop 6 fields) of
           None \<Rightarrow> None
         | Some k \<Rightarrow>
             let dashIndex = 6 + k
             in if dashIndex + 2 \<ge> length fields then None
                else Some \<lparr>mi_mountPoint = DecodeMountinfoEscapes (fields ! 4),
                  mi_device = DecodeMountinfoEscapes (fields ! (dashIndex + 2)),
                  mi_fsType = fields ! (dashIndex + 1),
                  mi_label = [], mi_removable = False, mi_isNetwork = False\<rparr>)"

fun ParseMountInfo_lines :: "Resolver option \<Rightarrow> string list \<Rightarrow> MountInfo list" where
  "ParseMountInfo_lines resolver [] = []"
| "ParseMountInfo_lines resolver (line # ls) =
     (if line = [] then ParseMountInfo_lines resolver ls
      else case ParseMountInfoLine line of
        None \<Rightarrow> ParseMountInfo_lines resolver ls
      | Some info \<Rightarrow>
          if IsPseudoFsType (mi_fsType info) then ParseMountInfo_lines resolver ls
          else
            let info = info\<lparr>mi_isNetwork := IsNetworkFsType (mi_fsType info)\<rparr>;
                info = (case resolver of None \<Rightarrow> info
                        | Some r \<Rightarrow> info\<lparr>mi_label := rv_label r (mi_device info),
                                        mi_removable := rv_removable r (mi_device info)\<rparr>)
            in info # ParseMountInfo_lines resolver ls)"

text \<open>\<open>getline\<close> gives the pieces between newlines; empty ones are skipped.\<close>

definition ParseMountInfo :: "Resolver option \<Rightarrow> string \<Rightarrow> MountInfo list" where
  "ParseMountInfo resolver content = ParseMountInfo_lines resolver (split_nl content)"

text \<open>\<open>None\<close>: the file cannot be opened.\<close>

definition Enumerate :: "Resolver option \<Rightarrow> string option \<Rightarrow> MountInfo list" where
  "Enumerate resolver mountinfo =
     (case mountinfo of None \<Rightarrow> [] | Some content \<Rightarrow> ParseMountInfo resolver content)"

text \<open>\<open>poll\<close> gives its return value and the bits it saw; \<open>POLLPRI\<close> is bit 1.\<close>

definition WaitForChange :: "(int \<Rightarrow> int \<Rightarrow> int \<times> u16) \<Rightarrow> int \<Rightarrow> int \<Rightarrow> bool" where
  "WaitForChange poll fd timeoutMs =
     (if fd < 0 then False
      else let (ret, revents) = poll fd timeoutMs
           in if ret \<le> 0 then False else bit revents 1)"

section \<open>Removable devices\<close>

fun skip_digits :: "string \<Rightarrow> nat \<Rightarrow> nat" where
  "skip_digits name 0 = 0"
| "skip_digits name (Suc e) = (if is_digit (name ! e) then skip_digits name e else Suc e)"

definition StripPartitionSuffix :: "string \<Rightarrow> string" where
  "StripPartitionSuffix name =
     (let e = skip_digits name (length name)
      in if e = length name then []
         else
           let e = (if e > 0 \<and> name ! (e - 1) = CHR ''p'' then
                      let withoutP = e - 1
                      in if withoutP > 0 \<and> is_digit (name ! (withoutP - 1)) then withoutP else e
                    else e)
           in take e name)"

text \<open>\<open>sys name\<close>: the number in \<open>/sys/block/name/removable\<close> (0 when it does not hold one), or
  \<open>None\<close> when the file is not there.\<close>

definition ReadSysBlockRemovable :: "(string \<Rightarrow> int option) \<Rightarrow> string \<Rightarrow> bool" where
  "ReadSysBlockRemovable sys blockName =
     (case sys blockName of None \<Rightarrow> False | Some value \<Rightarrow> value \<noteq> 0)"

definition SysBlockEntryExists :: "(string \<Rightarrow> int option) \<Rightarrow> string \<Rightarrow> bool" where
  "SysBlockEntryExists sys blockName \<longleftrightarrow> sys blockName \<noteq> None"

definition ResolveRemovable :: "(string \<Rightarrow> int option) \<Rightarrow> string \<Rightarrow> bool" where
  "ResolveRemovable sys device =
     (let kDevPrefix = ''/dev/''
      in if take (length kDevPrefix) device \<noteq> kDevPrefix then False
         else
           let name = drop (length kDevPrefix) device
           in if name = [] then False
              else if SysBlockEntryExists sys name then ReadSysBlockRemovable sys name
              else
                let parent = StripPartitionSuffix name
                in if parent = [] \<or> \<not> SysBlockEntryExists sys parent then False
                   else ReadSysBlockRemovable sys parent)"

text \<open>libblkid's answer, empty when there is none.\<close>

definition ResolveLabel :: "(string \<Rightarrow> string option) \<Rightarrow> string \<Rightarrow> string" where
  "ResolveLabel blkid device = (case blkid device of None \<Rightarrow> [] | Some value \<Rightarrow> value)"

section \<open>The kernel's format\<close>

text \<open>How the kernel writes a path: the special characters as three octal digits.\<close>

definition octal3 :: "nat \<Rightarrow> string" where
  "octal3 n = [digit (n div 64), digit (n div 8 mod 8), digit (n mod 8)]"

definition mangle :: "string \<Rightarrow> string" where
  "mangle s = concat (map (\<lambda>c. if c \<in> {CHR '' '', CHR 0x09, newline, backslash}
                              then backslash # octal3 (of_char c) else [c]) s)"

lemma mangle_simps [simp]:
  "mangle [] = []"
  "mangle (c # s) = (if c \<in> {CHR '' '', CHR 0x09, newline, backslash}
                     then backslash # octal3 (of_char c) else [c]) @ mangle s"
  by (simp_all add: mangle_def)

lemma Decode_plain: "c \<noteq> backslash \<Longrightarrow> DecodeMountinfoEscapes (c # s) = c # DecodeMountinfoEscapes s"
  by (cases "c # s" rule: DecodeMountinfoEscapes.cases) simp_all

lemma octal_value: "(n div 64) * 64 + (n div 8 mod 8) * 8 + n mod 8 = (n :: nat)"
proof -
  have "n div 64 = n div 8 div 8" by (simp add: div_mult2_eq [symmetric])
  then show ?thesis
    using div_mult_mod_eq [of "n div 8" 8] div_mult_mod_eq [of n 8] by linarith
qed

lemma Decode_octal:
  "DecodeMountinfoEscapes (backslash # octal3 (of_char c) @ s) = c # DecodeMountinfoEscapes s"
proof -
  let ?n = "of_char c :: nat"
  have "?n < 256" by simp
  then have "?n div 64 < 10" "?n div 8 mod 8 < 10" "?n mod 8 < 10" by linarith+
  moreover have "(?n div 64) * 64 + (?n div 8 mod 8) * 8 + ?n mod 8 = ?n"
    by (rule octal_value)
  ultimately show ?thesis by (simp add: octal3_def)
qed

lemma octal3_chars: "n < 256 \<Longrightarrow> x \<in> set (octal3 n) \<Longrightarrow> is_digit x"
proof -
  assume "n < 256" "x \<in> set (octal3 n)"
  moreover from this(1) have "n div 64 < 10" "n div 8 mod 8 < 10" "n mod 8 < 10" by linarith+
  ultimately show "is_digit x" by (auto simp: octal3_def)
qed

lemma mangle_chars:
  "x \<in> set (mangle s) \<Longrightarrow>
   is_digit x \<or> x = backslash \<or> (x \<in> set s \<and> x \<notin> {CHR '' '', CHR 0x09, newline})"
  by (induction s) (auto dest: octal3_chars [rotated] split: if_splits)

interpretation mountinfo_codec: line_codec mangle DecodeMountinfoEscapes
proof unfold_locales
  fix s
  show "DecodeMountinfoEscapes (mangle s) = s"
    by (induction s) (auto simp: Decode_plain Decode_octal)
  show "newline \<notin> set (mangle s)"
    using mangle_chars [of newline s] is_digit_not by auto
qed

text \<open>One line: \<open>ID parent major:minor root mount-point options [tag...] - type source super\<close>.\<close>

record KernelMount =
  km_head :: "string list"
  km_root :: string
  km_mountPoint :: string
  km_options :: string
  km_tags :: "string list"
  km_fsType :: string
  km_source :: string
  km_super :: string

definition mount_fields :: "KernelMount \<Rightarrow> string list" where
  "mount_fields m = km_head m @ [mangle (km_root m), mangle (km_mountPoint m), km_options m] @
     km_tags m @ [''-'', km_fsType m, mangle (km_source m), km_super m]"

fun join_fields :: "string list \<Rightarrow> string" where
  "join_fields [] = []"
| "join_fields [f] = f"
| "join_fields (f # g # fs) = f @ CHR '' '' # join_fields (g # fs)"

definition plain_field :: "string \<Rightarrow> bool" where
  "plain_field f \<longleftrightarrow> f \<noteq> [] \<and> (\<forall>c \<in> set f. \<not> isspace c)"

text \<open>The kernel does not escape vertical tab, form feed and carriage return, which the stream
  takes for white space: a path with one of them is outside what the parser can read.\<close>

definition plain_path :: "string \<Rightarrow> bool" where
  "plain_path f \<longleftrightarrow> f \<noteq> [] \<and> (\<forall>c \<in> set f. isspace c \<longrightarrow> c \<in> {CHR '' '', CHR 0x09, newline})"

definition wf_mount :: "KernelMount \<Rightarrow> bool" where
  "wf_mount m \<longleftrightarrow> length (km_head m) = 3 \<and> list_all plain_field (km_head m) \<and>
     plain_path (km_root m) \<and> plain_path (km_mountPoint m) \<and> plain_path (km_source m) \<and>
     plain_field (km_options m) \<and> plain_field (km_fsType m) \<and> plain_field (km_super m) \<and>
     list_all (\<lambda>t. plain_field t \<and> t \<noteq> ''-'') (km_tags m)"

lemma split_ws_word:
  "\<forall>c \<in> set w. \<not> isspace c \<Longrightarrow> cur @ w \<noteq> [] \<Longrightarrow>
   split_ws cur (w @ CHR '' '' # s) = (cur @ w) # split_ws [] s"
proof (induction w arbitrary: cur)
  case Nil
  moreover have "isspace (CHR '' '')" by (simp add: isspace_def)
  ultimately show ?case by simp
qed simp

lemma split_ws_last: "\<forall>c \<in> set w. \<not> isspace c \<Longrightarrow> cur @ w \<noteq> [] \<Longrightarrow> split_ws cur w = [cur @ w]"
  by (induction w arbitrary: cur) simp_all

lemma split_ws_join: "list_all plain_field fs \<Longrightarrow> split_ws [] (join_fields fs) = fs"
  by (induction fs rule: join_fields.induct)
    (simp_all add: plain_field_def split_ws_word split_ws_last)

lemma mangle_plain: "plain_path p \<Longrightarrow> plain_field (mangle p)"
proof -
  assume p: "plain_path p"
  then have "mangle p \<noteq> []" by (cases p) (auto simp: plain_path_def)
  moreover have "\<not> isspace c" if c: "c \<in> set (mangle p)" for c
    using mangle_chars [OF c] p is_digit_not(1) [of c]
    by (auto simp: plain_path_def) (simp add: isspace_def)
  ultimately show ?thesis by (simp add: plain_field_def)
qed

lemma find_from_dash:
  "list_all (\<lambda>t. P t \<and> t \<noteq> x) ts \<Longrightarrow> find_from x (ts @ x # us) = Some (length ts)"
  by (induction ts) auto

lemma mount_fields_plain: "wf_mount m \<Longrightarrow> list_all plain_field (mount_fields m)"
  by (auto simp: wf_mount_def mount_fields_def mangle_plain list_all_iff)
    (simp add: plain_field_def isspace_def)

definition mount_info :: "KernelMount \<Rightarrow> MountInfo" where
  "mount_info m = \<lparr>mi_mountPoint = km_mountPoint m, mi_device = km_source m, mi_fsType = km_fsType m,
     mi_label = [], mi_removable = False, mi_isNetwork = False\<rparr>"

lemma ParseMountInfoLine_kernel:
  assumes "wf_mount m"
  shows "ParseMountInfoLine (join_fields (mount_fields m)) = Some (mount_info m)"
proof -
  obtain a b c where h: "km_head m = [a, b, c]"
    using assms by (auto simp: wf_mount_def numeral_3_eq_3 length_Suc_conv)
  have "find_from ''-'' (km_tags m @ [''-'', km_fsType m, mangle (km_source m), km_super m]) =
      Some (length (km_tags m))"
    using assms find_from_dash [of plain_field "''-''" "km_tags m"] by (simp add: wf_mount_def)
  then show ?thesis
    using split_ws_join [OF mount_fields_plain [OF assms]]
    by (simp add: ParseMountInfoLine_def Let_def mount_fields_def h nth_append
        mountinfo_codec.dec_enc mount_info_def)
qed

text \<open>What the parser keeps of a mount.\<close>

definition classified :: "Resolver option \<Rightarrow> KernelMount \<Rightarrow> MountInfo" where
  "classified resolver m =
     (mount_info m)\<lparr>mi_isNetwork := IsNetworkFsType (km_fsType m),
       mi_label := (case resolver of None \<Rightarrow> [] | Some r \<Rightarrow> rv_label r (km_source m)),
       mi_removable := (case resolver of None \<Rightarrow> False | Some r \<Rightarrow> rv_removable r (km_source m))\<rparr>"

lemma join_fields_nonempty: "list_all plain_field fs \<Longrightarrow> fs \<noteq> [] \<Longrightarrow> join_fields fs \<noteq> []"
  by (cases fs rule: join_fields.cases) (simp_all add: plain_field_def)

lemma ParseMountInfo_lines_kernel:
  "list_all wf_mount ms \<Longrightarrow>
   ParseMountInfo_lines resolver (map (\<lambda>m. join_fields (mount_fields m)) ms @ [[]]) =
   map (classified resolver) (filter (\<lambda>m. \<not> IsPseudoFsType (km_fsType m)) ms)"
proof (induction ms)
  case (Cons m ms)
  then have "join_fields (mount_fields m) \<noteq> []"
    by (intro join_fields_nonempty mount_fields_plain) (simp_all add: mount_fields_def)
  with Cons show ?case
    by (simp add: ParseMountInfoLine_kernel mount_info_def classified_def Let_def split: option.splits)
qed simp

lemma join_fields_chars: "x \<in> set (join_fields fs) \<Longrightarrow> x = CHR '' '' \<or> (\<exists>f \<in> set fs. x \<in> set f)"
  by (induction fs rule: join_fields.induct) auto

lemma mount_line_newline: "wf_mount m \<Longrightarrow> newline \<notin> set (join_fields (mount_fields m))"
proof
  assume wf: "wf_mount m" and "newline \<in> set (join_fields (mount_fields m))"
  then obtain f where "f \<in> set (mount_fields m)" "newline \<in> set f"
    using join_fields_chars by fastforce
  moreover have "isspace newline" by (simp add: isspace_def)
  ultimately show False
    using mount_fields_plain [OF wf] by (auto simp: list_all_iff plain_field_def)
qed

section \<open>Partition names\<close>

text \<open>The kernel puts a \<open>p\<close> before the number when the name of the disk ends in a digit.\<close>

definition partition_name :: "string \<Rightarrow> nat \<Rightarrow> string" where
  "partition_name disk n =
     disk @ (if is_digit (last disk) then ''p'' else []) @ to_string n"

lemma skip_digits_append:
  "list_all is_digit ds \<Longrightarrow> skip_digits (s @ ds) (length s + length ds) = skip_digits (s @ ds) (length s)"
proof (induction ds rule: rev_induct)
  case (snoc d ds)
  have "skip_digits (s @ ds @ [d]) e = skip_digits (s @ ds) e" if "e \<le> length s + length ds" for e
    using that nth_append [of "s @ ds" "[d]"] by (induction e) simp_all
  with snoc show ?case by (simp add: nth_append)
qed simp

lemma skip_digits_stop: "s \<noteq> [] \<Longrightarrow> \<not> is_digit (last s) \<Longrightarrow> skip_digits (s @ t) (length s) = length s"
  by (cases s rule: rev_cases) (simp_all add: nth_append)

lemma Strip_partition:
  assumes "disk \<noteq> []" "\<not> (length disk \<ge> 2 \<and> last disk = CHR ''p'' \<and> is_digit (disk ! (length disk - 2)))"
  shows "StripPartitionSuffix (partition_name disk n) = disk"
proof (cases "is_digit (last disk)")
  case True
  let ?s = "disk @ ''p''" and ?ds = "to_string n"
  have p: "\<not> is_digit (CHR ''p'')" by (simp add: is_digit_def)
  have "skip_digits (?s @ ?ds) (length ?s + length ?ds) = length ?s"
    using skip_digits_append [of ?ds ?s] skip_digits_stop [of ?s ?ds] p by simp
  with True assms show ?thesis
    by (cases disk rule: rev_cases)
      (simp_all add: StripPartitionSuffix_def partition_name_def Let_def nth_append)
next
  case False
  let ?ds = "to_string n"
  have "skip_digits (disk @ ?ds) (length disk + length ?ds) = length disk"
    using skip_digits_append [of ?ds disk] skip_digits_stop [of disk ?ds] False assms by simp
  with False assms show ?thesis
    by (cases disk rule: rev_cases)
      (auto simp: StripPartitionSuffix_def partition_name_def Let_def nth_append)
qed

section \<open>Properties\<close>


definition sample_mount :: "string \<Rightarrow> string \<Rightarrow> KernelMount" where
  "sample_mount mp ty = \<lparr>km_head = [''36'', ''35'', ''98:0''], km_root = ''/'', km_mountPoint = mp,
     km_options = ''rw'', km_tags = [''master:1''], km_fsType = ty, km_source = ''/dev/sdb1'',
     km_super = ''rw''\<rparr>"

lemma sample_mount_wf: "plain_path mp \<Longrightarrow> plain_field ty \<Longrightarrow> wf_mount (sample_mount mp ty)"
  by (simp add: wf_mount_def sample_mount_def plain_path_def plain_field_def isspace_def)


text \<open>A partition is removable exactly when its disk is: for every disk name the kernel can
  give (digits at the end or not) the suffix is stripped to the disk, whose flag is read.\<close>

lemma ResolveRemovable_partition:
  assumes "disk \<noteq> []"
    and "\<not> (length disk \<ge> 2 \<and> last disk = CHR ''p'' \<and> is_digit (disk ! (length disk - 2)))"
    and "sys (partition_name disk n) = None"
  shows "ResolveRemovable sys (''/dev/'' @ partition_name disk n) \<longleftrightarrow>
    (\<exists>value. sys disk = Some value \<and> value \<noteq> 0)"
proof -
  have "partition_name disk n \<noteq> []" by (simp add: partition_name_def)
  then show ?thesis
    using assms Strip_partition [OF assms(1,2), of n]
    by (auto simp: ResolveRemovable_def Let_def SysBlockEntryExists_def ReadSysBlockRemovable_def
        split: option.splits)
qed

lemma ResolveRemovable_partition_witness:
  "ResolveRemovable [''nvme0n1'' \<mapsto> 1] (''/dev/'' @ partition_name ''nvme0n1'' 3)"
proof -
  have "partition_name ''nvme0n1'' 3 = ''nvme0n1p3''"
    by (simp add: partition_name_def is_digit_def to_string.simps digit_chars)
  then show ?thesis
    using ResolveRemovable_partition [of "''nvme0n1''" "[''nvme0n1'' \<mapsto> 1]" 3] by simp
qed

text \<open>A carriage return in a mount point is not escaped by the kernel and ends the field: the
  mount comes out at another path.\<close>

lemma carriage_return_splits_mount_point:
  "map_option mi_mountPoint (ParseMountInfoLine (join_fields (mount_fields
     (sample_mount [CHR ''/'', CHR ''a'', CHR 0x0D, CHR ''b''] ''ext4'')))) = Some ''/a''"
  by code_simp

end
