(* ===== verification/Walk_Scanner.thy ===== *)
theory Walk_Scanner
  imports File_Types Path_Utils "HOL-Library.Multiset"
begin

text \<open>
  The directory walker (\<open>indexer/WalkScanner.{h,cpp}\<close>): worker threads drain one queue of
  directories. What the file system answers is a parameter that does not change during a
  scan. Reading a directory, one directory entry and each operation of the queue are steps;
  a run is any interleaving of them, with cancellation at any moment. The theory shows that
  every run ends, that no worker is stuck before, and that an uncancelled run reports exactly
  what a sequential traversal does.
\<close>

section \<open>The file system\<close>

record Statx =
  stx_mode :: u16
  stx_size :: u64
  stx_mtime_sec :: u64
  stx_mtime_nsec :: u32
  stx_dev :: u64

record Dirent =
  de_reclen :: u16
  de_type :: u8
  de_name :: string

text \<open>\<open>statx\<close> of a path and of a name in an open directory, neither following symbolic links;
  and the results of the successive \<open>getdents64\<close> calls, when the directory can be opened.\<close>

record FileSystem =
  fs_statx :: "string \<Rightarrow> Statx option"
  fs_statxAt :: "string \<Rightarrow> string \<Rightarrow> Statx option"
  fs_getdents :: "string \<Rightarrow> Dirent list list option"

definition S_ISDIR :: "u16 \<Rightarrow> bool" where
  "S_ISDIR mode \<longleftrightarrow> mode AND 0xF000 = 0x4000"

definition S_ISLNK :: "u16 \<Rightarrow> bool" where
  "S_ISLNK mode \<longleftrightarrow> mode AND 0xF000 = 0xA000"

definition DT_LNK :: u8 where "DT_LNK = 10"

section \<open>One directory entry\<close>

definition JoinChild :: "string \<Rightarrow> string \<Rightarrow> string" where
  "JoinChild dir name = (if dir = ''/'' then CHR ''/'' # name else dir @ CHR ''/'' # name)"

definition IsPathUnderOrEqual :: "string \<Rightarrow> string \<Rightarrow> bool" where
  "IsPathUnderOrEqual path excluded \<longleftrightarrow>
     (if path = excluded then True
      else length path > length excluded \<and> take (length excluded) path = excluded \<and>
           path ! length excluded = CHR ''/'')"

definition IsPathExcluded :: "string \<Rightarrow> string list \<Rightarrow> bool" where
  "IsPathExcluded path excludedNormalized \<longleftrightarrow>
     list_ex (\<lambda>excluded. IsPathUnderOrEqual path excluded) excludedNormalized"

record DirJob =
  dj_path :: string
  dj_allowedDev :: u64

definition EmitFileEntry :: "string \<Rightarrow> Statx \<Rightarrow> FileEntry" where
  "EmitFileEntry fullPath stx =
     (let name = basename fullPath;
          attributes = (if S_ISDIR (stx_mode stx) then 0 OR kAttrDirectory else 0);
          attributes = (if name \<noteq> [] \<and> hd name = CHR ''.'' then attributes OR kAttrHidden
                        else attributes)
      in \<lparr>fe_name = name, fe_path = fullPath, fe_size = stx_size stx,
          fe_lastModified = stx_mtime_sec stx * 1000000000 + ucast (stx_mtime_nsec stx),
          fe_attributes = attributes\<rparr>)"

record Walk =
  wk_fs :: FileSystem
  wk_roots :: "string list"
  wk_excluded :: "string list"

text \<open>The body of the loop over the entries: what is reported and what is queued, or nothing.\<close>

definition ProcessEntry :: "Walk \<Rightarrow> DirJob \<Rightarrow> Dirent \<Rightarrow> (FileEntry \<times> DirJob option) option" where
  "ProcessEntry wk job entry =
     (let name = de_name entry
      in if name = ''.'' \<or> name = ''..'' then None
         else if de_type entry = DT_LNK then None
         else case fs_statxAt (wk_fs wk) (dj_path job) name of
           None \<Rightarrow> None
         | Some stx \<Rightarrow>
             if S_ISLNK (stx_mode stx) then None
             else
               let childPath = JoinChild (dj_path job) name
               in if IsPathExcluded childPath (wk_excluded wk) then None
                  else Some (EmitFileEntry childPath stx,
                    if S_ISDIR (stx_mode stx) then
                      let childDev = stx_dev stx;
                          isExplicitRoot = childPath \<in> set (wk_roots wk)
                      in if isExplicitRoot \<or> childDev = dj_allowedDev job
                         then Some \<lparr>dj_path = childPath,
                                dj_allowedDev = (if isExplicitRoot then childDev else dj_allowedDev job)\<rparr>
                         else None
                    else None))"

text \<open>The records of one read, up to a malformed one; a read that gives nothing ends the loop.\<close>

definition chunk_entries :: "Dirent list \<Rightarrow> Dirent list" where
  "chunk_entries chunk = takeWhile (\<lambda>d. de_reclen d \<noteq> 0) chunk"

definition directory_chunks :: "Walk \<Rightarrow> DirJob \<Rightarrow> Dirent list list option" where
  "directory_chunks wk job =
     map_option (\<lambda>chunks. map chunk_entries (takeWhile (\<lambda>chunk. chunk \<noteq> []) chunks))
       (fs_getdents (wk_fs wk) (dj_path job))"

section \<open>The roots\<close>

fun Scan_roots :: "Walk \<Rightarrow> string list \<Rightarrow> FileEntry list \<times> DirJob list" where
  "Scan_roots wk [] = ([], [])"
| "Scan_roots wk (root # rest) =
     (let (es, jobs) = Scan_roots wk rest
      in if IsPathExcluded root (wk_excluded wk) then (es, jobs)
         else case fs_statx (wk_fs wk) root of
           None \<Rightarrow> (es, jobs)
         | Some stx \<Rightarrow>
             if S_ISLNK (stx_mode stx) then (es, jobs)
             else if \<not> S_ISDIR (stx_mode stx) then (EmitFileEntry root stx # es, jobs)
             else (es, \<lparr>dj_path = root, dj_allowedDev = stx_dev stx\<rparr> # jobs))"

definition Scan_setup :: "FileSystem \<Rightarrow> (string \<Rightarrow> string option) \<Rightarrow> ScanOptions \<Rightarrow> Walk" where
  "Scan_setup fs realpath options =
     \<lparr>wk_fs = fs, wk_roots = CollapseRedundantRoots realpath (so_rootPaths options),
      wk_excluded = map (CanonicalizeBestEffort realpath) (so_excludedPaths options)\<rparr>"

section \<open>The queue and the workers\<close>

text \<open>A worker waits for a job, has a directory open with the rest of the current read and the
  reads that follow, or has ended.\<close>

datatype WalkWorker =
    WkIdle
  | WkDir DirJob "Dirent list" "Dirent list list"
  | WkDone

record ScanState =
  sc_jobs :: "DirJob list"
  sc_inFlight :: int
  sc_workers :: "WalkWorker list"
  sc_cancelled :: bool
  sc_emitted :: "FileEntry list"
  sc_filesFound :: u64
  sc_progress :: "(u64 \<times> string) list"

definition Push :: "DirJob \<Rightarrow> ScanState \<Rightarrow> ScanState" where
  "Push job s = s\<lparr>sc_jobs := sc_jobs s @ [job]\<rparr>"

definition Done :: "ScanState \<Rightarrow> ScanState" where
  "Done s = s\<lparr>sc_inFlight := sc_inFlight s - 1\<rparr>"

datatype PopResult = Popped DirJob | NoMoreWork | StillWaiting

text \<open>One round of \<open>Pop\<close>'s loop; \<open>StillWaiting\<close> is the timed wait.\<close>

definition Pop :: "ScanState \<Rightarrow> PopResult \<times> ScanState" where
  "Pop s =
     (if sc_cancelled s then (NoMoreWork, s)
      else case sc_jobs s of
        job # jobs \<Rightarrow> (Popped job, s\<lparr>sc_jobs := jobs, sc_inFlight := sc_inFlight s + 1\<rparr>)
      | [] \<Rightarrow> if sc_inFlight s = 0 then (NoMoreWork, s) else (StillWaiting, s))"

definition set_worker :: "nat \<Rightarrow> WalkWorker \<Rightarrow> ScanState \<Rightarrow> ScanState" where
  "set_worker i w s = s\<lparr>sc_workers := (sc_workers s)[i := w]\<rparr>"

text \<open>Reporting an entry and queueing its directory.\<close>

definition emit_entry :: "FileEntry \<times> DirJob option \<Rightarrow> ScanState \<Rightarrow> ScanState" where
  "emit_entry r s =
     (let s = s\<lparr>sc_emitted := sc_emitted s @ [fst r], sc_filesFound := sc_filesFound s + 1\<rparr>
      in case snd r of None \<Rightarrow> s | Some job \<Rightarrow> Push job s)"

definition apply_entry :: "Walk \<Rightarrow> DirJob \<Rightarrow> Dirent \<Rightarrow> ScanState \<Rightarrow> ScanState" where
  "apply_entry wk job d s =
     (case ProcessEntry wk job d of None \<Rightarrow> s | Some r \<Rightarrow> emit_entry r s)"

definition finish_directory :: "DirJob \<Rightarrow> ScanState \<Rightarrow> ScanState" where
  "finish_directory job s =
     Done (s\<lparr>sc_progress := sc_progress s @ [(sc_filesFound s, dj_path job)]\<rparr>)"

inductive walk_step :: "Walk \<Rightarrow> ScanState \<Rightarrow> ScanState \<Rightarrow> bool" for wk where
  pop_job: "i < length (sc_workers s) \<Longrightarrow> sc_workers s ! i = WkIdle \<Longrightarrow> Pop s = (Popped job, t) \<Longrightarrow>
    directory_chunks wk job = Some chunks \<Longrightarrow> walk_step wk s (set_worker i (WkDir job [] chunks) t)"
| open_failed: "i < length (sc_workers s) \<Longrightarrow> sc_workers s ! i = WkIdle \<Longrightarrow> Pop s = (Popped job, t) \<Longrightarrow>
    directory_chunks wk job = None \<Longrightarrow> walk_step wk s (Done t)"
| pop_end: "i < length (sc_workers s) \<Longrightarrow> sc_workers s ! i = WkIdle \<Longrightarrow> Pop s = (NoMoreWork, t) \<Longrightarrow>
    walk_step wk s (set_worker i WkDone t)"
| entry: "i < length (sc_workers s) \<Longrightarrow> sc_workers s ! i = WkDir job (d # ds) chunks \<Longrightarrow>
    walk_step wk s (set_worker i (WkDir job ds chunks) (apply_entry wk job d s))"
| read: "i < length (sc_workers s) \<Longrightarrow> sc_workers s ! i = WkDir job [] (c # chunks) \<Longrightarrow>
    \<not> sc_cancelled s \<Longrightarrow> walk_step wk s (set_worker i (WkDir job c chunks) s)"
| close: "i < length (sc_workers s) \<Longrightarrow> sc_workers s ! i = WkDir job [] chunks \<Longrightarrow>
    chunks = [] \<or> sc_cancelled s \<Longrightarrow> walk_step wk s (set_worker i WkIdle (finish_directory job s))"
| cancel: "\<not> sc_cancelled s \<Longrightarrow> walk_step wk s (s\<lparr>sc_cancelled := True\<rparr>)"

text \<open>The state the workers start in: the root files are reported, the root directories queued.\<close>

definition root_progress :: "FileEntry list \<Rightarrow> (u64 \<times> string) list" where
  "root_progress es = map (\<lambda>k. (word_of_nat (k + 1), fe_path (es ! k))) [0..<length es]"

definition Scan_start :: "Walk \<Rightarrow> nat \<Rightarrow> bool \<Rightarrow> ScanState" where
  "Scan_start wk hardware_concurrency cancelled =
     (let (es, jobs) = Scan_roots wk (wk_roots wk);
          workerCount = (if hardware_concurrency = 0 then 1 else hardware_concurrency)
      in \<lparr>sc_jobs = jobs, sc_inFlight = 0, sc_workers = replicate workerCount WkIdle,
          sc_cancelled = cancelled, sc_emitted = es, sc_filesFound = word_of_nat (length es),
          sc_progress = root_progress es\<rparr>)"

text \<open>What a run that starts there can reach, with the number of its steps.\<close>

inductive scan_run :: "Walk \<Rightarrow> ScanState \<Rightarrow> nat \<Rightarrow> ScanState \<Rightarrow> bool" for wk where
  start: "scan_run wk s 0 s"
| more: "scan_run wk s n t \<Longrightarrow> walk_step wk t u \<Longrightarrow> scan_run wk s (Suc n) u"

definition scan_ended :: "ScanState \<Rightarrow> bool" where
  "scan_ended s \<longleftrightarrow> list_all (\<lambda>w. w = WkDone) (sc_workers s)"

section \<open>The sequential traversal\<close>

definition dir_entries :: "Walk \<Rightarrow> DirJob \<Rightarrow> Dirent list" where
  "dir_entries wk job =
     (case directory_chunks wk job of None \<Rightarrow> [] | Some chunks \<Rightarrow> concat chunks)"

text \<open>Everything a depth-first walk of one directory reports, down to a depth.\<close>

definition entry_tree :: "(DirJob \<Rightarrow> FileEntry multiset) \<Rightarrow> Walk \<Rightarrow> DirJob \<Rightarrow> Dirent \<Rightarrow> FileEntry multiset" where
  "entry_tree below wk job d =
     (case ProcessEntry wk job d of
        None \<Rightarrow> {#}
      | Some (e, None) \<Rightarrow> {#e#}
      | Some (e, Some j) \<Rightarrow> add_mset e (below j))"

fun traverse :: "Walk \<Rightarrow> nat \<Rightarrow> DirJob \<Rightarrow> FileEntry multiset" where
  "traverse wk 0 job = {#}"
| "traverse wk (Suc n) job = sum_list (map (entry_tree (traverse wk n) wk job) (dir_entries wk job))"

text \<open>A finite tree: what a directory costs, itself and all below it, is bounded.\<close>

definition entry_cost :: "(DirJob \<Rightarrow> nat) \<Rightarrow> Walk \<Rightarrow> DirJob \<Rightarrow> Dirent \<Rightarrow> nat" where
  "entry_cost W wk job d =
     1 + (case ProcessEntry wk job d of Some (e, Some j) \<Rightarrow> W j | _ \<Rightarrow> 0)"

definition finite_tree :: "Walk \<Rightarrow> (DirJob \<Rightarrow> nat) \<Rightarrow> bool" where
  "finite_tree wk W \<longleftrightarrow>
     (\<forall>job. 2 + (case directory_chunks wk job of None \<Rightarrow> 0
             | Some chunks \<Rightarrow> length chunks + sum_list (map (entry_cost W wk job) (concat chunks)))
           \<le> W job)"

lemma finite_treeD:
  assumes "finite_tree wk W"
  shows "2 \<le> W job"
    "directory_chunks wk job = Some chunks \<Longrightarrow>
       2 + length chunks + sum_list (map (entry_cost W wk job) (concat chunks)) \<le> W job"
  using assms [unfolded finite_tree_def, THEN spec, of job] by (auto split: option.splits)

lemma entry_cost_child:
  assumes "finite_tree wk W" "d \<in> set (dir_entries wk job)" "ProcessEntry wk job d = Some (e, Some j)"
  shows "W j < W job"
proof -
  obtain chunks where c: "directory_chunks wk job = Some chunks" "d \<in> set (concat chunks)"
    using assms(2) by (cases "directory_chunks wk job") (auto simp: dir_entries_def)
  have "entry_cost W wk job d \<le> sum_list (map (entry_cost W wk job) (concat chunks))"
    using c(2) by (intro member_le_sum_list) auto
  moreover have "entry_cost W wk job d = 1 + W j"
    by (simp add: entry_cost_def assms(3))
  ultimately show ?thesis
    using finite_treeD(2) [OF assms(1) c(1)] by simp
qed

lemma entry_tree_cong:
  "(\<And>e j. ProcessEntry wk job d = Some (e, Some j) \<Longrightarrow> f j = g j) \<Longrightarrow>
   entry_tree f wk job d = entry_tree g wk job d"
  by (auto simp: entry_tree_def split: option.splits)

text \<open>Depth beyond the cost changes nothing, so the cost is depth enough.\<close>

lemma traverse_enough:
  "finite_tree wk W \<Longrightarrow> W job \<le> n \<Longrightarrow> W job \<le> m \<Longrightarrow> traverse wk n job = traverse wk m job"
proof (induction n arbitrary: job m)
  case 0
  then show ?case using finite_treeD(1) [OF 0(1), of job] by simp
next
  case (Suc n)
  then obtain k where k: "m = Suc k"
    using finite_treeD(1) [of wk W job] by (cases m) auto
  have "entry_tree (traverse wk n) wk job d = entry_tree (traverse wk k) wk job d"
    if d: "d \<in> set (dir_entries wk job)" for d
  proof (rule entry_tree_cong)
    fix e j assume "ProcessEntry wk job d = Some (e, Some j)"
    then have "W j < W job" by (rule entry_cost_child [OF Suc.prems(1) d])
    then show "traverse wk n j = traverse wk k j"
      using Suc k by simp
  qed
  then show ?case
    by (simp add: k cong: map_cong)
qed

definition subtree :: "Walk \<Rightarrow> (DirJob \<Rightarrow> nat) \<Rightarrow> DirJob \<Rightarrow> FileEntry multiset" where
  "subtree wk W job = traverse wk (W job) job"

lemma subtree_unfold:
  assumes "finite_tree wk W"
  shows "subtree wk W job = sum_list (map (entry_tree (subtree wk W) wk job) (dir_entries wk job))"
proof -
  obtain n where n: "W job = Suc n"
    using finite_treeD(1) [OF assms, of job] by (cases "W job") auto
  have "entry_tree (traverse wk n) wk job d = entry_tree (subtree wk W) wk job d"
    if "d \<in> set (dir_entries wk job)" for d
  proof (rule entry_tree_cong)
    fix e j assume "ProcessEntry wk job d = Some (e, Some j)"
    then have "W j < W job" by (rule entry_cost_child [OF assms that])
    then show "traverse wk n j = subtree wk W j"
      unfolding subtree_def using n by (intro traverse_enough [OF assms]) simp_all
  qed
  then show ?thesis
    by (simp add: subtree_def n cong: map_cong)
qed

section \<open>Invariants of the walk\<close>

lemmas queue_defs = Push_def Done_def set_worker_def emit_entry_def apply_entry_def
  finish_directory_def Let_def

text \<open>What a worker still has to report, and its cost in steps.\<close>

fun worker_rest :: "Walk \<Rightarrow> (DirJob \<Rightarrow> nat) \<Rightarrow> WalkWorker \<Rightarrow> FileEntry multiset" where
  "worker_rest wk W (WkDir job ds chunks) =
     sum_list (map (entry_tree (subtree wk W) wk job) (ds @ concat chunks))"
| "worker_rest wk W _ = {#}"

fun worker_cost :: "Walk \<Rightarrow> (DirJob \<Rightarrow> nat) \<Rightarrow> WalkWorker \<Rightarrow> nat" where
  "worker_cost wk W WkIdle = 1"
| "worker_cost wk W WkDone = 0"
| "worker_cost wk W (WkDir job ds chunks) =
     2 + length chunks + sum_list (map (entry_cost W wk job) (ds @ concat chunks))"

fun open_dirs :: "WalkWorker \<Rightarrow> nat" where
  "open_dirs (WkDir _ _ _) = 1"
| "open_dirs _ = 0"

definition scan_cost :: "Walk \<Rightarrow> (DirJob \<Rightarrow> nat) \<Rightarrow> ScanState \<Rightarrow> nat" where
  "scan_cost wk W s = sum_list (map W (sc_jobs s)) + sum_list (map (worker_cost wk W) (sc_workers s)) +
     (if sc_cancelled s then 0 else 1)"

definition scan_pending :: "Walk \<Rightarrow> (DirJob \<Rightarrow> nat) \<Rightarrow> ScanState \<Rightarrow> FileEntry multiset" where
  "scan_pending wk W s = mset (sc_emitted s) + sum_list (map (subtree wk W) (sc_jobs s)) +
     sum_list (map (worker_rest wk W) (sc_workers s))"

lemma sum_list_update_nat:
  "i < length xs \<Longrightarrow> sum_list (map f (xs[i := y])) + f (xs ! i) = sum_list (map f xs) + (f y :: nat)"
  by (induction xs arbitrary: i) (auto split: nat.splits)

lemma sum_list_update_mset:
  "i < length xs \<Longrightarrow> sum_list (map f (xs[i := y])) + f (xs ! i) = sum_list (map f xs) + (f y :: 'b multiset)"
  by (induction xs arbitrary: i) (auto split: nat.splits simp: ac_simps)

lemma Pop_cases:
  "Pop s = (Popped job, t) \<longleftrightarrow> \<not> sc_cancelled s \<and>
     (\<exists>jobs. sc_jobs s = job # jobs \<and> t = s\<lparr>sc_jobs := jobs, sc_inFlight := sc_inFlight s + 1\<rparr>)"
  "Pop s = (NoMoreWork, t) \<longleftrightarrow> t = s \<and> (sc_cancelled s \<or> sc_jobs s = [] \<and> sc_inFlight s = 0)"
  by (auto simp: Pop_def split: list.splits)

lemma entry_effect:
  "sum_list (map W (sc_jobs (apply_entry wk job d s))) + 1 =
     sum_list (map W (sc_jobs s)) + entry_cost W wk job d"
  "mset (sc_emitted (apply_entry wk job d s)) +
     sum_list (map (subtree wk V) (sc_jobs (apply_entry wk job d s))) =
   mset (sc_emitted s) + sum_list (map (subtree wk V) (sc_jobs s)) + entry_tree (subtree wk V) wk job d"
  "sc_workers (apply_entry wk job d s) = sc_workers s"
  "sc_cancelled (apply_entry wk job d s) = sc_cancelled s"
  "sc_inFlight (apply_entry wk job d s) = sc_inFlight s"
  by (simp_all add: queue_defs entry_cost_def entry_tree_def split: option.splits)

lemma walk_step_cost:
  assumes "walk_step wk s t" "finite_tree wk W"
  shows "scan_cost wk W t < scan_cost wk W s"
  using assms(1)
proof (cases rule: walk_step.cases)
  case (pop_job i job u chunks)
  then show ?thesis
    using sum_list_update_nat [of i "sc_workers s" "worker_cost wk W" "WkDir job [] chunks"]
      finite_treeD(2) [OF assms(2) pop_job(5)]
    by (auto simp: scan_cost_def set_worker_def Pop_cases)
next
  case (open_failed i job u)
  then show ?thesis
    using finite_treeD(1) [OF assms(2), of job] by (auto simp: scan_cost_def Done_def Pop_cases)
next
  case (pop_end i u)
  then show ?thesis
    using sum_list_update_nat [of i "sc_workers s" "worker_cost wk W" WkDone]
    by (auto simp: scan_cost_def set_worker_def Pop_cases)
next
  case (entry i job d ds chunks)
  then show ?thesis
    using sum_list_update_nat [of i "sc_workers s" "worker_cost wk W" "WkDir job ds chunks"]
      entry_effect(1) [of W wk job d s]
    by (auto simp: scan_cost_def set_worker_def entry_effect)
next
  case (read i job c chunks)
  then show ?thesis
    using sum_list_update_nat [of i "sc_workers s" "worker_cost wk W" "WkDir job c chunks"]
    by (auto simp: scan_cost_def set_worker_def)
next
  case (close i job chunks)
  then show ?thesis
    using sum_list_update_nat [of i "sc_workers s" "worker_cost wk W" WkIdle]
    by (auto simp: scan_cost_def set_worker_def finish_directory_def Done_def)
qed (simp add: scan_cost_def)

text \<open>Nothing that is reported is made up, and until a cancellation nothing is lost.\<close>

lemma walk_step_pending:
  assumes "walk_step wk s t" "finite_tree wk W"
  shows "scan_pending wk W t \<subseteq># scan_pending wk W s \<and>
    (\<not> sc_cancelled t \<longrightarrow> scan_pending wk W t = scan_pending wk W s)"
  using assms(1)
proof (cases rule: walk_step.cases)
  case (pop_job i job u chunks)
  have "subtree wk W job = sum_list (map (entry_tree (subtree wk W) wk job) (concat chunks))"
    using subtree_unfold [OF assms(2), of job] pop_job(5) by (simp add: dir_entries_def)
  then show ?thesis
    using pop_job sum_list_update_mset [of i "sc_workers s" "worker_rest wk W" "WkDir job [] chunks"]
    by (auto simp: scan_pending_def set_worker_def Pop_cases)
next
  case (open_failed i job u)
  have "subtree wk W job = {#}"
    using subtree_unfold [OF assms(2), of job] open_failed(5) by (simp add: dir_entries_def)
  then show ?thesis
    using open_failed by (auto simp: scan_pending_def Done_def Pop_cases)
next
  case (pop_end i u)
  then show ?thesis
    using sum_list_update_mset [of i "sc_workers s" "worker_rest wk W" WkDone]
    by (auto simp: scan_pending_def set_worker_def Pop_cases)
next
  case (entry i job d ds chunks)
  have "sum_list (map (worker_rest wk W) ((sc_workers s)[i := WkDir job ds chunks])) +
      entry_tree (subtree wk W) wk job d = sum_list (map (worker_rest wk W) (sc_workers s))"
    using entry sum_list_update_mset [of i "sc_workers s" "worker_rest wk W" "WkDir job ds chunks"]
    by simp
  then have "scan_pending wk W t = scan_pending wk W s"
    using entry_effect(2) [of wk job d s W] entry(1)
    by (simp add: scan_pending_def set_worker_def entry_effect) (metis (no_types, lifting) add.assoc add.commute)
  then show ?thesis by simp
next
  case (read i job c chunks)
  then show ?thesis
    using sum_list_update_mset [of i "sc_workers s" "worker_rest wk W" "WkDir job c chunks"]
    by (auto simp: scan_pending_def set_worker_def)
next
  case (close i job chunks)
  have "sum_list (map (worker_rest wk W) ((sc_workers s)[i := WkIdle])) +
      worker_rest wk W (WkDir job [] chunks) = sum_list (map (worker_rest wk W) (sc_workers s))"
    using close sum_list_update_mset [of i "sc_workers s" "worker_rest wk W" WkIdle] by simp
  then have "scan_pending wk W s = scan_pending wk W t + worker_rest wk W (WkDir job [] chunks)"
    using close(1) by (simp add: scan_pending_def set_worker_def finish_directory_def Done_def add.assoc)
  moreover have "worker_rest wk W (WkDir job [] chunks) = {#}" if "\<not> sc_cancelled t"
    using close that by (auto simp: set_worker_def finish_directory_def Done_def)
  ultimately show ?thesis by auto
qed (simp add: scan_pending_def)

text \<open>The count of directories in work is exact; a worker ends early only when there is no work.\<close>

definition queue_inv :: "ScanState \<Rightarrow> bool" where
  "queue_inv s \<longleftrightarrow> sc_inFlight s = int (sum_list (map open_dirs (sc_workers s))) \<and>
     sc_filesFound s = word_of_nat (length (sc_emitted s)) \<and> sc_workers s \<noteq> [] \<and>
     (\<not> sc_cancelled s \<and> WkDone \<in> set (sc_workers s) \<longrightarrow> sc_jobs s = [] \<and> sc_inFlight s = 0)"

lemma open_dirs_member: "w \<in> set ws \<Longrightarrow> open_dirs w \<le> sum_list (map open_dirs ws)"
  by (intro member_le_sum_list) auto

lemma set_update_other: "z \<in> set (xs[i := y]) \<Longrightarrow> z = y \<or> z \<in> set xs"
  using set_update_subset_insert by fastforce

lemma queue_inv_step:
  assumes "queue_inv s" "walk_step wk s t"
  shows "queue_inv t"
  using assms(2)
proof (cases rule: walk_step.cases)
  case (pop_job i job u chunks)
  then show ?thesis
    using assms(1) sum_list_update_nat [of i "sc_workers s" open_dirs "WkDir job [] chunks"]
    by (auto simp: queue_inv_def set_worker_def Pop_cases dest: set_update_other)
next
  case (open_failed i job u)
  then show ?thesis using assms(1) by (auto simp: queue_inv_def Done_def Pop_cases)
next
  case (pop_end i u)
  then show ?thesis
    using assms(1) sum_list_update_nat [of i "sc_workers s" open_dirs WkDone]
    by (auto simp: queue_inv_def set_worker_def Pop_cases)
next
  case (entry i job d ds chunks)
  have "WkDir job (d # ds) chunks \<in> set (sc_workers s)"
    using entry by (metis nth_mem)
  then have "sc_inFlight s \<noteq> 0"
    using assms(1) by (force simp: queue_inv_def)
  then show ?thesis
    using entry assms(1) sum_list_update_nat [of i "sc_workers s" open_dirs "WkDir job ds chunks"]
    by (auto simp: queue_inv_def queue_defs split: option.splits dest: set_update_other)
next
  case (read i job c chunks)
  then show ?thesis
    using assms(1) sum_list_update_nat [of i "sc_workers s" open_dirs "WkDir job c chunks"]
    by (auto simp: queue_inv_def set_worker_def dest: set_update_other)
next
  case (close i job chunks)
  then show ?thesis
    using assms(1) sum_list_update_nat [of i "sc_workers s" open_dirs WkIdle]
      open_dirs_member [of "WkDir job [] chunks" "sc_workers s"] nth_mem [of i "sc_workers s"]
    by (auto simp: queue_inv_def set_worker_def finish_directory_def Done_def dest: set_update_other)
qed (use assms(1) in \<open>simp add: queue_inv_def\<close>)

lemma queue_inv_start: "queue_inv (Scan_start wk n c)"
  by (auto simp: queue_inv_def Scan_start_def Let_def sum_list_replicate split: prod.splits)

lemma scan_run_queue_inv: "scan_run wk s n t \<Longrightarrow> queue_inv s \<Longrightarrow> queue_inv t"
  by (induction rule: scan_run.induct) (simp_all add: queue_inv_step)

lemma scan_run_cost: "scan_run wk s n t \<Longrightarrow> finite_tree wk W \<Longrightarrow> n + scan_cost wk W t \<le> scan_cost wk W s"
  by (induction rule: scan_run.induct) (simp, fastforce dest: walk_step_cost)

lemma walk_step_cancelled: "walk_step wk s t \<Longrightarrow> sc_cancelled s \<Longrightarrow> sc_cancelled t"
  by (induction rule: walk_step.induct)
    (auto simp: set_worker_def Pop_cases Done_def finish_directory_def entry_effect)

lemma scan_run_pending:
  "scan_run wk s n t \<Longrightarrow> finite_tree wk W \<Longrightarrow>
   scan_pending wk W t \<subseteq># scan_pending wk W s \<and>
   (\<not> sc_cancelled t \<longrightarrow> scan_pending wk W t = scan_pending wk W s)"
proof (induction rule: scan_run.induct)
  case (more s n t u)
  then show ?case
    using walk_step_pending [OF more.hyps(2) more.prems] walk_step_cancelled [OF more.hyps(2)]
    by (auto intro: subset_mset.order_trans)
qed simp

text \<open>While a worker has not ended, some worker can step.\<close>

lemma walk_progress:
  assumes "queue_inv s" "\<not> scan_ended s"
  shows "\<exists>t. walk_step wk s t \<and> sc_cancelled t = sc_cancelled s"
proof -
  obtain i where i: "i < length (sc_workers s)" "sc_workers s ! i \<noteq> WkDone"
    using assms(2) by (auto simp: scan_ended_def list_all_iff in_set_conv_nth)
  show ?thesis
  proof (cases "\<exists>k job ds chunks. k < length (sc_workers s) \<and> sc_workers s ! k = WkDir job ds chunks")
    case True
    then obtain k job ds chunks where k: "k < length (sc_workers s)" "sc_workers s ! k = WkDir job ds chunks"
      by blast
    show ?thesis
    proof (cases ds)
      case (Cons d ds')
      then show ?thesis using walk_step.entry [of k s job d ds' chunks wk] k
        by (auto simp: set_worker_def entry_effect)
    next
      case Nil
      show ?thesis
      proof (cases "chunks = [] \<or> sc_cancelled s")
        case True
        then show ?thesis using walk_step.close [of k s job chunks wk] k Nil
          by (auto simp: set_worker_def finish_directory_def Done_def)
      next
        case False
        then show ?thesis using walk_step.read [of k s job "hd chunks" "tl chunks" wk] k Nil
          by (auto simp: set_worker_def)
      qed
    qed
  next
    case False
    then have idle: "sc_workers s ! i = WkIdle" using i by (cases "sc_workers s ! i") auto
    have "open_dirs w = 0" if "w \<in> set (sc_workers s)" for w
    proof (cases w)
      case (WkDir job ds chunks)
      with that False show ?thesis by (metis in_set_conv_nth)
    qed simp_all
    then have "sc_inFlight s = 0" using assms(1) by (simp add: queue_inv_def)
    then have "(\<exists>job t. Pop s = (Popped job, t) \<and> sc_cancelled t = sc_cancelled s) \<or> Pop s = (NoMoreWork, s)"
      by (cases "sc_jobs s") (auto simp: Pop_def)
    then show ?thesis
    proof
      assume "Pop s = (NoMoreWork, s)"
      from walk_step.pop_end [OF i(1) idle this, of wk] show ?thesis
        by (intro exI [of _ "set_worker i WkDone s"]) (simp add: set_worker_def)
    next
      assume "\<exists>job t. Pop s = (Popped job, t) \<and> sc_cancelled t = sc_cancelled s"
      then obtain job t where t: "Pop s = (Popped job, t)" "sc_cancelled t = sc_cancelled s" by blast
      show ?thesis
        using walk_step.pop_job [OF i(1) idle t(1), of wk] walk_step.open_failed [OF i(1) idle t(1), of wk] t(2)
        by (cases "directory_chunks wk job") (auto simp: set_worker_def Done_def)
    qed
  qed
qed

lemma ended_pending:
  assumes "queue_inv s" "scan_ended s" "\<not> sc_cancelled s"
  shows "scan_pending wk W s = mset (sc_emitted s)"
proof -
  have "map (worker_rest wk W) (sc_workers s) = map (\<lambda>w. {#}) (sc_workers s)"
    using assms(2) by (auto simp: scan_ended_def list_all_iff)
  moreover have "sum_list (map (\<lambda>w. {#}) ws) = {#}" for ws :: "WalkWorker list"
    by (induction ws) simp_all
  ultimately have "sum_list (map (worker_rest wk W) (sc_workers s)) = {#}" by (simp only:)
  moreover have "WkDone \<in> set (sc_workers s)"
    using assms(1,2) by (cases "sc_workers s") (auto simp: queue_inv_def scan_ended_def)
  ultimately show ?thesis
    using assms(1,3) by (simp add: scan_pending_def queue_inv_def)
qed

section \<open>Where the entries come from\<close>

lemma IsUnderOrEqual_iff:
  "IsUnderOrEqual p a \<longleftrightarrow> p = a \<or> (\<exists>rest. p = a @ CHR ''/'' # rest) \<or>
     (a = ''/'' \<and> (\<exists>c rest. p = CHR ''/'' # c # rest))"
proof -
  have "length p > length a \<and> take (length a) p = a \<and> p ! length a = CHR ''/'' \<longleftrightarrow>
      (\<exists>rest. p = a @ CHR ''/'' # rest)"
  proof
    assume "length p > length a \<and> take (length a) p = a \<and> p ! length a = CHR ''/''"
    then show "\<exists>rest. p = a @ CHR ''/'' # rest" by (metis id_take_nth_drop)
  qed auto
  moreover have "length p > 1 \<and> hd p = CHR ''/'' \<longleftrightarrow> (\<exists>c rest. p = CHR ''/'' # c # rest)"
    by (cases p; cases "tl p") auto
  ultimately show ?thesis by (auto simp: IsUnderOrEqual_def)
qed

lemma IsUnderOrEqual_JoinChild: "name \<noteq> [] \<Longrightarrow> IsUnderOrEqual (JoinChild p name) p"
  by (cases name) (auto simp: IsUnderOrEqual_iff JoinChild_def)

lemma IsUnderOrEqual_trans: "IsUnderOrEqual a b \<Longrightarrow> IsUnderOrEqual b c \<Longrightarrow> IsUnderOrEqual a c"
  by (cases c) (auto simp: IsUnderOrEqual_iff)

definition under_roots :: "Walk \<Rightarrow> string \<Rightarrow> bool" where
  "under_roots wk path \<longleftrightarrow> (\<exists>r \<in> set (wk_roots wk). IsUnderOrEqual path r)"

text \<open>Directory entries have names.\<close>

definition named_entries :: "Walk \<Rightarrow> bool" where
  "named_entries wk \<longleftrightarrow> (\<forall>job. \<forall>d \<in> set (dir_entries wk job). de_name d \<noteq> [])"

fun worker_sound :: "Walk \<Rightarrow> WalkWorker \<Rightarrow> bool" where
  "worker_sound wk (WkDir job ds chunks) \<longleftrightarrow>
     under_roots wk (dj_path job) \<and> (\<forall>d \<in> set (ds @ concat chunks). de_name d \<noteq> [])"
| "worker_sound wk _ \<longleftrightarrow> True"

definition entry_sound :: "Walk \<Rightarrow> FileEntry \<Rightarrow> bool" where
  "entry_sound wk e \<longleftrightarrow> under_roots wk (fe_path e) \<and> \<not> IsPathExcluded (fe_path e) (wk_excluded wk) \<and>
     fe_name e = basename (fe_path e)"

definition sound_scan :: "Walk \<Rightarrow> ScanState \<Rightarrow> bool" where
  "sound_scan wk s \<longleftrightarrow> list_all (\<lambda>j. under_roots wk (dj_path j)) (sc_jobs s) \<and>
     list_all (worker_sound wk) (sc_workers s) \<and> list_all (entry_sound wk) (sc_emitted s)"

lemma ProcessEntry_sound:
  assumes "ProcessEntry wk job d = Some (e, j)" "under_roots wk (dj_path job)" "de_name d \<noteq> []"
  shows "entry_sound wk e" "j = Some k \<Longrightarrow> under_roots wk (dj_path k)"
proof -
  have "under_roots wk (JoinChild (dj_path job) (de_name d))"
    using assms(2,3) IsUnderOrEqual_JoinChild IsUnderOrEqual_trans unfolding under_roots_def by blast
  then show "entry_sound wk e" "j = Some k \<Longrightarrow> under_roots wk (dj_path k)"
    using assms(1)
    by (auto simp: ProcessEntry_def entry_sound_def EmitFileEntry_def Let_def
        split: if_splits option.splits)
qed

lemma worker_sound_at:
  "sound_scan wk s \<Longrightarrow> i < length (sc_workers s) \<Longrightarrow> sc_workers s ! i = w \<Longrightarrow> worker_sound wk w"
  by (auto simp: sound_scan_def list_all_length)

lemma sound_scan_step:
  assumes "sound_scan wk s" "walk_step wk s t" "named_entries wk"
  shows "sound_scan wk t"
  using assms(2)
proof (cases rule: walk_step.cases)
  case (pop_job i job u chunks)
  then have "\<forall>d \<in> set (concat chunks). de_name d \<noteq> []"
    using assms(3) [unfolded named_entries_def, THEN spec, of job] by (simp add: dir_entries_def)
  with pop_job assms(1) show ?thesis
    by (auto simp: sound_scan_def set_worker_def Pop_cases list_all_iff dest!: set_update_other)
next
  case (entry i job d ds chunks)
  then have "worker_sound wk (WkDir job (d # ds) chunks)"
    using worker_sound_at [OF assms(1)] by blast
  with entry assms(1) show ?thesis
    using ProcessEntry_sound [of wk job d]
    by (auto simp: sound_scan_def queue_defs list_all_iff split: option.splits dest!: set_update_other)
next
  case (read i job c chunks)
  then have "worker_sound wk (WkDir job [] (c # chunks))"
    using worker_sound_at [OF assms(1)] by blast
  with read assms(1) show ?thesis
    by (auto simp: sound_scan_def set_worker_def list_all_iff dest!: set_update_other)
qed (use assms(1) in \<open>auto simp: sound_scan_def set_worker_def Pop_cases Done_def finish_directory_def
  list_all_iff dest!: set_update_other\<close>)

lemma Scan_roots_sound:
  "Scan_roots wk roots = (es, jobs) \<Longrightarrow> set roots \<subseteq> set (wk_roots wk) \<Longrightarrow>
   list_all (entry_sound wk) es \<and> list_all (\<lambda>j. under_roots wk (dj_path j)) jobs"
proof (induction roots arbitrary: es jobs)
  case (Cons root rest)
  obtain es' jobs' where r: "Scan_roots wk rest = (es', jobs')" by fastforce
  have "under_roots wk root"
    using Cons.prems(2) by (auto simp: under_roots_def intro: bexI [of _ root])
  with Cons.IH [OF r] Cons.prems show ?case
    by (auto simp: r entry_sound_def EmitFileEntry_def Let_def split: if_splits option.splits)
qed simp

lemma sound_scan_run:
  "scan_run wk s n t \<Longrightarrow> sound_scan wk s \<Longrightarrow> named_entries wk \<Longrightarrow> sound_scan wk t"
  by (induction rule: scan_run.induct) (simp_all add: sound_scan_step)

lemma sound_scan_start: "sound_scan wk (Scan_start wk n c)"
  using Scan_roots_sound [of wk "wk_roots wk"]
  by (auto simp: sound_scan_def Scan_start_def Let_def list_all_iff split: prod.splits)

text \<open>After the roots are collapsed no directory below a root is a root: the exception for
  selected roots on another device never applies.\<close>

lemma explicit_root_never:
  assumes "antichain (wk_roots wk)" "under_roots wk (dj_path job)" "name \<noteq> []"
  shows "JoinChild (dj_path job) name \<notin> set (wk_roots wk)"
proof
  assume c: "JoinChild (dj_path job) name \<in> set (wk_roots wk)"
  obtain r where r: "r \<in> set (wk_roots wk)" "IsUnderOrEqual (dj_path job) r"
    using assms(2) by (auto simp: under_roots_def)
  then have "JoinChild (dj_path job) name = r"
    using assms(1,3) c IsUnderOrEqual_JoinChild IsUnderOrEqual_trans unfolding antichain_def by blast
  then have "length r > length (dj_path job)"
    using assms(3) by (auto simp: JoinChild_def split: if_splits)
  then show False
    using r(2) by (auto simp: IsUnderOrEqual_iff)
qed

section \<open>A sample file system\<close>

definition dir_stat :: "u64 \<Rightarrow> Statx" where
  "dir_stat dev = \<lparr>stx_mode = 0x41ED, stx_size = 4096, stx_mtime_sec = 1, stx_mtime_nsec = 2, stx_dev = dev\<rparr>"

definition file_stat :: Statx where
  "file_stat = \<lparr>stx_mode = 0x81A4, stx_size = 7, stx_mtime_sec = 1, stx_mtime_nsec = 2, stx_dev = 1\<rparr>"

text \<open>\<open>/\<close> holds the mount point \<open>m\<close> of another device, which holds the file \<open>f\<close>.\<close>

definition sample_fs :: FileSystem where
  "sample_fs = \<lparr>fs_statx = [''/'' \<mapsto> dir_stat 1, ''/m'' \<mapsto> dir_stat 2],
     fs_statxAt = (\<lambda>dir name.
       if dir = ''/'' \<and> name = ''m'' then Some (dir_stat 2)
       else if dir = ''/m'' \<and> name = ''f'' then Some file_stat else None),
     fs_getdents = [''/'' \<mapsto> [[\<lparr>de_reclen = 24, de_type = 4, de_name = ''m''\<rparr>]],
                    ''/m'' \<mapsto> [[\<lparr>de_reclen = 24, de_type = 8, de_name = ''f''\<rparr>]]]\<rparr>"

definition sample_walk :: "string list \<Rightarrow> Walk" where
  "sample_walk roots = Scan_setup sample_fs (\<lambda>p. None) \<lparr>so_rootPaths = roots, so_excludedPaths = []\<rparr>"

text \<open>With both \<open>/\<close> and the mount point selected, the mount point is absorbed by \<open>/\<close> and then
  not entered: the selected file system is not indexed.\<close>

lemma selected_mount_not_walked:
  "wk_roots (sample_walk [''/'', ''/m'']) = [''/'']"
  "map (map fe_path) [fst (Scan_roots (sample_walk [''/'', ''/m'']) [''/''])] = [[]]"
  "image_mset fe_path (traverse (sample_walk [''/'', ''/m'']) 9 \<lparr>dj_path = ''/'', dj_allowedDev = 1\<rparr>) = {#''/m''#}"
  by code_simp+

definition sample_cost :: "DirJob \<Rightarrow> nat" where
  "sample_cost job = (if dj_path job = ''/'' then 8 else if dj_path job = ''/m'' then 4 else 2)"

lemma sample_walk_m: "wk_roots (sample_walk [''/m'']) = [''/m'']" "wk_excluded (sample_walk [''/m'']) = []"
  "wk_fs (sample_walk [''/m'']) = sample_fs"
  by (code_simp, simp_all add: sample_walk_def Scan_setup_def)

lemma stat_kinds:
  "S_ISDIR (stx_mode (dir_stat dev))" "\<not> S_ISLNK (stx_mode (dir_stat dev))"
  "\<not> S_ISDIR (stx_mode file_stat)" "\<not> S_ISLNK (stx_mode file_stat)"
  by (simp_all add: dir_stat_def file_stat_def S_ISDIR_def S_ISLNK_def)

lemma sample_chunks:
  "directory_chunks (sample_walk [''/m'']) job =
     (if dj_path job = ''/'' then Some [[\<lparr>de_reclen = 24, de_type = 4, de_name = ''m''\<rparr>]]
      else if dj_path job = ''/m'' then Some [[\<lparr>de_reclen = 24, de_type = 8, de_name = ''f''\<rparr>]] else None)"
  by (simp add: directory_chunks_def sample_walk_m sample_fs_def chunk_entries_def)

lemma sample_process:
  "dj_path job = ''/m'' \<Longrightarrow> ProcessEntry (sample_walk [''/m'']) job \<lparr>de_reclen = 24, de_type = 8, de_name = ''f''\<rparr> =
     Some (EmitFileEntry ''/m/f'' file_stat, None)"
  "dj_path job = ''/'' \<Longrightarrow> ProcessEntry (sample_walk [''/m'']) job \<lparr>de_reclen = 24, de_type = 4, de_name = ''m''\<rparr> =
     Some (EmitFileEntry ''/m'' (dir_stat 2), Some \<lparr>dj_path = ''/m'', dj_allowedDev = 2\<rparr>)"
  by (simp_all add: ProcessEntry_def sample_walk_m sample_fs_def stat_kinds DT_LNK_def JoinChild_def
      IsPathExcluded_def) (simp_all add: dir_stat_def Let_def)

lemma sample_finite: "finite_tree (sample_walk [''/m'']) sample_cost"
  by (auto simp: finite_tree_def sample_chunks entry_cost_def sample_process sample_cost_def)

lemma sample_named: "named_entries (sample_walk [''/m''])"
  by (simp add: named_entries_def dir_entries_def sample_chunks)

definition sample_root :: DirJob where
  "sample_root = \<lparr>dj_path = ''/m'', dj_allowedDev = 2\<rparr>"

lemma sample_start: "Scan_roots (sample_walk [''/m'']) [''/m''] = ([], [sample_root])"
  by (simp add: sample_root_def sample_walk_m sample_fs_def IsPathExcluded_def stat_kinds) (simp add: dir_stat_def)

section \<open>Properties\<close>

lemma scan_run_exists:
  "finite_tree wk W \<Longrightarrow> queue_inv s \<Longrightarrow>
   \<exists>n t. scan_run wk s n t \<and> scan_ended t \<and> sc_cancelled t = sc_cancelled s"
proof (induction "scan_cost wk W s" arbitrary: s rule: less_induct)
  case less
  show ?case
  proof (cases "scan_ended s")
    case True
    then show ?thesis using scan_run.start by blast
  next
    case False
    then obtain u where u: "walk_step wk s u" "sc_cancelled u = sc_cancelled s"
      using walk_progress less.prems(2) by blast
    then obtain n t where t: "scan_run wk u n t" "scan_ended t" "sc_cancelled t = sc_cancelled u"
      using less.hyps [OF walk_step_cost [OF u(1) less.prems(1)] less.prems(1)]
        queue_inv_step [OF less.prems(2) u(1)] by blast
    have "scan_run wk s (Suc n) t"
      using t(1) u(1) by (induction rule: scan_run.induct) (blast intro: scan_run.intros)+
    with t u show ?thesis by auto
  qed
qed

lemma sample_traverse:
  "traverse (sample_walk [''/m'']) (sample_cost sample_root) sample_root =
     {#EmitFileEntry ''/m/f'' file_stat#}"
proof -
  have "traverse (sample_walk [''/m'']) (Suc m) sample_root = {#EmitFileEntry ''/m/f'' file_stat#}" for m
    by (simp add: dir_entries_def sample_chunks entry_tree_def sample_process sample_root_def)
  then show ?thesis
    by (simp add: sample_cost_def sample_root_def numeral_eq_Suc del: traverse.simps)
qed

lemma sample_scan_run:
  "\<exists>n s. scan_run (sample_walk [''/m'']) (Scan_start (sample_walk [''/m'']) 4 False) n s \<and>
     scan_ended s \<and> \<not> sc_cancelled s"
proof -
  have "\<not> sc_cancelled (Scan_start (sample_walk [''/m'']) 4 False)"
    by (simp add: Scan_start_def Let_def split: prod.splits)
  then show ?thesis
    using scan_run_exists [OF sample_finite queue_inv_start [of "sample_walk [''/m'']" 4 False]] by auto
qed

text \<open>C30: A scan of a finite tree always ends, whatever the number of workers, their interleaving
  and the moment of cancellation: the number of steps is bounded by the cost of the tree, and
  while a worker has not ended some worker can step, so the workers never wait for each
  other for ever.\<close>

theorem Scan_terminates:
  assumes "finite_tree wk W" "scan_run wk (Scan_start wk k c) n s"
  shows "n \<le> scan_cost wk W (Scan_start wk k c) \<and>
    (scan_ended s \<or> (\<exists>t. walk_step wk s t \<and> sc_cancelled t = sc_cancelled s))"
  using scan_run_cost [OF assms(2,1)] walk_progress [OF scan_run_queue_inv [OF assms(2) queue_inv_start]]
  by auto

theorem Scan_terminates_witness:
  "\<exists>t. walk_step (sample_walk [''/m'']) (Scan_start (sample_walk [''/m'']) 4 False) t"
proof -
  have "\<not> scan_ended (Scan_start (sample_walk [''/m'']) 4 False)"
    by (simp add: scan_ended_def Scan_start_def sample_walk_m sample_start numeral_eq_Suc
        del: Scan_roots.simps)
  with Scan_terminates [OF sample_finite scan_run.start, of 4 False] show ?thesis by auto
qed

lemma scan_reports:
  assumes "finite_tree wk W" "scan_run wk (Scan_start wk k False) n s"
    and "Scan_roots wk (wk_roots wk) = (es, jobs)"
  shows "mset (sc_emitted s) \<subseteq># mset es + (\<Sum>job \<leftarrow> jobs. traverse wk (W job) job) \<and>
    (scan_ended s \<and> \<not> sc_cancelled s \<longrightarrow>
      mset (sc_emitted s) = mset es + (\<Sum>job \<leftarrow> jobs. traverse wk (W job) job) \<and>
      sc_filesFound s = word_of_nat (length (sc_emitted s)))"
proof -
  have inv: "queue_inv s" by (rule scan_run_queue_inv [OF assms(2) queue_inv_start])
  have "sum_list (map (worker_rest wk W) (replicate m WkIdle)) = {#}" for m
    by (induction m) simp_all
  then have "scan_pending wk W (Scan_start wk k False) = mset es + (\<Sum>job \<leftarrow> jobs. traverse wk (W job) job)"
    by (simp add: scan_pending_def Scan_start_def assms(3) subtree_def [abs_def] Let_def del: map_replicate)
  moreover have "mset (sc_emitted s) \<subseteq># scan_pending wk W s"
    by (simp add: scan_pending_def add.assoc)
  ultimately show ?thesis
    using scan_run_pending [OF assms(2,1)] ended_pending [OF inv, of wk W] inv
    by (auto simp: queue_inv_def intro: subset_mset.order_trans)
qed

lemma Scan_ended_tree:
  assumes "finite_tree wk W" "scan_run wk (Scan_start wk k False) n s"
    and "Scan_roots wk (wk_roots wk) = (es, jobs)" "scan_ended s" "\<not> sc_cancelled s"
  shows "mset (sc_emitted s) = mset es + (\<Sum>job \<leftarrow> jobs. traverse wk (W job) job)"
  using scan_reports [OF assms(1-3)] assms(4,5) by simp

text \<open>C29: The parallel walk reports what a sequential one does: at the end of an uncancelled scan
  the entries are, each as often, those of a depth-first traversal of the root directories
  plus the root files, and the count of files is their number; during any run, cancelled or
  not, no entry outside the traversal is ever reported.\<close>

theorem Scan_equals_traversal:
  assumes "finite_tree wk W" "scan_run wk (Scan_start wk k False) n s"
    and "Scan_roots wk (wk_roots wk) = (es, jobs)"
  shows "mset (sc_emitted s) \<subseteq># mset es + (\<Sum>job \<leftarrow> jobs. traverse wk (W job) job) \<and>
    (scan_ended s \<and> \<not> sc_cancelled s \<longrightarrow>
      mset (sc_emitted s) = mset es + (\<Sum>job \<leftarrow> jobs. traverse wk (W job) job) \<and>
      sc_filesFound s = word_of_nat (length (sc_emitted s)))"
  by (rule scan_reports [OF assms])

theorem Scan_equals_traversal_witness:
  "\<exists>n s. scan_run (sample_walk [''/m'']) (Scan_start (sample_walk [''/m'']) 4 False) n s \<and>
     sc_emitted s = [EmitFileEntry ''/m/f'' file_stat]"
proof -
  obtain n s where s: "scan_run (sample_walk [''/m'']) (Scan_start (sample_walk [''/m'']) 4 False) n s"
    "scan_ended s" "\<not> sc_cancelled s"
    using sample_scan_run by blast
  then have "mset (sc_emitted s) = {#EmitFileEntry ''/m/f'' file_stat#}"
    using Scan_equals_traversal [OF sample_finite s(1), of "[]" "[sample_root]"]
    by (simp add: sample_walk_m sample_start sample_traverse del: Scan_roots.simps)
  then show ?thesis
    using s(1) by (intro exI [of _ n] exI [of _ s]) (cases "sc_emitted s"; simp)
qed

text \<open>Every entry a scan reports, at any moment, lies at or below a selected root, is under no
  excluded folder, and is named by the last component of its path.\<close>

lemma Scan_entries_sound:
  assumes "named_entries wk" "scan_run wk (Scan_start wk k c) n s" "e \<in> set (sc_emitted s)"
  shows "(\<exists>r \<in> set (wk_roots wk). IsUnderOrEqual (fe_path e) r) \<and>
    (\<forall>x \<in> set (wk_excluded wk). \<not> IsPathUnderOrEqual (fe_path e) x) \<and>
    fe_name e = basename (fe_path e)"
  using sound_scan_run [OF assms(2) sound_scan_start assms(1)] assms(3)
  by (auto simp: sound_scan_def list_all_iff list_ex_iff entry_sound_def under_roots_def IsPathExcluded_def)

lemma Scan_entries_sound_witness:
  "\<exists>n s. scan_run (sample_walk [''/m'']) (Scan_start (sample_walk [''/m'']) 4 False) n s \<and>
     (\<forall>e \<in> set (sc_emitted s). IsUnderOrEqual (fe_path e) ''/m'')"
proof -
  obtain n s where s: "scan_run (sample_walk [''/m'']) (Scan_start (sample_walk [''/m'']) 4 False) n s"
    using scan_run_exists [OF sample_finite queue_inv_start [of "sample_walk [''/m'']" 4 False]] by blast
  with Scan_entries_sound [OF sample_named s] show ?thesis
    by (auto simp: sample_walk_m)
qed

end
