(* ===== verification/Inotify_Watcher.thy ===== *)
theory Inotify_Watcher
  imports File_Types Walk_Scanner
begin

text \<open>
  The inotify monitor (\<open>indexer/InotifyWatcher.{h,cpp}\<close>): the table of watches, the walks that
  add them, and the batches of kernel events, in which the two halves of a rename are paired.
  What the kernel answers when a watch is added and what a walk of a directory finds are
  parameters of each event (a walk that is stopped or fails finds fewer). The theory shows
  that the reported changes say what the kernel events say, and where they do not.
\<close>

section \<open>The watch table\<close>

record WatchTable =
  wt_wdToPath :: "int \<rightharpoonup> string"
  wt_pathToWd :: "string \<rightharpoonup> int"

definition empty_table :: WatchTable where
  "empty_table = \<lparr>wt_wdToPath = Map.empty, wt_pathToWd = Map.empty\<rparr>"

definition WatchTable_Add :: "int \<Rightarrow> string \<Rightarrow> WatchTable \<Rightarrow> WatchTable" where
  "WatchTable_Add wd path w =
     w\<lparr>wt_wdToPath := (wt_wdToPath w)(wd \<mapsto> path), wt_pathToWd := (wt_pathToWd w)(path \<mapsto> wd)\<rparr>"

definition RemoveByWd :: "int \<Rightarrow> WatchTable \<Rightarrow> WatchTable" where
  "RemoveByWd wd w =
     (case wt_wdToPath w wd of
        None \<Rightarrow> w
      | Some path \<Rightarrow>
          w\<lparr>wt_pathToWd := (wt_pathToWd w)(path := None), wt_wdToPath := (wt_wdToPath w)(wd := None)\<rparr>)"

definition PathFor :: "int \<Rightarrow> WatchTable \<Rightarrow> string" where
  "PathFor wd w = (case wt_wdToPath w wd of None \<Rightarrow> [] | Some path \<Rightarrow> path)"

definition WdFor :: "string \<Rightarrow> WatchTable \<Rightarrow> int option" where
  "WdFor path w = wt_pathToWd w path"

definition WatchTable_Size :: "WatchTable \<Rightarrow> nat" where
  "WatchTable_Size w = card (dom (wt_wdToPath w))"

section \<open>Walks\<close>

datatype AddResult = Wd int | WatchLimit | AddFailed

datatype NodeKind = Symlink | Directory | OtherNode

text \<open>What the kernel and the file system answer: the result of \<open>inotify_add_watch\<close>, and what
  each of the two walks of a directory finds, in its order.\<close>

record WatchEnv =
  we_add :: "string \<Rightarrow> AddResult"
  we_watchWalk :: "string \<Rightarrow> (string \<times> NodeKind) list"
  we_emitWalk :: "string \<Rightarrow> (string \<times> NodeKind) list"

record Monitor =
  mo_watches :: WatchTable
  mo_limitExceeded :: bool

definition AddWatch :: "WatchEnv \<Rightarrow> string \<Rightarrow> Monitor \<Rightarrow> Monitor \<times> bool" where
  "AddWatch env dir m =
     (case we_add env dir of
        Wd wd \<Rightarrow> (m\<lparr>mo_watches := WatchTable_Add wd dir (mo_watches m)\<rparr>, True)
      | WatchLimit \<Rightarrow> (m\<lparr>mo_limitExceeded := True\<rparr>, False)
      | AddFailed \<Rightarrow> (m, False))"

fun AddWatches_walk :: "WatchEnv \<Rightarrow> (string \<times> NodeKind) list \<Rightarrow> Monitor \<Rightarrow> Monitor" where
  "AddWatches_walk env [] m = m"
| "AddWatches_walk env ((path, kind) # rest) m =
     AddWatches_walk env rest (if kind = Directory then fst (AddWatch env path m) else m)"

definition AddWatchesRecursive :: "WatchEnv \<Rightarrow> string \<Rightarrow> Monitor \<Rightarrow> Monitor" where
  "AddWatchesRecursive env root m =
     AddWatches_walk env (we_watchWalk env root) (fst (AddWatch env root m))"

definition added_event :: "string \<Rightarrow> FileChangeEvent" where
  "added_event path = \<lparr>fc_type = Added, fc_path = path, fc_oldPath = []\<rparr>"

definition removed_event :: "string \<Rightarrow> FileChangeEvent" where
  "removed_event path = \<lparr>fc_type = Removed, fc_path = path, fc_oldPath = []\<rparr>"

definition WatchAndEmitNewSubtree :: "WatchEnv \<Rightarrow> string \<Rightarrow> Monitor \<Rightarrow> Monitor \<times> FileChangeEvent list" where
  "WatchAndEmitNewSubtree env dir m =
     (AddWatchesRecursive env dir m,
      map (\<lambda>(path, kind). added_event path) (filter (\<lambda>(path, kind). kind \<noteq> Symlink) (we_emitWalk env dir)))"

section \<open>Events\<close>

definition IN_MODIFY :: u32 where "IN_MODIFY = 0x2"
definition IN_CLOSE_WRITE :: u32 where "IN_CLOSE_WRITE = 0x8"
definition IN_MOVED_FROM :: u32 where "IN_MOVED_FROM = 0x40"
definition IN_MOVED_TO :: u32 where "IN_MOVED_TO = 0x80"
definition IN_CREATE :: u32 where "IN_CREATE = 0x100"
definition IN_DELETE :: u32 where "IN_DELETE = 0x200"
definition IN_Q_OVERFLOW :: u32 where "IN_Q_OVERFLOW = 0x4000"
definition IN_IGNORED :: u32 where "IN_IGNORED = 0x8000"
definition IN_ISDIR :: u32 where "IN_ISDIR = 0x40000000"

lemmas in_bits = IN_MODIFY_def IN_CLOSE_WRITE_def IN_MOVED_FROM_def IN_MOVED_TO_def IN_CREATE_def
  IN_DELETE_def IN_Q_OVERFLOW_def IN_IGNORED_def IN_ISDIR_def

definition has_bit :: "u32 \<Rightarrow> u32 \<Rightarrow> bool" where
  "has_bit msk b \<longleftrightarrow> msk AND b \<noteq> 0"

text \<open>One record of a read; a record of length 0 has no name.\<close>

record InotifyEvent =
  ie_wd :: int
  ie_mask :: u32
  ie_cookie :: u32
  ie_name :: string

record PendingMove =
  pm_path :: string
  pm_isDir :: bool

record Batch =
  ba_monitor :: Monitor
  ba_pendingMovedFrom :: "u32 \<rightharpoonup> PendingMove"
  ba_changes :: "FileChangeEvent list"
  ba_removedWatches :: "int list"

definition report :: "FileChangeEvent \<Rightarrow> Batch \<Rightarrow> Batch" where
  "report ev b = b\<lparr>ba_changes := ba_changes b @ [ev]\<rparr>"

definition watch_new :: "WatchEnv \<Rightarrow> bool \<Rightarrow> string \<Rightarrow> Batch \<Rightarrow> Batch" where
  "watch_new env isDir path b =
     (if isDir then
        let (m, evs) = WatchAndEmitNewSubtree env path (ba_monitor b)
        in b\<lparr>ba_monitor := m, ba_changes := ba_changes b @ evs\<rparr>
      else b)"

definition HandleEvent :: "WatchEnv \<Rightarrow> InotifyEvent \<Rightarrow> Batch \<Rightarrow> Batch" where
  "HandleEvent env event b =
     (let msk = ie_mask event; m = ba_monitor b
      in if has_bit msk IN_IGNORED then
           b\<lparr>ba_monitor := m\<lparr>mo_watches := RemoveByWd (ie_wd event) (mo_watches m)\<rparr>\<rparr>
         else if has_bit msk IN_Q_OVERFLOW then b
         else
           let parentPath = PathFor (ie_wd event) (mo_watches m)
           in if parentPath = [] then b
              else
                let name = ie_name event;
                    path = (if name = [] then parentPath else JoinChild parentPath name);
                    isDir = has_bit msk IN_ISDIR
                in if has_bit msk IN_CREATE then
                     watch_new env isDir path (report (added_event path) b)
                   else if has_bit msk IN_DELETE then report (removed_event path) b
                   else if has_bit msk IN_MOVED_FROM then
                     b\<lparr>ba_pendingMovedFrom :=
                         (ba_pendingMovedFrom b)(ie_cookie event \<mapsto> \<lparr>pm_path = path, pm_isDir = isDir\<rparr>)\<rparr>
                   else if has_bit msk IN_MOVED_TO then
                     let b = (case ba_pendingMovedFrom b (ie_cookie event) of
                                Some pending \<Rightarrow>
                                  (report \<lparr>fc_type = Renamed, fc_path = path, fc_oldPath = pm_path pending\<rparr> b)
                                    \<lparr>ba_pendingMovedFrom :=
                                       (ba_pendingMovedFrom b)(ie_cookie event := None)\<rparr>
                              | None \<Rightarrow> report (added_event path) b)
                     in watch_new env isDir path b
                   else if has_bit msk (IN_MODIFY OR IN_CLOSE_WRITE) then
                     report \<lparr>fc_type = Modified, fc_path = path, fc_oldPath = []\<rparr> b
                   else b)"

fun HandleEvents :: "(WatchEnv \<times> InotifyEvent) list \<Rightarrow> Batch \<Rightarrow> Batch" where
  "HandleEvents [] b = b"
| "HandleEvents ((env, event) # rest) b = HandleEvents rest (HandleEvent env event b)"

text \<open>The end of a batch, over the unmatched moves in the order the hash map gives them.\<close>

fun FinishBatch :: "PendingMove list \<Rightarrow> Batch \<Rightarrow> Batch" where
  "FinishBatch [] b = b"
| "FinishBatch (pending # rest) b =
     (let b = report (removed_event (pm_path pending)) b;
          b = (if pm_isDir pending then
                 case WdFor (pm_path pending) (mo_watches (ba_monitor b)) of
                   None \<Rightarrow> b
                 | Some wd \<Rightarrow>
                     b\<lparr>ba_removedWatches := ba_removedWatches b @ [wd],
                       ba_monitor := (ba_monitor b)\<lparr>mo_watches := RemoveByWd wd (mo_watches (ba_monitor b))\<rparr>\<rparr>
               else b)
      in FinishBatch rest b)"

definition begin_batch :: "Monitor \<Rightarrow> Batch" where
  "begin_batch m = \<lparr>ba_monitor = m, ba_pendingMovedFrom = Map.empty, ba_changes = [],
     ba_removedWatches = []\<rparr>"

text \<open>One wake-up of the loop; \<open>order\<close> lists the unmatched cookies.\<close>

definition RunBatch :: "(WatchEnv \<times> InotifyEvent) list \<Rightarrow> u32 list \<Rightarrow> Monitor \<Rightarrow> Batch" where
  "RunBatch events order m =
     (let b = HandleEvents events (begin_batch m)
      in FinishBatch (map (\<lambda>c. the (ba_pendingMovedFrom b c)) order) b)"

fun RunBatches :: "((WatchEnv \<times> InotifyEvent) list \<times> u32 list) list \<Rightarrow> Monitor \<Rightarrow>
  Monitor \<times> FileChangeEvent list" where
  "RunBatches [] m = (m, [])"
| "RunBatches ((events, order) # rest) m =
     (let b = RunBatch events order m;
          (m', evs) = RunBatches rest (ba_monitor b)
      in (m', ba_changes b @ evs))"

text \<open>The monitor from its start to its stop; nothing when the root is no directory or inotify
  cannot be opened. The number is the initial count of watches.\<close>

definition Inotify_StartMonitoring ::
  "bool \<Rightarrow> bool \<Rightarrow> WatchEnv \<Rightarrow> string \<Rightarrow> ((WatchEnv \<times> InotifyEvent) list \<times> u32 list) list \<Rightarrow>
   (nat \<times> Monitor \<times> FileChangeEvent list) option"
where
  "Inotify_StartMonitoring isDirectory initOk env root batches =
     (if \<not> isDirectory then None
      else if \<not> initOk then None
      else
        let m = AddWatchesRecursive env root \<lparr>mo_watches = empty_table, mo_limitExceeded = False\<rparr>;
            (m', evs) = RunBatches batches m
        in Some (WatchTable_Size (mo_watches m), m', evs))"

definition Inotify_IsAvailable :: "bool \<Rightarrow> bool \<Rightarrow> bool" where
  "Inotify_IsAvailable isDirectory initOk \<longleftrightarrow> isDirectory \<and> initOk"

section \<open>What the changes say\<close>

text \<open>The set of paths after a list of reported changes, and after a list of kernel events.\<close>

definition change_effect :: "FileChangeEvent \<Rightarrow> string set \<Rightarrow> string set" where
  "change_effect ev ps =
     (case fc_type ev of
        Added \<Rightarrow> insert (fc_path ev) ps
      | Removed \<Rightarrow> ps - {fc_path ev}
      | Renamed \<Rightarrow> insert (fc_path ev) (ps - {fc_oldPath ev})
      | Modified \<Rightarrow> ps)"

definition changes_effect :: "FileChangeEvent list \<Rightarrow> string set \<Rightarrow> string set" where
  "changes_effect evs ps = fold change_effect evs ps"

lemma changes_effect_simps [simp]:
  "changes_effect [] ps = ps"
  "changes_effect (evs @ [ev]) ps = change_effect ev (changes_effect evs ps)"
  by (simp_all add: changes_effect_def)

definition event_path :: "WatchTable \<Rightarrow> InotifyEvent \<Rightarrow> string" where
  "event_path w ev =
     (let parentPath = PathFor (ie_wd ev) w
      in if ie_name ev = [] then parentPath else JoinChild parentPath (ie_name ev))"

definition kernel_effect :: "WatchTable \<Rightarrow> InotifyEvent \<Rightarrow> string set \<Rightarrow> string set" where
  "kernel_effect w ev ps =
     (if has_bit (ie_mask ev) IN_CREATE \<or> has_bit (ie_mask ev) IN_MOVED_TO then insert (event_path w ev) ps
      else if has_bit (ie_mask ev) IN_DELETE \<or> has_bit (ie_mask ev) IN_MOVED_FROM then ps - {event_path w ev}
      else ps)"

text \<open>A kernel event of a file in a watched directory: one kind.\<close>

definition file_event :: "WatchTable \<Rightarrow> InotifyEvent \<Rightarrow> bool" where
  "file_event w ev \<longleftrightarrow> PathFor (ie_wd ev) w \<noteq> [] \<and>
     ie_mask ev \<in> {IN_MODIFY, IN_CLOSE_WRITE, IN_MOVED_FROM, IN_MOVED_TO, IN_CREATE, IN_DELETE}"

lemma has_bit_kinds [simp]:
  "\<not> has_bit IN_MODIFY IN_IGNORED" "\<not> has_bit IN_MODIFY IN_Q_OVERFLOW"
  "\<not> has_bit IN_MODIFY IN_ISDIR" "\<not> has_bit IN_MODIFY IN_CREATE"
  "\<not> has_bit IN_MODIFY IN_DELETE" "\<not> has_bit IN_MODIFY IN_MOVED_FROM"
  "\<not> has_bit IN_MODIFY IN_MOVED_TO" "\<not> has_bit IN_CLOSE_WRITE IN_IGNORED"
  "\<not> has_bit IN_CLOSE_WRITE IN_Q_OVERFLOW" "\<not> has_bit IN_CLOSE_WRITE IN_ISDIR"
  "\<not> has_bit IN_CLOSE_WRITE IN_CREATE" "\<not> has_bit IN_CLOSE_WRITE IN_DELETE"
  "\<not> has_bit IN_CLOSE_WRITE IN_MOVED_FROM" "\<not> has_bit IN_CLOSE_WRITE IN_MOVED_TO"
  "\<not> has_bit IN_MOVED_FROM IN_IGNORED" "\<not> has_bit IN_MOVED_FROM IN_Q_OVERFLOW"
  "\<not> has_bit IN_MOVED_FROM IN_ISDIR" "\<not> has_bit IN_MOVED_FROM IN_CREATE"
  "\<not> has_bit IN_MOVED_FROM IN_DELETE" "has_bit IN_MOVED_FROM IN_MOVED_FROM"
  "\<not> has_bit IN_MOVED_FROM IN_MOVED_TO" "\<not> has_bit IN_MOVED_TO IN_IGNORED"
  "\<not> has_bit IN_MOVED_TO IN_Q_OVERFLOW" "\<not> has_bit IN_MOVED_TO IN_ISDIR"
  "\<not> has_bit IN_MOVED_TO IN_CREATE" "\<not> has_bit IN_MOVED_TO IN_DELETE"
  "\<not> has_bit IN_MOVED_TO IN_MOVED_FROM" "has_bit IN_MOVED_TO IN_MOVED_TO"
  "\<not> has_bit IN_CREATE IN_IGNORED" "\<not> has_bit IN_CREATE IN_Q_OVERFLOW"
  "\<not> has_bit IN_CREATE IN_ISDIR" "has_bit IN_CREATE IN_CREATE"
  "\<not> has_bit IN_CREATE IN_DELETE" "\<not> has_bit IN_CREATE IN_MOVED_FROM"
  "\<not> has_bit IN_CREATE IN_MOVED_TO" "\<not> has_bit IN_DELETE IN_IGNORED"
  "\<not> has_bit IN_DELETE IN_Q_OVERFLOW" "\<not> has_bit IN_DELETE IN_ISDIR"
  "\<not> has_bit IN_DELETE IN_CREATE" "has_bit IN_DELETE IN_DELETE"
  "\<not> has_bit IN_DELETE IN_MOVED_FROM" "\<not> has_bit IN_DELETE IN_MOVED_TO"
  "has_bit IN_MODIFY (IN_MODIFY OR IN_CLOSE_WRITE)"
  "has_bit IN_CLOSE_WRITE (IN_MODIFY OR IN_CLOSE_WRITE)"
  by (simp_all add: has_bit_def in_bits)

lemma in_bits_distinct [simp]:
  "IN_MODIFY \<noteq> IN_CLOSE_WRITE" "IN_MODIFY \<noteq> IN_MOVED_FROM"
  "IN_MODIFY \<noteq> IN_MOVED_TO" "IN_MODIFY \<noteq> IN_CREATE" "IN_MODIFY \<noteq> IN_DELETE"
  "IN_CLOSE_WRITE \<noteq> IN_MODIFY" "IN_CLOSE_WRITE \<noteq> IN_MOVED_FROM"
  "IN_CLOSE_WRITE \<noteq> IN_MOVED_TO" "IN_CLOSE_WRITE \<noteq> IN_CREATE"
  "IN_CLOSE_WRITE \<noteq> IN_DELETE" "IN_MOVED_FROM \<noteq> IN_MODIFY"
  "IN_MOVED_FROM \<noteq> IN_CLOSE_WRITE" "IN_MOVED_FROM \<noteq> IN_MOVED_TO"
  "IN_MOVED_FROM \<noteq> IN_CREATE" "IN_MOVED_FROM \<noteq> IN_DELETE"
  "IN_MOVED_TO \<noteq> IN_MODIFY" "IN_MOVED_TO \<noteq> IN_CLOSE_WRITE"
  "IN_MOVED_TO \<noteq> IN_MOVED_FROM" "IN_MOVED_TO \<noteq> IN_CREATE"
  "IN_MOVED_TO \<noteq> IN_DELETE" "IN_CREATE \<noteq> IN_MODIFY"
  "IN_CREATE \<noteq> IN_CLOSE_WRITE" "IN_CREATE \<noteq> IN_MOVED_FROM"
  "IN_CREATE \<noteq> IN_MOVED_TO" "IN_CREATE \<noteq> IN_DELETE" "IN_DELETE \<noteq> IN_MODIFY"
  "IN_DELETE \<noteq> IN_CLOSE_WRITE" "IN_DELETE \<noteq> IN_MOVED_FROM"
  "IN_DELETE \<noteq> IN_MOVED_TO" "IN_DELETE \<noteq> IN_CREATE"
  by (simp_all add: in_bits)

text \<open>What a batch is taken to be: events of files in watched directories in which no path that
  is waiting for the second half of its move is named again, but by that second half.\<close>

fun well_paired :: "WatchTable \<Rightarrow> (u32 \<rightharpoonup> string) \<Rightarrow> InotifyEvent list \<Rightarrow> bool" where
  "well_paired w P [] \<longleftrightarrow> True"
| "well_paired w P (ev # evs) \<longleftrightarrow>
     file_event w ev \<and>
     (if ie_mask ev = IN_MOVED_FROM then
        P (ie_cookie ev) = None \<and> event_path w ev \<notin> ran P \<and>
        well_paired w (P(ie_cookie ev \<mapsto> event_path w ev)) evs
      else if ie_mask ev = IN_MOVED_TO then
        event_path w ev \<notin> ran (P(ie_cookie ev := None)) \<and> well_paired w (P(ie_cookie ev := None)) evs
      else event_path w ev \<notin> ran P \<and> well_paired w P evs)"

definition pending_paths :: "Batch \<Rightarrow> u32 \<rightharpoonup> string" where
  "pending_paths b = map_option pm_path \<circ> ba_pendingMovedFrom b"

definition files_pending :: "Batch \<Rightarrow> bool" where
  "files_pending b \<longleftrightarrow> (\<forall>p \<in> ran (ba_pendingMovedFrom b). \<not> pm_isDir p) \<and>
     (\<forall>c d p. pending_paths b c = Some p \<longrightarrow> pending_paths b d = Some p \<longrightarrow> c = d)"

lemma file_event_cases:
  "file_event w ev \<Longrightarrow> ie_mask ev = IN_MODIFY \<or> ie_mask ev = IN_CLOSE_WRITE \<or> ie_mask ev = IN_MOVED_FROM \<or>
     ie_mask ev = IN_MOVED_TO \<or> ie_mask ev = IN_CREATE \<or> ie_mask ev = IN_DELETE"
  by (auto simp: file_event_def)

lemma HandleEvent_file:
  assumes "file_event w ev" "mo_watches (ba_monitor b) = w"
  shows "HandleEvent env ev b =
    (if ie_mask ev = IN_CREATE then report (added_event (event_path w ev)) b
     else if ie_mask ev = IN_DELETE then report (removed_event (event_path w ev)) b
     else if ie_mask ev = IN_MOVED_FROM then
       b\<lparr>ba_pendingMovedFrom := (ba_pendingMovedFrom b)
           (ie_cookie ev \<mapsto> \<lparr>pm_path = event_path w ev, pm_isDir = False\<rparr>)\<rparr>
     else if ie_mask ev = IN_MOVED_TO then
       (case ba_pendingMovedFrom b (ie_cookie ev) of
          Some p \<Rightarrow> (report \<lparr>fc_type = Renamed, fc_path = event_path w ev, fc_oldPath = pm_path p\<rparr> b)
            \<lparr>ba_pendingMovedFrom := (ba_pendingMovedFrom b)(ie_cookie ev := None)\<rparr>
        | None \<Rightarrow> report (added_event (event_path w ev)) b)
     else report \<lparr>fc_type = Modified, fc_path = event_path w ev, fc_oldPath = []\<rparr> b)"
proof -
  have "PathFor (ie_wd ev) w \<noteq> []" using assms(1) by (simp add: file_event_def)
  then show ?thesis
    using file_event_cases [OF assms(1)] assms(2)
    by (elim disjE)
      (simp_all add: HandleEvent_def event_path_def watch_new_def Let_def split: option.splits)
qed

lemma kernel_effect_file:
  assumes "file_event w ev"
  shows "kernel_effect w ev ps =
    (if ie_mask ev = IN_CREATE \<or> ie_mask ev = IN_MOVED_TO then insert (event_path w ev) ps
     else if ie_mask ev = IN_DELETE \<or> ie_mask ev = IN_MOVED_FROM then ps - {event_path w ev} else ps)"
  using file_event_cases [OF assms] by (elim disjE) (simp_all add: kernel_effect_def)

lemma ran_remove:
  assumes "\<And>c d p. P c = Some p \<Longrightarrow> P d = Some p \<Longrightarrow> c = d" "P c = Some p"
  shows "ran (P(c := None)) = ran P - {p}"
proof -
  have "ran (P(c := None)) = {x. \<exists>d. d \<noteq> c \<and> P d = Some x}"
    by (auto simp: ran_def)
  moreover have "(\<exists>d. d \<noteq> c \<and> P d = Some x) \<longleftrightarrow> (\<exists>d. P d = Some x) \<and> x \<noteq> p" for x
    using assms(1) [of c p] assms(2) by (metis option.inject)
  ultimately show ?thesis by (simp add: ran_def set_diff_eq)
qed

lemma HandleEvent_tracks:
  assumes "file_event w ev" "mo_watches (ba_monitor b) = w" "files_pending b"
    and "well_paired w (pending_paths b) (ev # evs)"
    and "t = HandleEvent env ev b"
  shows "mo_watches (ba_monitor t) = w" "files_pending t" "well_paired w (pending_paths t) evs"
    "changes_effect (ba_changes t) s0 - ran (pending_paths t) =
       kernel_effect w ev (changes_effect (ba_changes b) s0 - ran (pending_paths b))"
proof -
  note h = HandleEvent_file [OF assms(1,2), of env] kernel_effect_file [OF assms(1)]
  have files: "\<forall>p \<in> ran (ba_pendingMovedFrom b). \<not> pm_isDir p"
    using assms(3) by (simp add: files_pending_def)
  have inj: "\<And>c d p. pending_paths b c = Some p \<Longrightarrow> pending_paths b d = Some p \<Longrightarrow> c = d"
    using assms(3) by (auto simp: files_pending_def)
  consider (move) "ie_mask ev = IN_MOVED_FROM" | (arrive) p where "ie_mask ev = IN_MOVED_TO"
      "ba_pendingMovedFrom b (ie_cookie ev) = Some p" | (come) "ie_mask ev = IN_MOVED_TO"
      "ba_pendingMovedFrom b (ie_cookie ev) = None"
    | (plain) "ie_mask ev \<noteq> IN_MOVED_FROM" "ie_mask ev \<noteq> IN_MOVED_TO" by fastforce
  then have "mo_watches (ba_monitor t) = w \<and> files_pending t \<and> well_paired w (pending_paths t) evs \<and>
    changes_effect (ba_changes t) s0 - ran (pending_paths t) =
       kernel_effect w ev (changes_effect (ba_changes b) s0 - ran (pending_paths b))"
  proof cases
    case move
    have t: "t = b\<lparr>ba_pendingMovedFrom := (ba_pendingMovedFrom b)
           (ie_cookie ev \<mapsto> \<lparr>pm_path = event_path w ev, pm_isDir = False\<rparr>)\<rparr>"
      using move by (simp add: assms(5) h)
    have pp: "pending_paths t = (pending_paths b)(ie_cookie ev \<mapsto> event_path w ev)"
      by (auto simp: t pending_paths_def)
    have new: "pending_paths b (ie_cookie ev) = None" "event_path w ev \<notin> ran (pending_paths b)"
      "well_paired w (pending_paths t) evs"
      using assms(4) move by (simp_all add: pp)
    have "files_pending t"
      using files new(2) inj unfolding files_pending_def pp by (auto simp: t ran_def)
    with new show ?thesis
      using assms(2) by (auto simp: pp h(2) move) (auto simp: t)
  next
    case (arrive p)
    have t: "t = (report \<lparr>fc_type = Renamed, fc_path = event_path w ev, fc_oldPath = pm_path p\<rparr> b)
            \<lparr>ba_pendingMovedFrom := (ba_pendingMovedFrom b)(ie_cookie ev := None)\<rparr>"
      using arrive by (simp add: assms(5) h)
    have pp: "pending_paths t = (pending_paths b)(ie_cookie ev := None)"
      by (auto simp: t pending_paths_def report_def)
    have p: "pending_paths b (ie_cookie ev) = Some (pm_path p)"
      using arrive(2) by (simp add: pending_paths_def)
    have ran: "ran (pending_paths t) = ran (pending_paths b) - {pm_path p}"
      unfolding pp using inj p by (rule ran_remove)
    have new: "event_path w ev \<notin> ran (pending_paths t)" "well_paired w (pending_paths t) evs"
      using assms(4) arrive by (simp_all add: pp)
    have "files_pending t"
      using files inj unfolding files_pending_def pp by (auto simp: t ran_def report_def split: if_splits)
    moreover have "changes_effect (ba_changes t) s0 =
        insert (event_path w ev) (changes_effect (ba_changes b) s0 - {pm_path p})"
      by (simp add: t report_def change_effect_def)
    moreover have "mo_watches (ba_monitor t) = w" using assms(2) by (simp add: t report_def)
    ultimately show ?thesis
      using new p ran by (auto simp: h(2) arrive(1) intro: ranI)
  next
    case come
    have t: "t = report (added_event (event_path w ev)) b"
      using come by (simp add: assms(5) h)
    have pp: "pending_paths t = pending_paths b" "(pending_paths b)(ie_cookie ev := None) = pending_paths b"
      using come by (auto simp: t pending_paths_def report_def)
    have "files_pending t"
      using assms(3) by (simp add: files_pending_def pp(1)) (simp add: t report_def)
    then show ?thesis
      using assms(2,4) come pp
      by (auto simp: h(2)) (auto simp: t report_def change_effect_def added_event_def)
  next
    case plain
    have pp: "pending_paths t = pending_paths b" "ba_pendingMovedFrom t = ba_pendingMovedFrom b"
      "mo_watches (ba_monitor t) = w"
      using plain assms(2) by (auto simp: assms(5) h pending_paths_def report_def)
    have "changes_effect (ba_changes t) s0 = kernel_effect w ev (changes_effect (ba_changes b) s0)"
      using plain by (simp add: h(2)) (simp add: assms(5) h report_def change_effect_def added_event_def
          removed_event_def)
    then show ?thesis
      using assms(3,4) plain pp by (auto simp: files_pending_def h(2))
  qed
  then show "mo_watches (ba_monitor t) = w" "files_pending t" "well_paired w (pending_paths t) evs"
    "changes_effect (ba_changes t) s0 - ran (pending_paths t) =
       kernel_effect w ev (changes_effect (ba_changes b) s0 - ran (pending_paths b))" by blast+
qed

lemma HandleEvents_tracks:
  assumes "mo_watches (ba_monitor b) = w" "files_pending b"
    and "well_paired w (pending_paths b) (map snd events)"
  shows "mo_watches (ba_monitor (HandleEvents events b)) = w \<and> files_pending (HandleEvents events b) \<and>
    changes_effect (ba_changes (HandleEvents events b)) s0 - ran (pending_paths (HandleEvents events b)) =
      fold (kernel_effect w) (map snd events) (changes_effect (ba_changes b) s0 - ran (pending_paths b))"
  using assms
proof (induction events arbitrary: b)
  case Nil
  then show ?case by simp
next
  case (Cons ee events)
  obtain env ev where ee: "ee = (env, ev)" by (cases ee)
  have "file_event w ev" "well_paired w (pending_paths b) (ev # map snd events)"
    using Cons.prems(3) ee by simp_all
  from HandleEvent_tracks [OF this(1) Cons.prems(1,2) this(2) refl, of env]
  show ?case
    using Cons.IH [of "HandleEvent env ev b"] by (simp add: ee)
qed

lemma FinishBatch_files:
  "\<forall>p \<in> set ps. \<not> pm_isDir p \<Longrightarrow>
   ba_changes (FinishBatch ps b) = ba_changes b @ map (\<lambda>p. removed_event (pm_path p)) ps \<and>
   ba_monitor (FinishBatch ps b) = ba_monitor b"
  by (induction ps arbitrary: b) (simp_all add: report_def)

lemma removed_effect:
  "fold change_effect (map (\<lambda>p. removed_event (pm_path p)) ps) qs = qs - pm_path ` set ps"
  by (induction ps arbitrary: qs) (auto simp: change_effect_def removed_event_def)

section \<open>Properties\<close>

text \<open>The changes reported for a batch say what its kernel events say: for files in watched
  directories, however creations, deletions, writes and the halves of moves are interleaved,
  replaying the reported changes gives the set of paths that the kernel events give, whether
  a move stays inside (one rename), leaves (a removal at the end of the batch) or comes in (an
  addition), as long as a path that waits for its second half is not named again.\<close>

lemma RunBatch_tracks:
  assumes "well_paired (mo_watches m) Map.empty (map snd events)"
    and "set order = dom (ba_pendingMovedFrom (HandleEvents events (begin_batch m)))"
  shows "changes_effect (ba_changes (RunBatch events order m)) ps =
      fold (kernel_effect (mo_watches m)) (map snd events) ps \<and>
    mo_watches (ba_monitor (RunBatch events order m)) = mo_watches m"
proof -
  let ?b = "HandleEvents events (begin_batch m)"
  let ?ps = "map (\<lambda>c. the (ba_pendingMovedFrom ?b c)) order"
  have p0: "pending_paths (begin_batch m) = Map.empty" "files_pending (begin_batch m)"
    by (simp_all add: pending_paths_def begin_batch_def files_pending_def)
  have b: "mo_watches (ba_monitor ?b) = mo_watches m" "files_pending ?b"
    "changes_effect (ba_changes ?b) ps - ran (pending_paths ?b) =
       fold (kernel_effect (mo_watches m)) (map snd events) ps"
    using HandleEvents_tracks [of "begin_batch m" "mo_watches m" events ps] assms(1) p0
    by (simp_all add: begin_batch_def)
  have set_ps: "set ?ps = ran (ba_pendingMovedFrom ?b)"
    using assms(2) by (force simp: ran_def dom_def image_iff)
  then have "\<forall>p \<in> set ?ps. \<not> pm_isDir p" using b(2) by (simp add: files_pending_def)
  from FinishBatch_files [OF this, of ?b]
  have "changes_effect (ba_changes (RunBatch events order m)) ps =
      changes_effect (ba_changes ?b) ps - pm_path ` set ?ps"
    by (simp add: RunBatch_def Let_def changes_effect_def removed_effect del: set_map map_map)
  moreover have "pm_path ` set ?ps = ran (pending_paths ?b)"
    unfolding set_ps by (auto simp: pending_paths_def ran_def)
  ultimately show ?thesis
    using b(1,3) FinishBatch_files [OF \<open>\<forall>p \<in> set ?ps. \<not> pm_isDir p\<close>, of ?b]
    by (simp add: RunBatch_def Let_def)
qed

definition no_env :: WatchEnv where
  "no_env = \<lparr>we_add = (\<lambda>p. AddFailed), we_watchWalk = (\<lambda>p. []), we_emitWalk = (\<lambda>p. [])\<rparr>"

definition sample_monitor :: Monitor where
  "sample_monitor = \<lparr>mo_watches = WatchTable_Add 1 ''/r'' empty_table, mo_limitExceeded = False\<rparr>"

definition sample_event :: "u32 \<Rightarrow> u32 \<Rightarrow> string \<Rightarrow> WatchEnv \<times> InotifyEvent" where
  "sample_event msk cookie name = (no_env, \<lparr>ie_wd = 1, ie_mask = msk, ie_cookie = cookie, ie_name = name\<rparr>)"

lemma sample_path: "event_path (mo_watches sample_monitor) (snd (sample_event msk c name)) =
    (if name = [] then ''/r'' else ''/r/'' @ name)"
  "file_event (mo_watches sample_monitor) (snd (sample_event msk c name)) \<longleftrightarrow>
     msk \<in> {IN_MODIFY, IN_CLOSE_WRITE, IN_MOVED_FROM, IN_MOVED_TO, IN_CREATE, IN_DELETE}"
  "snd (sample_event msk c name) = \<lparr>ie_wd = 1, ie_mask = msk, ie_cookie = c, ie_name = name\<rparr>"
  by (simp_all add: event_path_def sample_monitor_def sample_event_def PathFor_def WatchTable_Add_def
      JoinChild_def file_event_def)

lemma RunBatch_tracks_witness:
  "changes_effect (ba_changes (RunBatch [sample_event IN_MOVED_FROM 7 ''a'', sample_event IN_MOVED_FROM 8 ''x'',
       sample_event IN_MOVED_TO 7 ''b''] [8] sample_monitor)) {''/r/a'', ''/r/x''} = {''/r/b''}"
proof -
  let ?es = "[sample_event IN_MOVED_FROM 7 ''a'', sample_event IN_MOVED_FROM 8 ''x'', sample_event IN_MOVED_TO 7 ''b'']"
  have w: "well_paired (mo_watches sample_monitor) Map.empty (map snd ?es)"
    using sample_path(1,2) by (simp add: sample_path(3))
  have "dom (ba_pendingMovedFrom (HandleEvents ?es (begin_batch sample_monitor))) = {8}"
    by (auto simp: sample_event_def HandleEvent_def begin_batch_def sample_monitor_def PathFor_def
        WatchTable_Add_def watch_new_def report_def Let_def dom_def)
  then have "set [8] = dom (ba_pendingMovedFrom (HandleEvents ?es (begin_batch sample_monitor)))" by simp
  from RunBatch_tracks [OF w this, of "{''/r/a'', ''/r/x''}"] show ?thesis
    using sample_path(1,2) by (simp add: kernel_effect_file sample_path(3))
qed

section \<open>Where the changes go astray\<close>

text \<open>A file is moved out of the tree and another is created at its path in the same batch: the
  removal is reported last, and the new file is lost.\<close>

lemma recreated_path_lost:
  "ba_changes (RunBatch [sample_event IN_MOVED_FROM 7 ''a'', sample_event IN_CREATE 0 ''a''] [7] sample_monitor) =
     [added_event ''/r/a'', removed_event ''/r/a'']"
  by (simp add: RunBatch_def sample_event_def HandleEvent_def begin_batch_def sample_monitor_def PathFor_def
      WatchTable_Add_def watch_new_def report_def Let_def JoinChild_def)

text \<open>A directory is moved out of the tree: its own watch is removed, those below it stay, and their
  events are still reported under the old path.\<close>

definition nested_monitor :: Monitor where
  "nested_monitor = \<lparr>mo_watches =
     WatchTable_Add 3 ''/r/d/s'' (WatchTable_Add 2 ''/r/d'' (WatchTable_Add 1 ''/r'' empty_table)),
     mo_limitExceeded = False\<rparr>"

lemma nested_watch_survives:
  "(let m = ba_monitor (RunBatch [sample_event (IN_MOVED_FROM OR IN_ISDIR) 7 ''d''] [7] nested_monitor)
    in PathFor 2 (mo_watches m) = [] \<and> PathFor 3 (mo_watches m) = ''/r/d/s'')"
  by (simp add: RunBatch_def sample_event_def HandleEvent_def begin_batch_def nested_monitor_def PathFor_def
      WatchTable_Add_def watch_new_def report_def Let_def JoinChild_def RemoveByWd_def WdFor_def
      has_bit_def in_bits)

text \<open>A renamed directory keeps its watch, and its old path still leads to it.\<close>

lemma renamed_path_stale:
  "(let w = WatchTable_Add 2 ''/r/e'' (WatchTable_Add 2 ''/r/d'' empty_table)
    in PathFor 2 w = ''/r/e'' \<and> WdFor ''/r/d'' w = Some 2 \<and>
       WdFor ''/r/d'' (RemoveByWd 2 w) = Some 2)"
  by (simp add: WatchTable_Add_def PathFor_def WdFor_def RemoveByWd_def)

end
