(* ===== verification/Elevation.thy ===== *)
theory Elevation
  imports Text_Codec "HOL-Library.State_Monad" "HOL-Library.Multiset"
begin

unbundle bit_operations_syntax

text \<open>
  The hardened file operations of the root helper (\<open>platform/Elevation.{h,cpp}\<close>): every system
  call is a step on a file system of inodes in which, before each call, the other processes do
  whatever they like (\<open>kn_env\<close>), and any call may fail. What root did is a trace. The theory
  shows which checks stand before every effect, for every behaviour of the other processes.
\<close>

section \<open>Inodes and the kernel\<close>

datatype NodeType = KDir | KReg | KLink | KOther

record Node =
  nd_type :: NodeType
  nd_uid :: u32
  nd_gid :: u32
  nd_nlink :: nat
  nd_perm :: u32
  nd_data :: string
  nd_entries :: "string \<rightharpoonup> nat"

type_synonym Inodes = "nat \<rightharpoonup> Node"

datatype Errno = ENOENT | ELOOP | EEXIST | ENOTDIR | EISDIR | EOther

datatype WriteAnswer = Interrupted | WriteFails | Wrote nat

text \<open>
  What happens around the \<open>n\<close>-th call: what the other processes have done before it, and an
  error it gives. \<open>kn_base\<close> is what an absolute path names when its last component is not
  followed, \<open>kn_fresh\<close> the number of a new inode, \<open>kn_writes\<close> the answers to the calls of one
  write loop (a list that ends early stands for an error).
\<close>

record Kernel =
  kn_env :: "nat \<Rightarrow> Inodes \<Rightarrow> Inodes"
  kn_error :: "nat \<Rightarrow> Errno option"
  kn_base :: "Inodes \<Rightarrow> string \<Rightarrow> nat option"
  kn_fresh :: "Inodes \<Rightarrow> nat"
  kn_writes :: "nat \<Rightarrow> WriteAnswer list"

text \<open>What root did, and what it saw.\<close>

datatype Act =
    ASaw nat Node
  | AOpen nat
  | AFollow nat nat
  | ACreate nat string nat
  | AUnlink nat string
  | ARename nat string string
  | ATruncate nat
  | AWrite nat string
  | AChown nat u32
  | AChmod nat u32
  | ASync nat

text \<open>The trace is newest first; \<open>sy_open\<close> holds the inodes of the open descriptors.\<close>

record Sys =
  sy_fs :: Inodes
  sy_time :: nat
  sy_acts :: "Act list"
  sy_open :: "nat multiset"

type_synonym 'a prog = "(Sys, 'a) state"

abbreviation ret :: "'a \<Rightarrow> 'a prog" where
  "ret \<equiv> State_Monad.return"

definition syscall :: "Kernel \<Rightarrow> (Inodes \<Rightarrow> (Errno + 'a) \<times> Inodes \<times> Act list) \<Rightarrow> (Errno + 'a) prog" where
  "syscall k f = State (\<lambda>s.
     let fs = kn_env k (sy_time s) (sy_fs s)
     in case kn_error k (sy_time s) of
          Some e \<Rightarrow> (Inl e, s\<lparr>sy_fs := fs, sy_time := sy_time s + 1\<rparr>)
        | None \<Rightarrow>
            let (r, fs', acts) = f fs
            in (r, s\<lparr>sy_fs := fs', sy_time := sy_time s + 1, sy_acts := acts @ sy_acts s\<rparr>))"

section \<open>System calls\<close>

definition O_CREAT :: u32 where "O_CREAT = push_bit 6 1"
definition O_EXCL :: u32 where "O_EXCL = push_bit 7 1"
definition O_TRUNC :: u32 where "O_TRUNC = push_bit 9 1"
definition O_NONBLOCK :: u32 where "O_NONBLOCK = push_bit 11 1"
definition O_DIRECTORY :: u32 where "O_DIRECTORY = push_bit 16 1"
definition O_NOFOLLOW :: u32 where "O_NOFOLLOW = push_bit 17 1"
definition O_CLOEXEC :: u32 where "O_CLOEXEC = push_bit 19 1"
definition O_RDONLY :: u32 where "O_RDONLY = 0"
definition O_WRONLY :: u32 where "O_WRONLY = 1"

lemmas o_flags = O_CREAT_def O_EXCL_def O_TRUNC_def O_NONBLOCK_def O_DIRECTORY_def O_NOFOLLOW_def
  O_CLOEXEC_def O_RDONLY_def O_WRONLY_def

datatype DirFd = AtCwd | DirFd nat

definition lookup :: "Kernel \<Rightarrow> Inodes \<Rightarrow> DirFd \<Rightarrow> string \<Rightarrow> nat option" where
  "lookup k fs dir name =
     (case dir of
        AtCwd \<Rightarrow> kn_base k fs name
      | DirFd d \<Rightarrow> (case fs d of
          Some nd \<Rightarrow> if nd_type nd = KDir then nd_entries nd name else None
        | None \<Rightarrow> None))"

definition put_entry :: "nat \<Rightarrow> string \<Rightarrow> nat option \<Rightarrow> Inodes \<Rightarrow> Inodes" where
  "put_entry d name i fs =
     (case fs d of None \<Rightarrow> fs | Some nd \<Rightarrow> fs(d \<mapsto> nd\<lparr>nd_entries := (nd_entries nd)(name := i)\<rparr>))"

definition change_node :: "nat \<Rightarrow> (Node \<Rightarrow> Node) \<Rightarrow> Inodes \<Rightarrow> Inodes" where
  "change_node i f fs = (case fs i of None \<Rightarrow> fs | Some nd \<Rightarrow> fs(i \<mapsto> f nd))"

definition open_existing :: "Kernel \<Rightarrow> u32 \<Rightarrow> Inodes \<Rightarrow> nat \<Rightarrow> (Errno + nat) \<times> Inodes \<times> Act list" where
  "open_existing k flags fs i =
     (case fs i of
        None \<Rightarrow> (Inl ENOENT, fs, [])
      | Some nd \<Rightarrow>
          if bit flags 6 \<and> bit flags 7 then (Inl EEXIST, fs, [])
          else if nd_type nd = KLink then
            if bit flags 17 then (Inl ELOOP, fs, [])
            else case kn_base k fs (nd_data nd) of
              None \<Rightarrow> (Inl ENOENT, fs, [])
            | Some j \<Rightarrow> (Inr j, fs, [AFollow i j])
          else if bit flags 16 \<and> nd_type nd \<noteq> KDir then (Inl ENOTDIR, fs, [])
          else if bit flags 9 then (Inr i, change_node i (\<lambda>nd. nd\<lparr>nd_data := []\<rparr>) fs, [ATruncate i, AOpen i])
          else (Inr i, fs, [AOpen i]))"

definition track_open :: "(Errno + nat) prog \<Rightarrow> (Errno + nat) prog" where
  "track_open m = do {
     r \<leftarrow> m;
     case r of
       Inl e \<Rightarrow> ret (Inl e)
     | Inr i \<Rightarrow> do { s \<leftarrow> State_Monad.get; State_Monad.set (s\<lparr>sy_open := add_mset i (sy_open s)\<rparr>); ret (Inr i) } }"

definition openat :: "Kernel \<Rightarrow> DirFd \<Rightarrow> string \<Rightarrow> u32 \<Rightarrow> u32 \<Rightarrow> (Errno + nat) prog" where
  "openat k dir name flags perm = track_open (syscall k (\<lambda>fs.
     case lookup k fs dir name of
       Some i \<Rightarrow> open_existing k flags fs i
     | None \<Rightarrow>
         (case dir of
            AtCwd \<Rightarrow> (Inl ENOENT, fs, [])
          | DirFd d \<Rightarrow>
              let i = kn_fresh k fs
              in if bit flags 6 \<and> name \<noteq> [] \<and> fs d \<noteq> None \<and> fs i = None then
                (Inr i, put_entry d name (Some i) (fs(i \<mapsto> \<lparr>nd_type = KReg, nd_uid = 0, nd_gid = 0,
                      nd_nlink = 1, nd_perm = perm, nd_data = [], nd_entries = Map.empty\<rparr>)),
                    [ACreate d name i])
              else (Inl ENOENT, fs, []))))"

definition close_fd :: "nat \<Rightarrow> unit prog" where
  "close_fd i = do { s \<leftarrow> State_Monad.get; State_Monad.set (s\<lparr>sy_open := sy_open s - {#i#}\<rparr>) }"

definition fstat :: "Kernel \<Rightarrow> nat \<Rightarrow> (Errno + Node) prog" where
  "fstat k i = syscall k (\<lambda>fs. case fs i of None \<Rightarrow> (Inl EOther, fs, []) | Some nd \<Rightarrow> (Inr nd, fs, [ASaw i nd]))"

definition fstatat :: "Kernel \<Rightarrow> DirFd \<Rightarrow> string \<Rightarrow> (Errno + Node) prog" where
  "fstatat k dir name = syscall k (\<lambda>fs.
     case lookup k fs dir name of
       None \<Rightarrow> (Inl ENOENT, fs, [])
     | Some i \<Rightarrow> (case fs i of None \<Rightarrow> (Inl ENOENT, fs, []) | Some nd \<Rightarrow> (Inr nd, fs, [])))"

definition unlinkat :: "Kernel \<Rightarrow> nat \<Rightarrow> string \<Rightarrow> (Errno + unit) prog" where
  "unlinkat k d name = syscall k (\<lambda>fs.
     case lookup k fs (DirFd d) name of
       None \<Rightarrow> (Inl ENOENT, fs, [])
     | Some i \<Rightarrow>
         if map_option nd_type (fs i) = Some KDir then (Inl EISDIR, fs, [])
         else (Inr (), put_entry d name None fs, [AUnlink d name]))"

definition renameat :: "Kernel \<Rightarrow> nat \<Rightarrow> string \<Rightarrow> string \<Rightarrow> (Errno + unit) prog" where
  "renameat k d old new = syscall k (\<lambda>fs.
     case lookup k fs (DirFd d) old of
       None \<Rightarrow> (Inl ENOENT, fs, [])
     | Some i \<Rightarrow> (Inr (), put_entry d new (Some i) (put_entry d old None fs), [ARename d old new]))"

definition on_inode :: "Kernel \<Rightarrow> nat \<Rightarrow> (Node \<Rightarrow> Node) \<Rightarrow> Act \<Rightarrow> (Errno + unit) prog" where
  "on_inode k i f act = syscall k (\<lambda>fs. (Inr (), change_node i f fs, [act]))"

definition ftruncate :: "Kernel \<Rightarrow> nat \<Rightarrow> (Errno + unit) prog" where
  "ftruncate k i = on_inode k i (\<lambda>nd. nd\<lparr>nd_data := []\<rparr>) (ATruncate i)"

definition fchown :: "Kernel \<Rightarrow> nat \<Rightarrow> u32 \<Rightarrow> u32 option \<Rightarrow> (Errno + unit) prog" where
  "fchown k i uid gid = on_inode k i
     (\<lambda>nd. nd\<lparr>nd_uid := uid, nd_gid := (case gid of None \<Rightarrow> nd_gid nd | Some g \<Rightarrow> g)\<rparr>) (AChown i uid)"

definition fchmod :: "Kernel \<Rightarrow> nat \<Rightarrow> u32 \<Rightarrow> (Errno + unit) prog" where
  "fchmod k i perm = on_inode k i (\<lambda>nd. nd\<lparr>nd_perm := perm\<rparr>) (AChmod i perm)"

definition fsync :: "Kernel \<Rightarrow> nat \<Rightarrow> (Errno + unit) prog" where
  "fsync k i = on_inode k i (\<lambda>nd. nd) (ASync i)"

text \<open>\<open>fcntl(F_SETFL)\<close>: only its failure matters.\<close>

definition fcntl :: "Kernel \<Rightarrow> nat \<Rightarrow> (Errno + unit) prog" where
  "fcntl k i = syscall k (\<lambda>fs. (Inr (), fs, []))"

definition write_some :: "Kernel \<Rightarrow> nat \<Rightarrow> string \<Rightarrow> unit prog" where
  "write_some k i bytes = State (\<lambda>s.
     ((), s\<lparr>sy_fs := change_node i (\<lambda>nd. nd\<lparr>nd_data := nd_data nd @ bytes\<rparr>) (kn_env k (sy_time s) (sy_fs s)),
            sy_time := sy_time s + 1, sy_acts := AWrite i bytes # sy_acts s\<rparr>))"

definition succeeded :: "(Errno + 'a) prog \<Rightarrow> bool prog" where
  "succeeded m = do { r \<leftarrow> m; ret (case r of Inl e \<Rightarrow> False | Inr x \<Rightarrow> True) }"

text \<open>\<open>&&\<close>: the second is called only when the first succeeded.\<close>

definition and_then :: "bool prog \<Rightarrow> bool prog \<Rightarrow> bool prog" where
  "and_then m n = do { b \<leftarrow> m; if b then n else ret False }"

section \<open>The target user\<close>

record TargetUser =
  tu_uid :: u32
  tu_gid :: u32
  tu_homeDir :: string
  tu_username :: string

text \<open>\<open>strtol\<close> in base 10 with the text that follows: \<open>None\<close> when it reads nothing or overflows.\<close>

definition strtol :: "string \<Rightarrow> (int \<times> string) option" where
  "strtol s =
     (let t = dropWhile isspace s;
          neg = (t \<noteq> [] \<and> hd t = CHR ''-'');
          u = (if t \<noteq> [] \<and> (hd t = CHR ''-'' \<or> hd t = CHR ''+'') then tl t else t);
          ds = takeWhile is_digit u;
          v = (if neg then - int (digits_value ds) else int (digits_value ds))
      in if ds = [] \<or> v < - (2 ^ 63) \<or> v \<ge> 2 ^ 63 then None else Some (v, dropWhile is_digit u))"

text \<open>\<open>getpwuid\<close>: group, home directory and name of a user.\<close>

definition ResolveTargetUser ::
  "string option \<Rightarrow> (u32 \<Rightarrow> (u32 \<times> string option \<times> string option) option) \<Rightarrow> TargetUser option" where
  "ResolveTargetUser pkexecUid getpwuid =
     (case pkexecUid of
        None \<Rightarrow> None
      | Some text' \<Rightarrow>
          if text' = [] then None
          else case strtol text' of
            None \<Rightarrow> None
          | Some (uidLong, rest) \<Rightarrow>
              if rest \<noteq> [] \<or> uidLong < 0 then None
              else
                let uid = (word_of_int uidLong :: u32)
                in case getpwuid uid of
                     None \<Rightarrow> None
                   | Some (gid, dir, name) \<Rightarrow>
                       Some \<lparr>tu_uid = uid, tu_gid = gid,
                         tu_homeDir = (case dir of None \<Rightarrow> [] | Some d \<Rightarrow> d),
                         tu_username = (case name of None \<Rightarrow> [] | Some n \<Rightarrow> n)\<rparr>)"


section \<open>Paths\<close>

fun split_slash :: "string \<Rightarrow> string list" where
  "split_slash [] = [[]]"
| "split_slash (c # cs) =
     (if c = CHR ''/'' then [] # split_slash cs
      else case split_slash cs of [] \<Rightarrow> [[c]] | w # ws \<Rightarrow> (c # w) # ws)"

fun join_slash :: "string list \<Rightarrow> string" where
  "join_slash [] = []"
| "join_slash [w] = w"
| "join_slash (w # ws) = w @ ''/'' @ join_slash ws"

text \<open>
  \<open>fs::path::lexically_normal\<close>: the names that remain, last first, when every dot-dot removes the
  name before it (at the root, nothing).
\<close>

definition normal_step :: "bool \<Rightarrow> string list \<Rightarrow> string \<Rightarrow> string list" where
  "normal_step rooted names w =
     (if w = [] \<or> w = ''.'' then names
      else if w = ''..'' then
        (case names of
           [] \<Rightarrow> if rooted then [] else [w]
         | n # ns \<Rightarrow> if n = ''..'' then w # names else ns)
      else w # names)"

definition normal_names :: "string \<Rightarrow> string list" where
  "normal_names p = foldl (normal_step (p \<noteq> [] \<and> hd p = CHR ''/'')) [] (split_slash p)"

definition lexically_normal :: "string \<Rightarrow> string" where
  "lexically_normal p =
     (let rooted = (p \<noteq> [] \<and> hd p = CHR ''/'');
          names = normal_names p;
          dir = (last (split_slash p) \<in> {[], ''.'', ''..''})
      in if p = [] then []
         else if names = [] then (if rooted then ''/'' else ''.'')
         else (if rooted then ''/'' else []) @ join_slash (rev names)
              @ (if dir \<and> hd names \<noteq> ''..'' then ''/'' else []))"

text \<open>The names that are left have no dot, no dot-dot below the root and no slash.\<close>

definition plain_name :: "string \<Rightarrow> bool" where
  "plain_name w \<longleftrightarrow> w \<noteq> [] \<and> w \<noteq> ''.'' \<and> w \<noteq> ''..'' \<and> CHR ''/'' \<notin> set w"

lemma split_slash_no_slash: "w \<in> set (split_slash p) \<Longrightarrow> CHR ''/'' \<notin> set w"
  by (induction p arbitrary: w) (auto split: list.splits if_splits)

lemma split_slash_not_Nil [simp]: "split_slash p \<noteq> []"
  by (induction p) (auto split: list.splits)

lemma split_slash_append: "split_slash (xs @ CHR ''/'' # ys) = split_slash xs @ split_slash ys"
proof (induction xs)
  case Nil
  then show ?case by simp
next
  case (Cons x xs)
  then show ?case by (cases "split_slash xs") auto
qed

lemma split_slash_single [simp]: "CHR ''/'' \<notin> set w \<Longrightarrow> split_slash w = [w]"
  by (induction w) auto

lemma split_slash_join:
  "ws \<noteq> [] \<Longrightarrow> list_all (\<lambda>w. CHR ''/'' \<notin> set w) ws \<Longrightarrow> split_slash (join_slash ws) = ws"
  by (induction ws rule: join_slash.induct) (auto simp: split_slash_append)

lemma foldl_invariant:
  "P a \<Longrightarrow> (\<And>a x. x \<in> set xs \<Longrightarrow> P a \<Longrightarrow> P (f a x)) \<Longrightarrow> P (foldl f a xs)"
  by (induction xs arbitrary: a) auto

lemma normal_names_plain:
  assumes "p \<noteq> []" "hd p = CHR ''/''"
  shows "list_all plain_name (normal_names p)"
  unfolding normal_names_def
  by (rule foldl_invariant)
    (use assms in \<open>auto simp: normal_step_def plain_name_def dest: split_slash_no_slash split: list.splits\<close>)

lemma lexically_normal_components:
  assumes "p \<noteq> []" "hd p = CHR ''/''" "w \<in> set (split_slash (lexically_normal p))"
  shows "w = [] \<or> plain_name w"
proof (cases "normal_names p = []")
  case True
  then show ?thesis using assms by (simp add: lexically_normal_def)
next
  case False
  let ?names = "rev (normal_names p)"
  have plain: "list_all plain_name ?names"
    using normal_names_plain [OF assms(1,2)] by simp
  then have split: "split_slash (join_slash ?names) = ?names"
    using False by (intro split_slash_join) (auto simp: plain_name_def list_all_iff)
  have "set (split_slash (lexically_normal p)) \<subseteq> {[]} \<union> set ?names"
    using False assms(1,2) split split_slash_append [of "join_slash ?names" "[]"]
    by (auto simp: lexically_normal_def Let_def split: if_splits)
  then show ?thesis
    using assms(3) plain by (auto simp: list_all_iff)
qed

section \<open>Opening checked directories\<close>

datatype ElevationError =
    kNone
  | kPathNotUnderBase
  | kSymlinkInPath
  | kOwnershipMismatch
  | kStatFailed
  | kOpenFailed
  | kWriteFailed
  | kNotRegularFile

definition ClassifyDirectoryOpenFailure :: "Kernel \<Rightarrow> DirFd \<Rightarrow> string \<Rightarrow> ElevationError prog" where
  "ClassifyDirectoryOpenFailure k parentFd name = do {
     st \<leftarrow> fstatat k parentFd name;
     ret (case st of
            Inl e \<Rightarrow> kStatFailed
          | Inr nd \<Rightarrow> if nd_type nd = KLink then kSymlinkInPath else kStatFailed) }"

definition OpenOwnedDirectory :: "Kernel \<Rightarrow> DirFd \<Rightarrow> string \<Rightarrow> u32 \<Rightarrow> (ElevationError + nat) prog" where
  "OpenOwnedDirectory k parentFd name targetUid = do {
     r \<leftarrow> openat k parentFd name (O_RDONLY OR O_DIRECTORY OR O_NOFOLLOW OR O_CLOEXEC) 0;
     case r of
       Inl e \<Rightarrow> do { c \<leftarrow> ClassifyDirectoryOpenFailure k parentFd name; ret (Inl c) }
     | Inr fd \<Rightarrow> do {
         st \<leftarrow> fstat k fd;
         case st of
           Inl e \<Rightarrow> do { close_fd fd; ret (Inl kStatFailed) }
         | Inr nd \<Rightarrow>
             if nd_type nd \<noteq> KDir then do { close_fd fd; ret (Inl kStatFailed) }
             else if nd_uid nd \<noteq> targetUid then do { close_fd fd; ret (Inl kOwnershipMismatch) }
             else ret (Inr fd) } }"

text \<open>The loop over the directories between the base and the file.\<close>

fun OpenDirectories :: "Kernel \<Rightarrow> u32 \<Rightarrow> nat \<Rightarrow> string list \<Rightarrow> (ElevationError + nat) prog" where
  "OpenDirectories k targetUid dirFd [] = ret (Inr dirFd)"
| "OpenDirectories k targetUid dirFd (c # cs) = do {
     r \<leftarrow> OpenOwnedDirectory k (DirFd dirFd) c targetUid;
     close_fd dirFd;
     case r of
       Inl e \<Rightarrow> ret (Inl e)
     | Inr nextFd \<Rightarrow> OpenDirectories k targetUid nextFd cs }"

definition relative_components :: "string \<Rightarrow> string \<Rightarrow> string list option" where
  "relative_components path baseDir =
     (let base = lexically_normal baseDir;
          target = lexically_normal path
      in if length target \<le> length base \<or> \<not> prefix base target
            \<or> target ! length base \<noteq> CHR ''/'' then None
         else
           let relative = drop (length base + 1) target
           in if relative = [] then None else Some (split_slash relative))"

definition OpenValidatedParent ::
  "Kernel \<Rightarrow> string \<Rightarrow> u32 \<Rightarrow> string \<Rightarrow> (ElevationError + nat \<times> string) prog" where
  "OpenValidatedParent k path targetUid baseDir =
     (case relative_components path baseDir of
        None \<Rightarrow> ret (Inl kPathNotUnderBase)
      | Some components \<Rightarrow> do {
          r \<leftarrow> OpenOwnedDirectory k AtCwd (lexically_normal baseDir) targetUid;
          case r of
            Inl e \<Rightarrow> ret (Inl e)
          | Inr dirFd \<Rightarrow> do {
              d \<leftarrow> OpenDirectories k targetUid dirFd (butlast components);
              case d of
                Inl e \<Rightarrow> ret (Inl e)
              | Inr fd \<Rightarrow> ret (Inr (fd, last components)) } })"

section \<open>The operations\<close>

fun WriteAll_loop :: "Kernel \<Rightarrow> nat \<Rightarrow> WriteAnswer list \<Rightarrow> string \<Rightarrow> bool prog" where
  "WriteAll_loop k fd [] contents = ret (contents = [])"
| "WriteAll_loop k fd (a # as) contents =
     (if contents = [] then ret True
      else case a of
        Interrupted \<Rightarrow> WriteAll_loop k fd as contents
      | WriteFails \<Rightarrow> ret False
      | Wrote n \<Rightarrow>
          if n = 0 then ret False
          else do {
            write_some k fd (take n contents);
            WriteAll_loop k fd as (drop n contents) })"

definition WriteAll :: "Kernel \<Rightarrow> nat \<Rightarrow> string \<Rightarrow> bool prog" where
  "WriteAll k fd contents = do {
     s \<leftarrow> State_Monad.get;
     WriteAll_loop k fd (kn_writes k (sy_time s)) contents }"

definition acceptable :: "bool \<Rightarrow> u32 \<Rightarrow> Errno + Node \<Rightarrow> bool" where
  "acceptable created targetUid r =
     (case r of
        Inl e \<Rightarrow> False
      | Inr st \<Rightarrow> nd_type st = KReg \<and> nd_nlink st = 1 \<and> (created \<or> nd_uid st = targetUid))"

text \<open>The way out of a refused open: the descriptors, and an entry just created.\<close>

definition give_up ::
  "Kernel \<Rightarrow> bool \<Rightarrow> nat \<Rightarrow> string \<Rightarrow> nat \<Rightarrow> ElevationError \<Rightarrow> (ElevationError + nat) prog" where
  "give_up k created dirFd name fd err = do {
     close_fd fd;
     (if created then do { unlinkat k dirFd name; ret () } else ret ());
     close_fd dirFd;
     ret (Inl err) }"

definition open_or_create ::
  "Kernel \<Rightarrow> nat \<Rightarrow> string \<Rightarrow> u32 \<Rightarrow> u32 \<Rightarrow> (bool \<times> (Errno + nat)) prog" where
  "open_or_create k dirFd name flags mode' =
     (let openFlags = (flags AND NOT (O_TRUNC OR O_CREAT)) OR O_NOFOLLOW OR O_NONBLOCK OR O_CLOEXEC
      in do {
        r \<leftarrow> openat k (DirFd dirFd) name openFlags 0;
        if r = Inl ENOENT \<and> flags AND O_CREAT \<noteq> 0 then do {
          r' \<leftarrow> openat k (DirFd dirFd) name (openFlags OR O_CREAT OR O_EXCL) mode';
          ret (\<not> isl r', r') }
        else ret (False, r) })"

definition prepare_file :: "Kernel \<Rightarrow> bool \<Rightarrow> nat \<Rightarrow> u32 \<Rightarrow> u32 \<Rightarrow> bool prog" where
  "prepare_file k created fd targetUid flags =
     and_then (if created then succeeded (fchown k fd targetUid None) else ret True)
     (and_then (if flags AND O_TRUNC \<noteq> 0 then succeeded (ftruncate k fd) else ret True)
       (succeeded (fcntl k fd)))"

definition OpenForRootWrite ::
  "Kernel \<Rightarrow> string \<Rightarrow> u32 \<Rightarrow> string \<Rightarrow> u32 \<Rightarrow> u32 \<Rightarrow> (ElevationError + nat) prog" where
  "OpenForRootWrite k path targetUid baseDir flags mode' = do {
     p \<leftarrow> OpenValidatedParent k path targetUid baseDir;
     case p of
       Inl e \<Rightarrow> ret (Inl e)
     | Inr (dirFd, name) \<Rightarrow> do {
         (created, r) \<leftarrow> open_or_create k dirFd name flags mode';
         case r of
           Inl e \<Rightarrow> do {
             close_fd dirFd;
             ret (Inl (if e = ELOOP then kSymlinkInPath else kOpenFailed)) }
         | Inr fd \<Rightarrow> do {
             st \<leftarrow> fstat k fd;
             if \<not> acceptable created targetUid st then give_up k created dirFd name fd kNotRegularFile
             else do {
               prepared \<leftarrow> prepare_file k created fd targetUid flags;
               if \<not> prepared then give_up k created dirFd name fd kOpenFailed
               else do { close_fd dirFd; ret (Inr fd) } } } } }"

definition RemoveFileForRootWrite :: "Kernel \<Rightarrow> string \<Rightarrow> u32 \<Rightarrow> string \<Rightarrow> ElevationError prog" where
  "RemoveFileForRootWrite k path targetUid baseDir = do {
     p \<leftarrow> OpenValidatedParent k path targetUid baseDir;
     case p of
       Inl e \<Rightarrow> ret e
     | Inr (dirFd, name) \<Rightarrow> do {
         r \<leftarrow> unlinkat k dirFd name;
         close_fd dirFd;
         ret (if r = Inr () \<or> r = Inl ENOENT then kNone else kWriteFailed) } }"

definition OpenRegularFileForRootRead ::
  "Kernel \<Rightarrow> string \<Rightarrow> u32 \<Rightarrow> string \<Rightarrow> (ElevationError + nat) prog" where
  "OpenRegularFileForRootRead k path targetUid baseDir =
     OpenForRootWrite k path targetUid baseDir O_RDONLY 0"

datatype ReplaceDurability = kSynced | kUnsynced

definition finish_temp ::
  "Kernel \<Rightarrow> nat \<Rightarrow> u32 \<Rightarrow> u32 \<Rightarrow> string \<Rightarrow> bool \<Rightarrow> bool prog" where
  "finish_temp k tempFd targetUid targetGid contents synced =
     and_then (WriteAll k tempFd contents)
     (and_then (succeeded (fchown k tempFd targetUid (Some targetGid)))
     (and_then (succeeded (fchmod k tempFd 384))
       (if synced then succeeded (fsync k tempFd) else ret True)))"

definition ReplaceFileForRootWrite ::
  "Kernel \<Rightarrow> string \<Rightarrow> u32 \<Rightarrow> u32 \<Rightarrow> string \<Rightarrow> string \<Rightarrow> ReplaceDurability \<Rightarrow> ElevationError prog" where
  "ReplaceFileForRootWrite k path targetUid targetGid baseDir contents durability = do {
     p \<leftarrow> OpenValidatedParent k path targetUid baseDir;
     case p of
       Inl e \<Rightarrow> ret e
     | Inr (dirFd, name) \<Rightarrow>
         let tempName = name @ ''.root.tmp''; synced = (durability = kSynced)
         in do {
           unlinkat k dirFd tempName;
           t \<leftarrow> openat k (DirFd dirFd) tempName
                 (O_WRONLY OR O_CREAT OR O_EXCL OR O_NOFOLLOW OR O_CLOEXEC) 384;
           case t of
             Inl e \<Rightarrow> do { close_fd dirFd; ret kOpenFailed }
           | Inr tempFd \<Rightarrow> do {
               written \<leftarrow> finish_temp k tempFd targetUid targetGid contents synced;
               close_fd tempFd;
               renamed \<leftarrow> (if written then succeeded (renameat k dirFd tempName name) else ret False);
               if \<not> renamed then do {
                 unlinkat k dirFd tempName;
                 close_fd dirFd;
                 ret kWriteFailed }
               else do {
                 dirSynced \<leftarrow> (if synced then succeeded (fsync k dirFd) else ret True);
                 close_fd dirFd;
                 ret (if dirSynced then kNone else kWriteFailed) } } } }"


section \<open>Reasoning about runs\<close>

text \<open>
  What a program guarantees from a trace and a set of descriptors, whatever the file system holds
  and whatever the other processes do: the rules below hide both.
\<close>

definition wp :: "'a prog \<Rightarrow> ('a \<Rightarrow> Act list \<Rightarrow> nat multiset \<Rightarrow> bool) \<Rightarrow> Act list \<Rightarrow> nat multiset \<Rightarrow> bool" where
  "wp m Q A P \<longleftrightarrow>
     (\<forall>s. sy_acts s = A \<and> sy_open s = P \<longrightarrow>
        (case run_state m s of (r, s') \<Rightarrow> Q r (sy_acts s') (sy_open s')))"

named_theorems wps \<open>one rule per construct and system call\<close>

lemma wp_ret [wps]: "Q x A P \<Longrightarrow> wp (ret x) Q A P"
  by (simp add: wp_def)

lemma wp_bind [wps]:
  assumes "wp m (\<lambda>r A' P'. wp (f r) Q A' P') A P"
  shows "wp (m \<bind> f) Q A P"
  unfolding wp_def
proof (intro allI impI)
  fix s :: Sys
  assume "sy_acts s = A \<and> sy_open s = P"
  with assms show "case run_state (m \<bind> f) s of (r, s') \<Rightarrow> Q r (sy_acts s') (sy_open s')"
    by (cases "run_state m s") (fastforce simp: wp_def split: prod.splits)
qed

lemma wp_mono: "wp m R A P \<Longrightarrow> (\<And>r A' P'. R r A' P' \<Longrightarrow> Q r A' P') \<Longrightarrow> wp m Q A P"
  by (fastforce simp: wp_def split: prod.splits)

lemma wp_syscall:
  assumes "\<And>e. Q (Inl e) A P"
    and "\<And>fs r fs' acts. f fs = (r, fs', acts) \<Longrightarrow> Q r (acts @ A) P"
  shows "wp (syscall k f) Q A P"
  using assms by (auto simp: wp_def syscall_def Let_def split: option.splits prod.splits)

lemma wp_close [wps]: "Q () A (P - {#i#}) \<Longrightarrow> wp (close_fd i) Q A P"
  by (simp add: wp_def close_fd_def State_Monad.get_def State_Monad.set_def)

lemma wp_track_open:
  assumes "wp m (\<lambda>r A' P'. case r of Inl e \<Rightarrow> Q r A' P' | Inr i \<Rightarrow> Q r A' (add_mset i P')) A P"
  shows "wp (track_open m) Q A P"
  unfolding track_open_def
  by (rule wp_bind, rule wp_mono [OF assms])
    (auto simp: wp_def State_Monad.get_def State_Monad.set_def split: sum.splits)

lemma wp_openat_existing:
  assumes "bit flags 17" "\<not> bit flags 6" "\<not> bit flags 9"
    and "\<And>e. Q (Inl e) A P" "\<And>i. Q (Inr i) (AOpen i # A) (add_mset i P)"
  shows "wp (openat k dir name flags perm) Q A P"
  unfolding openat_def using assms
  by (intro wp_track_open wp_syscall)
    (auto simp: open_existing_def Let_def split: option.splits if_splits DirFd.splits)

lemma wp_openat_create:
  assumes "bit flags 6" "bit flags 7"
    and "\<And>e. Q (Inl e) A P" "\<And>i. Q (Inr i) (ACreate d name i # A) (add_mset i P)"
  shows "wp (openat k (DirFd d) name flags perm) Q A P"
  unfolding openat_def using assms
  by (intro wp_track_open wp_syscall)
    (auto simp: open_existing_def Let_def split: option.splits if_splits DirFd.splits)

lemma wp_fstat [wps]:
  assumes "\<And>e. Q (Inl e) A P" "\<And>nd. Q (Inr nd) (ASaw i nd # A) P"
  shows "wp (fstat k i) Q A P"
  unfolding fstat_def using assms by (intro wp_syscall) (auto split: option.splits)

lemma wp_fstatat [wps]:
  assumes "\<And>r. Q r A P"
  shows "wp (fstatat k d name) Q A P"
  unfolding fstatat_def using assms by (intro wp_syscall) (auto split: option.splits)

lemma wp_unlinkat [wps]:
  assumes "\<And>e. Q (Inl e) A P" "Q (Inr ()) (AUnlink d name # A) P"
  shows "wp (unlinkat k d name) Q A P"
  unfolding unlinkat_def using assms by (intro wp_syscall) (auto split: option.splits if_splits)

lemma wp_renameat [wps]:
  assumes "\<And>e. Q (Inl e) A P" "Q (Inr ()) (ARename d old new # A) P"
  shows "wp (renameat k d old new) Q A P"
  unfolding renameat_def using assms by (intro wp_syscall) (auto split: option.splits)

lemma wp_on_inode:
  assumes "\<And>e. Q (Inl e) A P" "Q (Inr ()) (act # A) P"
  shows "wp (on_inode k i f act) Q A P"
  unfolding on_inode_def using assms by (intro wp_syscall) auto

lemma wp_ftruncate [wps]:
  "(\<And>e. Q (Inl e) A P) \<Longrightarrow> Q (Inr ()) (ATruncate i # A) P \<Longrightarrow> wp (ftruncate k i) Q A P"
  unfolding ftruncate_def by (rule wp_on_inode)

lemma wp_fchown [wps]:
  "(\<And>e. Q (Inl e) A P) \<Longrightarrow> Q (Inr ()) (AChown i u # A) P \<Longrightarrow> wp (fchown k i u g) Q A P"
  unfolding fchown_def by (rule wp_on_inode)

lemma wp_fchmod [wps]:
  "(\<And>e. Q (Inl e) A P) \<Longrightarrow> Q (Inr ()) (AChmod i u # A) P \<Longrightarrow> wp (fchmod k i u) Q A P"
  unfolding fchmod_def by (rule wp_on_inode)

lemma wp_fsync [wps]:
  "(\<And>e. Q (Inl e) A P) \<Longrightarrow> Q (Inr ()) (ASync i # A) P \<Longrightarrow> wp (fsync k i) Q A P"
  unfolding fsync_def by (rule wp_on_inode)

lemma wp_fcntl [wps]:
  "(\<And>e. Q (Inl e) A P) \<Longrightarrow> Q (Inr ()) A P \<Longrightarrow> wp (fcntl k i) Q A P"
  unfolding fcntl_def by (intro wp_syscall) auto

lemma wp_write_some [wps]: "Q () (AWrite i bytes # A) P \<Longrightarrow> wp (write_some k i bytes) Q A P"
  by (simp add: wp_def write_some_def)

lemma post_Inl [wps]: "R e \<Longrightarrow> (case Inl e of Inl e \<Rightarrow> R e | Inr x \<Rightarrow> S x)"
  by simp

lemma post_Inr [wps]: "S x \<Longrightarrow> (case Inr x of Inl e \<Rightarrow> R e | Inr x \<Rightarrow> S x)"
  by simp

lemma post_True [wps]: "R \<Longrightarrow> (if True then R else S)"
  by simp

lemma post_False [wps]: "S \<Longrightarrow> (if False then R else S)"
  by simp

lemma wp_succeeded [wps]:
  assumes "wp m (\<lambda>r A' P'. case r of Inl e \<Rightarrow> Q False A' P' | Inr x \<Rightarrow> Q True A' P') A P"
  shows "wp (succeeded m) Q A P"
  unfolding succeeded_def
  by (rule wp_bind, rule wp_mono [OF assms]) (auto intro: wp_ret split: sum.splits)

lemma wp_and_then [wps]:
  "wp m (\<lambda>b A' P'. if b then wp n Q A' P' else Q False A' P') A P \<Longrightarrow> wp (and_then m n) Q A P"
  unfolding and_then_def by (rule wp_bind, erule wp_mono) (auto intro: wp_ret split: if_splits)

lemma wp_if [wps]:
  "(b \<Longrightarrow> wp m Q A P) \<Longrightarrow> (\<not> b \<Longrightarrow> wp n Q A P) \<Longrightarrow> wp (if b then m else n) Q A P"
  by simp


section \<open>What root may do\<close>

definition created_in :: "Act list \<Rightarrow> nat \<Rightarrow> bool" where
  "created_in tr i \<longleftrightarrow> (\<exists>d name. ACreate d name i \<in> set tr)"

definition checked_dir :: "u32 \<Rightarrow> Act list \<Rightarrow> nat \<Rightarrow> bool" where
  "checked_dir tgt tr d \<longleftrightarrow> (\<exists>st. ASaw d st \<in> set tr \<and> nd_type st = KDir \<and> nd_uid st = tgt)"

definition checked_file :: "u32 \<Rightarrow> Act list \<Rightarrow> nat \<Rightarrow> bool" where
  "checked_file tgt tr i \<longleftrightarrow>
     (\<exists>st. ASaw i st \<in> set tr \<and> nd_type st = KReg \<and> nd_nlink st = 1 \<and>
           (nd_uid st = tgt \<or> created_in tr i))"

text \<open>What was written to an inode since it was created, and the owners it was given.\<close>

fun written :: "Act list \<Rightarrow> nat \<Rightarrow> string" where
  "written [] i = []"
| "written (ACreate d name j # tr) i = (if j = i then [] else written tr i)"
| "written (ATruncate j # tr) i = (if j = i then [] else written tr i)"
| "written (AWrite j bytes # tr) i = (if j = i then written tr i @ bytes else written tr i)"
| "written (_ # tr) i = written tr i"

text \<open>
  Each act with the acts before it: nothing is followed; entries change only in directories seen
  to be the target user's; only a file seen to be regular, with one link and the user's own is
  truncated; bytes, owner and mode go only to files root itself created; and what is renamed
  into place is a new file that holds all of \<open>contents\<close>, belongs to the user and, if asked,
  has been synced.
\<close>

definition permitted :: "u32 \<Rightarrow> string \<Rightarrow> bool \<Rightarrow> Act list \<Rightarrow> Act \<Rightarrow> bool" where
  "permitted tgt contents synced tr a =
     (case a of
        ASaw i st \<Rightarrow> True
      | AOpen i \<Rightarrow> True
      | AFollow i j \<Rightarrow> False
      | ACreate d name i \<Rightarrow> checked_dir tgt tr d
      | AUnlink d name \<Rightarrow> checked_dir tgt tr d
      | ARename d old new \<Rightarrow> checked_dir tgt tr d \<and>
          (\<exists>i. ACreate d old i \<in> set tr \<and> written tr i = contents \<and> AChown i tgt \<in> set tr \<and>
               (synced \<longrightarrow> ASync i \<in> set tr))
      | ATruncate i \<Rightarrow> checked_file tgt tr i
      | AWrite i bytes \<Rightarrow> created_in tr i
      | AChown i u \<Rightarrow> created_in tr i \<and> u = tgt
      | AChmod i u \<Rightarrow> created_in tr i
      | ASync i \<Rightarrow> created_in tr i \<or> checked_dir tgt tr i)"

fun all_permitted :: "u32 \<Rightarrow> string \<Rightarrow> bool \<Rightarrow> Act list \<Rightarrow> bool" where
  "all_permitted tgt contents synced [] = True"
| "all_permitted tgt contents synced (a # tr) \<longleftrightarrow>
     permitted tgt contents synced tr a \<and> all_permitted tgt contents synced tr"

lemma checked_dir_Cons [simp]:
  "checked_dir tgt (a # tr) d \<longleftrightarrow>
     (\<exists>st. a = ASaw d st \<and> nd_type st = KDir \<and> nd_uid st = tgt) \<or> checked_dir tgt tr d"
  by (auto simp: checked_dir_def)

lemma created_in_Cons [simp]:
  "created_in (a # tr) i \<longleftrightarrow> (\<exists>d name. a = ACreate d name i) \<or> created_in tr i"
  by (auto simp: created_in_def)

lemma checked_file_Cons_mono [simp]: "checked_file tgt tr i \<Longrightarrow> checked_file tgt (a # tr) i"
  by (auto simp: checked_file_def)

lemma checked_file_seen [simp]:
  "acceptable created tgt (Inr st) \<Longrightarrow> (created \<Longrightarrow> created_in tr i) \<Longrightarrow>
   checked_file tgt (ASaw i st # tr) i"
  by (auto simp: checked_file_def acceptable_def)

lemma created_inI: "ACreate d name i \<in> set tr \<Longrightarrow> created_in tr i"
  by (auto simp: created_in_def)

lemma permitted_acts [simp]:
  "permitted tgt c y tr (ASaw i st)"
  "permitted tgt c y tr (AOpen i)"
  "permitted tgt c y tr (ACreate d name i) \<longleftrightarrow> checked_dir tgt tr d"
  "permitted tgt c y tr (AUnlink d name) \<longleftrightarrow> checked_dir tgt tr d"
  "permitted tgt c y tr (ATruncate i) \<longleftrightarrow> checked_file tgt tr i"
  "permitted tgt c y tr (AWrite i bytes) \<longleftrightarrow> created_in tr i"
  "permitted tgt c y tr (AChown i u) \<longleftrightarrow> created_in tr i \<and> u = tgt"
  "permitted tgt c y tr (AChmod i m) \<longleftrightarrow> created_in tr i"
  "permitted tgt c y tr (ASync i) \<longleftrightarrow> created_in tr i \<or> checked_dir tgt tr i"
  by (simp_all add: permitted_def)

section \<open>Directories\<close>

lemma wp_Classify [wps]: "(\<And>e. Q e A P) \<Longrightarrow> wp (ClassifyDirectoryOpenFailure k d name) Q A P"
  unfolding ClassifyDirectoryOpenFailure_def by (intro wps)

lemma wp_case_Inl [wps]: "wp (f e) Q A P \<Longrightarrow> wp (case Inl e of Inl e \<Rightarrow> f e | Inr x \<Rightarrow> g x) Q A P"
  by simp

lemma wp_case_Inr [wps]: "wp (g x) Q A P \<Longrightarrow> wp (case Inr x of Inl e \<Rightarrow> f e | Inr x \<Rightarrow> g x) Q A P"
  by simp

lemma wp_case_prod [wps]: "wp (f x y) Q A P \<Longrightarrow> wp (case (x, y) of (x, y) \<Rightarrow> f x y) Q A P"
  by simp

lemma wp_OpenOwnedDirectory:
  assumes "all_permitted targetUid c y A"
    and "\<And>e A'. all_permitted targetUid c y A' \<Longrightarrow> Q (Inl e) A' P"
    and "\<And>fd A'. all_permitted targetUid c y A' \<Longrightarrow> checked_dir targetUid A' fd \<Longrightarrow>
           Q (Inr fd) A' (add_mset fd P)"
  shows "wp (OpenOwnedDirectory k d name targetUid) Q A P"
  unfolding OpenOwnedDirectory_def
  by (intro wps wp_openat_existing)
    (simp_all add: assms o_flags bit_or_iff bit_push_bit_iff bit_1_iff)

lemma wp_OpenDirectories:
  assumes "all_permitted targetUid c y A" "checked_dir targetUid A dirFd" "dirFd \<in># P"
    and "\<And>e A'. all_permitted targetUid c y A' \<Longrightarrow> Q (Inl e) A' (P - {#dirFd#})"
    and "\<And>fd A'. all_permitted targetUid c y A' \<Longrightarrow> checked_dir targetUid A' fd \<Longrightarrow>
           Q (Inr fd) A' (add_mset fd (P - {#dirFd#}))"
  shows "wp (OpenDirectories k targetUid dirFd cs) Q A P"
  using assms
proof (induction cs arbitrary: dirFd A P)
  case Nil
  then show ?case
    by (simp add: wp_def) (metis insert_DiffM)
next
  case (Cons n cs)
  show ?case
    unfolding OpenDirectories.simps
  proof (intro wp_bind wp_OpenOwnedDirectory [OF Cons.prems(1)] wp_close)
    fix e A' assume "all_permitted targetUid c y A'"
    then show "wp (case Inl e of Inl e \<Rightarrow> ret (Inl e)
        | Inr nextFd \<Rightarrow> OpenDirectories k targetUid nextFd cs) Q A' (P - {#dirFd#})"
      by (intro wps Cons.prems)
  next
    fix fd A' assume *: "all_permitted targetUid c y A'" "checked_dir targetUid A' fd"
    have "add_mset fd P - {#dirFd#} = add_mset fd (P - {#dirFd#})"
      using Cons.prems(3) by simp
    then show "wp (case Inr fd of Inl e \<Rightarrow> ret (Inl e)
        | Inr nextFd \<Rightarrow> OpenDirectories k targetUid nextFd cs) Q A' (add_mset fd P - {#dirFd#})"
      using Cons.prems(4,5) * by (intro wps Cons.IH) simp_all
  qed
qed

lemma wp_OpenValidatedParent:
  assumes "all_permitted targetUid c y A"
    and "\<And>e A'. all_permitted targetUid c y A' \<Longrightarrow> Q (Inl e) A' P"
    and "\<And>fd name A'. all_permitted targetUid c y A' \<Longrightarrow> checked_dir targetUid A' fd \<Longrightarrow>
           Q (Inr (fd, name)) A' (add_mset fd P)"
  shows "wp (OpenValidatedParent k path targetUid baseDir) Q A P"
proof (cases "relative_components path baseDir")
  case None
  then show ?thesis using assms by (auto simp: OpenValidatedParent_def intro: wps)
next
  case (Some components)
  show ?thesis
    unfolding OpenValidatedParent_def Some option.case
    by (intro wp_bind wp_OpenOwnedDirectory [OF assms(1)] wp_case_Inl wp_case_Inr wp_ret
        wp_OpenDirectories [where c = c and y = y]) (auto simp: assms)
qed


section \<open>Files\<close>

lemma wp_open_or_create:
  assumes "\<And>e. Q (False, Inl e) A P"
    and "\<And>fd. Q (False, Inr fd) (AOpen fd # A) (add_mset fd P)"
    and "\<And>fd. Q (True, Inr fd) (ACreate dirFd name fd # A) (add_mset fd P)"
  shows "wp (open_or_create k dirFd name flags mode') Q A P"
  unfolding open_or_create_def Let_def
  by (intro wps wp_openat_existing wp_openat_create)
    (simp_all add: assms o_flags bit_or_iff bit_and_iff bit_not_iff bit_push_bit_iff bit_1_iff)

lemma wp_give_up:
  assumes "all_permitted targetUid c y A" "checked_dir targetUid A dirFd"
    and "\<And>A'. all_permitted targetUid c y A' \<Longrightarrow> Q (Inl err) A' (P - {#fd#} - {#dirFd#})"
  shows "wp (give_up k created dirFd name fd err) Q A P"
  unfolding give_up_def using assms
  by (intro wps) auto

text \<open>A file that is the user's: its own already, or given to it by root.\<close>

definition users_file :: "u32 \<Rightarrow> Act list \<Rightarrow> nat \<Rightarrow> bool" where
  "users_file tgt tr i \<longleftrightarrow>
     (\<exists>st. ASaw i st \<in> set tr \<and> nd_type st = KReg \<and> nd_nlink st = 1 \<and>
           (nd_uid st = tgt \<or> AChown i tgt \<in> set tr))"

lemma acceptable_error [simp]: "\<not> acceptable created tgt (Inl e)"
  by (simp add: acceptable_def)

lemma users_file_seen [simp]: "acceptable False tgt (Inr st) \<Longrightarrow> users_file tgt (ASaw i st # tr) i"
  by (auto simp: acceptable_def users_file_def)

lemma wp_prepare_file:
  assumes "all_permitted targetUid c y A" "checked_dir targetUid A d" "checked_file targetUid A fd"
    and "created \<Longrightarrow> created_in A fd" "\<not> created \<Longrightarrow> users_file targetUid A fd"
    and "\<And>A'. all_permitted targetUid c y A' \<Longrightarrow> checked_dir targetUid A' d \<Longrightarrow> Q False A' P"
    and "\<And>A'. all_permitted targetUid c y A' \<Longrightarrow> checked_dir targetUid A' d \<Longrightarrow>
           users_file targetUid A' fd \<Longrightarrow> Q True A' P"
  shows "wp (prepare_file k created fd targetUid flags) Q A P"
  unfolding prepare_file_def using assms
  by (intro wps) (auto 0 3 simp: users_file_def checked_file_def)

lemma wp_OpenForRootWrite:
  assumes "all_permitted targetUid c y A"
    and "\<And>e A'. all_permitted targetUid c y A' \<Longrightarrow> Q (Inl e) A' P"
    and "\<And>fd A'. all_permitted targetUid c y A' \<Longrightarrow> users_file targetUid A' fd \<Longrightarrow>
           Q (Inr fd) A' (add_mset fd P)"
  shows "wp (OpenForRootWrite k path targetUid baseDir flags mode') Q A P"
  unfolding OpenForRootWrite_def
  by (intro wp_bind wp_OpenValidatedParent [OF assms(1)] wp_case_Inl wp_case_Inr wp_case_prod wp_ret
      wp_open_or_create wp_close wp_fstat wp_if wp_give_up [where c = c and y = y]
      wp_prepare_file [where c = c and y = y])
    (auto simp: assms)

lemma wp_RemoveFileForRootWrite:
  assumes "all_permitted targetUid c y A"
    and "\<And>e A'. all_permitted targetUid c y A' \<Longrightarrow> Q e A' P"
  shows "wp (RemoveFileForRootWrite k path targetUid baseDir) Q A P"
  unfolding RemoveFileForRootWrite_def
  by (intro wp_bind wp_OpenValidatedParent [OF assms(1)] wp_case_Inl wp_case_Inr wp_case_prod wp_ret
      wp_unlinkat wp_close)
    (auto simp: assms)

section \<open>Replacing a file\<close>

lemma wp_WriteAll_loop:
  assumes "all_permitted targetUid c y A" "checked_dir targetUid A d" "ACreate d name fd \<in> set A"
    and "\<And>A'. all_permitted targetUid c y A' \<Longrightarrow> checked_dir targetUid A' d \<Longrightarrow> Q False A' P"
    and "\<And>A'. all_permitted targetUid c y A' \<Longrightarrow> checked_dir targetUid A' d \<Longrightarrow>
           ACreate d name fd \<in> set A' \<Longrightarrow> written A' fd = written A fd @ contents \<Longrightarrow> Q True A' P"
  shows "wp (WriteAll_loop k fd as contents) Q A P"
  using assms
proof (induction as arbitrary: contents A)
  case Nil
  then show ?case by (cases "contents = []") (auto intro!: wps)
next
  case (Cons a as)
  show ?case
  proof (cases "contents = [] \<or> a = WriteFails \<or> a = Interrupted")
    case True
    then show ?thesis
      using Cons.prems Cons.IH [OF Cons.prems] by (cases a) (auto intro!: wps)
  next
    case False
    then obtain n where a: "a = Wrote n" "contents \<noteq> []" by (cases a) auto
    have "created_in A fd" using Cons.prems(3) by (rule created_inI)
    then show ?thesis
      using a Cons.prems
      by (auto simp: intro!: wps Cons.IH)
  qed
qed

lemma wp_WriteAll:
  assumes "all_permitted targetUid c y A" "checked_dir targetUid A d" "ACreate d name fd \<in> set A"
    and "\<And>A'. all_permitted targetUid c y A' \<Longrightarrow> checked_dir targetUid A' d \<Longrightarrow> Q False A' P"
    and "\<And>A'. all_permitted targetUid c y A' \<Longrightarrow> checked_dir targetUid A' d \<Longrightarrow>
           ACreate d name fd \<in> set A' \<Longrightarrow> written A' fd = written A fd @ contents \<Longrightarrow> Q True A' P"
  shows "wp (WriteAll k fd contents) Q A P"
  unfolding wp_def
proof (intro allI impI)
  fix s :: Sys
  assume s: "sy_acts s = A \<and> sy_open s = P"
  have "wp (WriteAll_loop k fd (kn_writes k (sy_time s)) contents) Q A P"
    by (rule wp_WriteAll_loop) (use assms in auto)
  then show "case run_state (WriteAll k fd contents) s of (r, s') \<Rightarrow> Q r (sy_acts s') (sy_open s')"
    using s by (simp add: wp_def WriteAll_def State_Monad.get_def)
qed

lemma wp_finish_temp:
  assumes "all_permitted targetUid contents synced A" "checked_dir targetUid A d"
    and "ACreate d name fd \<in> set A" "written A fd = []"
    and "\<And>A'. all_permitted targetUid contents synced A' \<Longrightarrow> checked_dir targetUid A' d \<Longrightarrow> Q False A' P"
    and "\<And>A'. all_permitted targetUid contents synced A' \<Longrightarrow> checked_dir targetUid A' d \<Longrightarrow>
           (\<And>new. permitted targetUid contents synced A' (ARename d name new)) \<Longrightarrow> Q True A' P"
  shows "wp (finish_temp k fd targetUid targetGid contents synced) Q A P"
  unfolding finish_temp_def
  by (intro wps wp_WriteAll [OF assms(1-3)])
    (auto simp: assms permitted_def intro: created_inI intro!: assms(5-))

lemma wp_ReplaceFileForRootWrite:
  assumes "all_permitted targetUid contents (durability = kSynced) A"
    and "\<And>e A'. all_permitted targetUid contents (durability = kSynced) A' \<Longrightarrow> Q e A' P"
  shows "wp (ReplaceFileForRootWrite k path targetUid targetGid baseDir contents durability) Q A P"
  unfolding ReplaceFileForRootWrite_def Let_def
  by (intro wp_bind wp_OpenValidatedParent [OF assms(1)] wp_case_Inl wp_case_Inr wp_case_prod wp_ret
      wp_unlinkat wp_close wp_openat_create wp_if wp_succeeded post_Inl post_Inr wp_renameat wp_fsync
      wp_finish_temp)
    (auto simp: assms o_flags bit_or_iff)


section \<open>Safety of the operations\<close>

text \<open>A run by a fresh process: the result, the trace, and the descriptors left open.\<close>

definition run :: "'a prog \<Rightarrow> Inodes \<Rightarrow> 'a \<times> Act list \<times> nat multiset" where
  "run m fs =
     (case run_state m \<lparr>sy_fs = fs, sy_time = 0, sy_acts = [], sy_open = {#}\<rparr> of
        (r, s) \<Rightarrow> (r, sy_acts s, sy_open s))"

lemma run_wp: "wp m Q [] {#} \<Longrightarrow> case run m fs of (r, A, P) \<Rightarrow> Q r A P"
  by (auto simp: wp_def run_def split: prod.splits dest!: spec)


text \<open>C21: no descriptor is left open by an operation, except the one a successful open returns, and
  that one is a regular file with one link which is the target user's or was given to the user.\<close>

theorem descriptors_accounted:
  "(case run (OpenForRootWrite k path uid base flags perm) fs of (r, A, P) \<Rightarrow>
      (case r of Inl e \<Rightarrow> P = {#} | Inr fd \<Rightarrow> P = {#fd#} \<and> users_file uid A fd)) \<and>
   (case run (RemoveFileForRootWrite k path uid base) fs of (r, A, P) \<Rightarrow> P = {#}) \<and>
   (case run (ReplaceFileForRootWrite k path uid gid base contents durability) fs of (r, A, P) \<Rightarrow>
      P = {#})"
  by (intro conjI run_wp wp_OpenForRootWrite [where c = contents and y = False]
      wp_RemoveFileForRootWrite [where c = contents and y = False] wp_ReplaceFileForRootWrite)
    simp_all

text \<open>for an absolute path no component that is opened below the base directory is a dot, a
  dot-dot or contains a slash, so that the walk cannot leave the base by its names alone.\<close>

lemma walked_components_plain:
  assumes "relative_components path base = Some cs" "path \<noteq> []" "hd path = CHR ''/''"
  shows "list_all (\<lambda>w. w = [] \<or> plain_name w) cs"
proof -
  let ?b = "lexically_normal base"
  let ?t = "lexically_normal path"
  from assms(1) have pre: "prefix ?b ?t" "length ?b < length ?t" "?t ! length ?b = CHR ''/''"
    and cs: "cs = split_slash (drop (length ?b + 1) ?t)"
    by (auto simp: relative_components_def Let_def split: if_splits)
  from pre have "?t = ?b @ CHR ''/'' # drop (length ?b + 1) ?t"
    by (metis Suc_eq_plus1 append_eq_conv_conj append_take_drop_id id_take_nth_drop prefix_def
        Cons_nth_drop_Suc)
  then have "set cs \<subseteq> set (split_slash ?t)"
    unfolding cs by (metis split_slash_append set_append Un_upper2)
  then show ?thesis
    using lexically_normal_components [OF assms(2,3)] by (auto simp: list_all_iff)
qed

lemma walked_components_plain_witness:
  "list_all (\<lambda>w. w = [] \<or> plain_name w) [''.cache'', ''x'']"
  by (rule walked_components_plain [where path = "''/h/../h//.cache/./y/../x''" and base = "''/h''"])
    code_simp+

section \<open>An undisturbed replacement\<close>

definition quiet :: Kernel where
  "quiet = \<lparr>kn_env = (\<lambda>n fs. fs), kn_error = (\<lambda>n. None),
     kn_base = (\<lambda>fs p. if p = ''/h'' then Some 1 else None),
     kn_fresh = (\<lambda>fs. 7), kn_writes = (\<lambda>n. [Interrupted, Wrote 3])\<rparr>"

definition home :: Inodes where
  "home = [1 \<mapsto> \<lparr>nd_type = KDir, nd_uid = 1000, nd_gid = 1000, nd_nlink = 2, nd_perm = 448,
     nd_data = [], nd_entries = Map.empty\<rparr>]"

lemma undisturbed_replacement:
  "(case run_state (ReplaceFileForRootWrite quiet ''/h/f'' 1000 1000 ''/h'' ''new'' kUnsynced)
      \<lparr>sy_fs = home, sy_time = 0, sy_acts = [], sy_open = {#}\<rparr> of
      (r, s) \<Rightarrow> r = kNone \<and> lookup quiet (sy_fs s) (DirFd 1) ''f'' = Some 7 \<and>
        map_option nd_data (sy_fs s 7) = Some ''new'' \<and> map_option nd_uid (sy_fs s 7) = Some 1000)"
  by code_simp

lemma wrapped_uid:
  "map_option tu_uid (ResolveTargetUser (Some '' +4294967296'') (\<lambda>uid. Some (uid, None, None))) = Some 0"
  by (simp add: ResolveTargetUser_def strtol_def digits_value_def is_digit_def isspace_def digit_value_def)

end
