(* ===== verification/Fanotify_Monitor.thy ===== *)
theory Fanotify_Monitor
  imports File_Types Byte_Codec
begin

unbundle bit_operations_syntax

text \<open>
  The fanotify monitor (\<open>indexer/FanotifyMonitor.{h,cpp}\<close>): the bytes of a read are walked as the
  code does, by offsets, and every load can fault (\<open>None\<close>). The results of the system calls and
  the resolver of file handles are parameters. The theory shows that no byte sequence makes the
  parser read outside the buffer, and that what the kernel writes is reported event by event.
\<close>

section \<open>Classification\<close>

definition FAN_MODIFY :: u64 where "FAN_MODIFY = 0x2"
definition FAN_MOVED_FROM :: u64 where "FAN_MOVED_FROM = 0x40"
definition FAN_MOVED_TO :: u64 where "FAN_MOVED_TO = 0x80"
definition FAN_CREATE :: u64 where "FAN_CREATE = 0x100"
definition FAN_DELETE :: u64 where "FAN_DELETE = 0x200"
definition FAN_ONDIR :: u64 where "FAN_ONDIR = 0x40000000"

definition FAN_EVENT_INFO_TYPE_DFID_NAME :: u8 where "FAN_EVENT_INFO_TYPE_DFID_NAME = 2"
definition FANOTIFY_METADATA_VERSION :: u8 where "FANOTIFY_METADATA_VERSION = 3"

lemmas fan_bits = FAN_MODIFY_def FAN_MOVED_FROM_def FAN_MOVED_TO_def FAN_CREATE_def FAN_DELETE_def
  FAN_ONDIR_def

definition ClassifyMask :: "u64 \<Rightarrow> FileChangeType option" where
  "ClassifyMask msk =
     (if msk AND FAN_CREATE \<noteq> 0 then Some Added
      else if msk AND FAN_DELETE \<noteq> 0 then Some Removed
      else if msk AND FAN_MOVED_FROM \<noteq> 0 then Some Removed
      else if msk AND FAN_MOVED_TO \<noteq> 0 then Some Added
      else if msk AND FAN_MODIFY \<noteq> 0 then Some Modified
      else None)"

section \<open>Records\<close>

text \<open>\<open>struct fanotify_event_metadata\<close>, 24 bytes.\<close>

record FanotifyMetadata =
  fm_event_len :: u32
  fm_vers :: u8
  fm_metadata_len :: u16
  fm_mask :: u64
  fm_fd :: "32 word"

definition ReadMetadata :: "string \<Rightarrow> FanotifyMetadata option" where
  "ReadMetadata buf = do {
     event_len \<leftarrow> load_le buf 0;
     vers \<leftarrow> load_le buf 4;
     metadata_len \<leftarrow> load_le buf 6;
     msk \<leftarrow> load_le buf 8;
     fd \<leftarrow> load_le buf 16;
     Some \<lparr>fm_event_len = event_len, fm_vers = vers, fm_metadata_len = metadata_len,
           fm_mask = msk, fm_fd = fd\<rparr> }"

text \<open>
  The walk over the info records of an event. \<open>Some None\<close> is the null pointer, \<open>Some (Some off)\<close>
  a record, \<open>None\<close> a read outside the buffer.
\<close>

function FindInfo_loop :: "string \<Rightarrow> nat \<Rightarrow> nat \<Rightarrow> nat option option" where
  "FindInfo_loop buf limit offset =
     (if offset + 4 \<le> limit then do {
        info_type \<leftarrow> (load_le buf offset :: u8 option);
        len \<leftarrow> (load_le buf (offset + 2) :: u16 option);
        if unat len = 0 \<or> offset + unat len > limit then Some None
        else if info_type = FAN_EVENT_INFO_TYPE_DFID_NAME then Some (Some offset)
        else FindInfo_loop buf limit (offset + unat len) }
      else Some None)"
  by pat_completeness auto
termination
  by (relation "measure (\<lambda>(buf, limit, offset). limit - offset)") auto

declare FindInfo_loop.simps [simp del]

definition FindDfidNameInfo :: "string \<Rightarrow> FanotifyMetadata \<Rightarrow> nat option option" where
  "FindDfidNameInfo buf metadata =
     (if unat (fm_event_len metadata) < unat (fm_metadata_len metadata) then Some None
      else FindInfo_loop buf (unat (fm_event_len metadata)) (unat (fm_metadata_len metadata)))"

fun name_scan :: "string \<Rightarrow> nat \<Rightarrow> nat \<Rightarrow> nat option" where
  "name_scan buf pos 0 = Some 0"
| "name_scan buf pos (Suc capacity) = do {
     c \<leftarrow> nth_opt buf pos;
     if c = CHR 0x00 then Some 0 else map_option Suc (name_scan buf (pos + 1) capacity) }"

text \<open>The handle is the bytes of the whole \<open>struct file_handle\<close>.\<close>

definition ExtractHandleAndName :: "string \<Rightarrow> nat \<Rightarrow> (string \<times> string) option option" where
  "ExtractHandleAndName buf info = do {
     len \<leftarrow> (load_le buf (info + 2) :: u16 option);
     let recordLen = unat len;
     let prefixLen = 12;
     if recordLen < prefixLen + 8 then Some None
     else do {
       handle_bytes \<leftarrow> (load_le buf (info + prefixLen) :: u32 option);
       let handleTotal = 8 + unat handle_bytes;
       if prefixLen + handleTotal > recordLen then Some None
       else do {
         let namePos = info + prefixLen + handleTotal;
         let nameCapacity = recordLen - prefixLen - handleTotal;
         nameLen \<leftarrow> name_scan buf namePos nameCapacity;
         if nameLen = nameCapacity then Some None
         else do {
           handle \<leftarrow> buf_view buf (info + prefixLen) handleTotal;
           name \<leftarrow> buf_view buf namePos nameLen;
           Some (Some (handle, name)) } } } }"

definition Fanotify_JoinPath :: "string \<Rightarrow> string \<Rightarrow> string" where
  "Fanotify_JoinPath dirPath name =
     (if dirPath \<noteq> [] \<and> last dirPath = CHR ''/'' then dirPath @ name
      else dirPath @ ''/'' @ name)"

type_synonym HandleResolver = "int \<Rightarrow> string \<Rightarrow> string"

text \<open>The event at the start of \<open>buf\<close>; a missing buffer is the null pointer.\<close>

definition ParseFanotifyEvent ::
  "HandleResolver option \<Rightarrow> int \<Rightarrow> string option \<Rightarrow> FileChangeEvent option option" where
  "ParseFanotifyEvent resolver mountFd event =
     (case event of
        None \<Rightarrow> Some None
      | Some buf \<Rightarrow> do {
          metadata \<leftarrow> ReadMetadata buf;
          case ClassifyMask (fm_mask metadata) of
            None \<Rightarrow> Some None
          | Some type \<Rightarrow> do {
              fidInfo \<leftarrow> FindDfidNameInfo buf metadata;
              case fidInfo of
                None \<Rightarrow> Some None
              | Some info \<Rightarrow> do {
                  handleAndName \<leftarrow> ExtractHandleAndName buf info;
                  case handleAndName of
                    None \<Rightarrow> Some None
                  | Some (handle, name) \<Rightarrow>
                      let dirPath = (case resolver of None \<Rightarrow> [] | Some r \<Rightarrow> r mountFd handle)
                      in if dirPath = [] then Some None
                         else Some (Some \<lparr>fc_type = type, fc_path = Fanotify_JoinPath dirPath name,
                                          fc_oldPath = []\<rparr>) } } })"

section \<open>Resolving handles\<close>

text \<open>\<open>open_by_handle_at\<close> and \<open>readlink\<close> are parameters; the target is read into \<open>PATH_MAX - 1\<close>
  bytes and ends at the first null character.\<close>

definition ResolveDirPath ::
  "(int \<Rightarrow> string \<Rightarrow> int) \<Rightarrow> (int \<Rightarrow> string option) \<Rightarrow> int \<Rightarrow> string option \<Rightarrow> string" where
  "ResolveDirPath open_by_handle_at readlink mountFd handle =
     (case handle of
        None \<Rightarrow> []
      | Some h \<Rightarrow>
          let fd = open_by_handle_at mountFd h
          in if fd < 0 then []
             else case readlink fd of
               None \<Rightarrow> []
             | Some target \<Rightarrow> takeWhile (\<lambda>c. c \<noteq> CHR 0x00) (take 4095 target))"

section \<open>Monitoring\<close>

text \<open>The results of \<open>fanotify_init\<close> and of the probe mark.\<close>

definition Fanotify_IsAvailable :: "int \<Rightarrow> int \<Rightarrow> bool" where
  "Fanotify_IsAvailable initResult markResult \<longleftrightarrow> initResult \<ge> 0 \<and> markResult = 0"

text \<open>One read: the changes reported and the descriptors closed.\<close>

function ReadEvents ::
  "HandleResolver option \<Rightarrow> int \<Rightarrow> string \<Rightarrow> (FileChangeEvent list \<times> int list) option" where
  "ReadEvents resolver mountFd buf =
     (if length buf \<ge> 24 then do {
        metadata \<leftarrow> ReadMetadata buf;
        let event_len = unat (fm_event_len metadata);
        if event_len \<ge> 24 \<and> event_len \<le> length buf then do {
          event \<leftarrow> (if fm_vers metadata = FANOTIFY_METADATA_VERSION
                    then ParseFanotifyEvent resolver mountFd (Some buf) else Some None);
          (changes, closed) \<leftarrow> ReadEvents resolver mountFd (drop event_len buf);
          Some ((case event of None \<Rightarrow> changes | Some ev \<Rightarrow> ev # changes),
                (if sint (fm_fd metadata) \<ge> 0 then sint (fm_fd metadata) # closed else closed)) }
        else Some ([], []) }
      else Some ([], []))"
  by pat_completeness auto
termination
  by (relation "measure (\<lambda>(resolver, mountFd, buf). length buf)") auto

declare ReadEvents.simps [simp del]

text \<open>One turn of the loop: a poll that gives nothing, a read to retry, a broken read, or bytes.\<close>

datatype MonitorTurn = PollNothing | ReadAgain | ReadBroken | ReadBytes string

fun Fanotify_loop ::
  "HandleResolver option \<Rightarrow> int \<Rightarrow> MonitorTurn list \<Rightarrow> FileChangeEvent list option" where
  "Fanotify_loop resolver mountFd [] = Some []"
| "Fanotify_loop resolver mountFd (PollNothing # turns) = Fanotify_loop resolver mountFd turns"
| "Fanotify_loop resolver mountFd (ReadAgain # turns) = Fanotify_loop resolver mountFd turns"
| "Fanotify_loop resolver mountFd (ReadBroken # turns) = Some []"
| "Fanotify_loop resolver mountFd (ReadBytes buf # turns) = do {
     (changes, closed) \<leftarrow> ReadEvents resolver mountFd buf;
     later \<leftarrow> Fanotify_loop resolver mountFd turns;
     Some (changes @ later) }"

text \<open>The turns are those before the stop token is seen.\<close>

definition Fanotify_StartMonitoring ::
  "HandleResolver option \<Rightarrow> int \<Rightarrow> int \<Rightarrow> int \<Rightarrow> MonitorTurn list \<Rightarrow> FileChangeEvent list option" where
  "Fanotify_StartMonitoring resolver initResult markResult mountFd turns =
     (if initResult < 0 then Some []
      else if markResult < 0 then Some []
      else if mountFd < 0 then Some []
      else Fanotify_loop resolver mountFd turns)"

section \<open>No read outside the buffer\<close>

lemma FindInfo_loop_safe:
  "limit \<le> length buf \<Longrightarrow> FindInfo_loop buf limit offset \<noteq> None"
proof (induction buf limit offset rule: FindInfo_loop.induct)
  case (1 buf limit offset)
  show ?case
  proof (cases "offset + 4 \<le> limit")
    case False
    then show ?thesis by (simp add: FindInfo_loop.simps)
  next
    case True
    then obtain ty len where "load_le buf offset = Some (ty :: u8)"
      and len: "load_le buf (offset + 2) = Some (len :: u16)"
      using "1.prems" by (simp add: load_le_def)
    then show ?thesis
      using True 1 by (subst FindInfo_loop.simps) auto
  qed
qed

lemma FindInfo_loop_Some:
  assumes "FindInfo_loop buf limit offset = Some (Some info)"
  shows "\<exists>len :: u16. load_le buf (info + 2) = Some len \<and> info + unat len \<le> limit"
  using assms
proof (induction buf limit offset rule: FindInfo_loop.induct)
  case (1 buf limit offset)
  from "1.prems" show ?case
    by (subst (asm) FindInfo_loop.simps) (auto elim!: bind_SomeE split: if_splits dest: "1.IH")
qed

lemma name_scan_safe: "pos + capacity \<le> length buf \<Longrightarrow> name_scan buf pos capacity \<noteq> None"
  by (induction capacity arbitrary: pos) auto

lemma name_scan_le: "name_scan buf pos capacity = Some n \<Longrightarrow> n \<le> capacity"
  by (induction capacity arbitrary: pos n) (auto elim!: bind_SomeE split: if_splits)

lemma ExtractHandleAndName_safe:
  assumes "load_le buf (info + 2) = Some (len :: u16)" "info + unat len \<le> length buf"
  shows "ExtractHandleAndName buf info \<noteq> None"
proof (cases "unat len < 20")
  case True
  then show ?thesis using assms by (simp add: ExtractHandleAndName_def)
next
  case False
  then obtain hb where hb: "load_le buf (info + 12) = Some (hb :: u32)"
    using assms(2) by (simp add: load_le_def)
  show ?thesis
  proof (cases "12 + (8 + unat hb) > unat len")
    case True
    then show ?thesis using assms hb False by (simp add: ExtractHandleAndName_def)
  next
    case fits: False
    let ?pos = "info + 12 + (8 + unat hb)" and ?cap = "unat len - 12 - (8 + unat hb)"
    from fits assms(2) have "?pos + ?cap \<le> length buf" by simp
    then obtain n where n: "name_scan buf ?pos ?cap = Some n"
      using name_scan_safe by blast
    then have "n \<le> ?cap" by (rule name_scan_le)
    then show ?thesis
      using assms hb False fits n by (simp add: ExtractHandleAndName_def)
  qed
qed

lemma ReadMetadata_safe: "24 \<le> length buf \<Longrightarrow> ReadMetadata buf \<noteq> None"
  by (simp add: ReadMetadata_def load_le_def)

lemma ParseFanotifyEvent_safe:
  assumes "ReadMetadata buf = Some m" "unat (fm_event_len m) \<le> length buf"
  shows "ParseFanotifyEvent resolver mountFd (Some buf) \<noteq> None"
proof (cases "ClassifyMask (fm_mask m)")
  case None
  then show ?thesis using assms by (simp add: ParseFanotifyEvent_def)
next
  case type: (Some type)
  have "FindDfidNameInfo buf m \<noteq> None"
    unfolding FindDfidNameInfo_def using FindInfo_loop_safe [OF assms(2)] by simp
  then obtain fidInfo where fid: "FindDfidNameInfo buf m = Some fidInfo" by blast
  show ?thesis
  proof (cases fidInfo)
    case None
    then show ?thesis using assms type fid by (simp add: ParseFanotifyEvent_def)
  next
    case (Some info)
    then obtain len :: u16 where "load_le buf (info + 2) = Some len" "info + unat len \<le> length buf"
      using fid assms(2) FindInfo_loop_Some [of buf "unat (fm_event_len m)"]
      by (fastforce simp: FindDfidNameInfo_def split: if_splits)
    then obtain hn where "ExtractHandleAndName buf info = Some hn"
      using ExtractHandleAndName_safe by blast
    then show ?thesis
      using assms type fid Some
      by (auto simp: ParseFanotifyEvent_def Let_def split: option.splits)
  qed
qed

text \<open>C31: Whatever bytes a read delivers, walking and parsing its events never reads outside the
  buffer, and the walk ends.\<close>

theorem ReadEvents_safe: "ReadEvents resolver mountFd buf \<noteq> None"
proof (induction resolver mountFd buf rule: ReadEvents.induct)
  case (1 resolver mountFd buf)
  show ?case
  proof (cases "length buf \<ge> 24")
    case False
    then show ?thesis by (simp add: ReadEvents.simps)
  next
    case True
    then obtain m where m: "ReadMetadata buf = Some m" using ReadMetadata_safe by blast
    show ?thesis
    proof (cases "unat (fm_event_len m) \<ge> 24 \<and> unat (fm_event_len m) \<le> length buf")
      case False
      then show ?thesis using m True by (subst ReadEvents.simps) (auto simp: Let_def)
    next
      case fits: True
      obtain ev where ev:
        "(if fm_vers m = FANOTIFY_METADATA_VERSION
          then ParseFanotifyEvent resolver mountFd (Some buf) else Some None) = Some ev"
        using ParseFanotifyEvent_safe [OF m] fits by (cases "fm_vers m = FANOTIFY_METADATA_VERSION") auto
      have "ReadEvents resolver mountFd (drop (unat (fm_event_len m)) buf) \<noteq> None"
        by (rule "1.IH" [OF True m refl fits ev])
      then show ?thesis
        using True m fits ev by (subst ReadEvents.simps) (auto simp: Let_def)
    qed
  qed
qed

section \<open>What the kernel writes\<close>

text \<open>An event for a name in a directory: other info records, then the record with the handle of
  the directory and the name, padded.\<close>

record KernelEvent =
  ke_mask :: u64
  ke_fd :: "32 word"
  ke_pid :: "32 word"
  ke_others :: "(u8 \<times> string) list"
  ke_fsid :: string
  ke_handle_type :: u32
  ke_handle :: string
  ke_name :: string
  ke_padding :: nat

definition other_info :: "u8 \<times> string \<Rightarrow> string" where
  "other_info r = enc (fst r) @ enc (0 :: u8) @ enc (word_of_nat (4 + length (snd r)) :: u16) @ snd r"

definition handle_bytes :: "KernelEvent \<Rightarrow> string" where
  "handle_bytes e = enc (word_of_nat (length (ke_handle e)) :: u32) @ enc (ke_handle_type e) @ ke_handle e"

definition info_len :: "KernelEvent \<Rightarrow> nat" where
  "info_len e = 12 + length (handle_bytes e) + length (ke_name e) + 1 + ke_padding e"

definition name_info :: "KernelEvent \<Rightarrow> string" where
  "name_info e =
     enc FAN_EVENT_INFO_TYPE_DFID_NAME @ enc (0 :: u8) @
     enc (word_of_nat (info_len e) :: u16) @
     ke_fsid e @ handle_bytes e @ ke_name e @ CHR 0x00 # replicate (ke_padding e) (CHR 0x00)"

definition infos :: "KernelEvent \<Rightarrow> string" where
  "infos e = concat (map other_info (ke_others e)) @ name_info e"

definition event_bytes :: "KernelEvent \<Rightarrow> string" where
  "event_bytes e =
     enc (word_of_nat (24 + length (infos e)) :: u32) @ enc FANOTIFY_METADATA_VERSION @
     enc (0 :: u8) @ enc (24 :: u16) @ enc (ke_mask e) @ enc (ke_fd e) @ enc (ke_pid e) @ infos e"

definition wf_event :: "KernelEvent \<Rightarrow> bool" where
  "wf_event e \<longleftrightarrow>
     length (ke_fsid e) = 8 \<and> CHR 0x00 \<notin> set (ke_name e) \<and> length (infos e) < 2 ^ 16 \<and>
     list_all (\<lambda>(ty, body). ty \<noteq> FAN_EVENT_INFO_TYPE_DFID_NAME \<and> 4 + length body < 2 ^ 16) (ke_others e)"

text \<open>What is reported for it.\<close>

definition reported :: "HandleResolver \<Rightarrow> int \<Rightarrow> KernelEvent \<Rightarrow> FileChangeEvent list" where
  "reported resolver mountFd e =
     (case ClassifyMask (ke_mask e) of
        None \<Rightarrow> []
      | Some type \<Rightarrow>
          let dir = resolver mountFd (handle_bytes e)
          in if dir = [] then []
             else [\<lparr>fc_type = type, fc_path = Fanotify_JoinPath dir (ke_name e), fc_oldPath = []\<rparr>])"

lemma length_name_info: "length (ke_fsid e) = 8 \<Longrightarrow> length (name_info e) = info_len e"
  by (simp add: name_info_def info_len_def)

lemma length_handle_bytes: "length (handle_bytes e) = 8 + length (ke_handle e)"
  by (simp add: handle_bytes_def)

lemma ReadMetadata_event:
  assumes "wf_event e"
  shows "ReadMetadata (event_bytes e @ rest) =
    Some \<lparr>fm_event_len = word_of_nat (24 + length (infos e)), fm_vers = FANOTIFY_METADATA_VERSION,
          fm_metadata_len = 24, fm_mask = ke_mask e, fm_fd = ke_fd e\<rparr>"
proof -
  let ?len = "word_of_nat (24 + length (infos e)) :: u32"
  let ?buf = "event_bytes e @ rest"
  have "load_le ?buf 0 = Some ?len"
    by (rule load_le_at [where pre = "[]"]) (simp_all add: event_bytes_def)
  moreover have "load_le ?buf 4 = Some FANOTIFY_METADATA_VERSION"
    by (rule load_le_at [where pre = "enc ?len"]) (simp_all add: event_bytes_def)
  moreover have "load_le ?buf 6 = Some (24 :: u16)"
    by (rule load_le_at [where pre = "enc ?len @ enc FANOTIFY_METADATA_VERSION @ enc (0 :: u8)"])
      (simp_all add: event_bytes_def)
  moreover have "load_le ?buf 8 = Some (ke_mask e)"
    by (rule load_le_at [where pre = "enc ?len @ enc FANOTIFY_METADATA_VERSION @ enc (0 :: u8) @
          enc (24 :: u16)"])
      (simp_all add: event_bytes_def)
  moreover have "load_le ?buf 16 = Some (ke_fd e)"
    by (rule load_le_at [where pre = "enc ?len @ enc FANOTIFY_METADATA_VERSION @ enc (0 :: u8) @
          enc (24 :: u16) @ enc (ke_mask e)"])
      (simp_all add: event_bytes_def)
  ultimately show ?thesis
    by (simp add: ReadMetadata_def)
qed

lemma load_info_len:
  assumes "length (ke_fsid e) = 8" "buf = pre @ name_info e @ rest"
  shows "load_le buf (length pre + 2) = Some (word_of_nat (info_len e) :: u16)"
  by (rule load_le_at [where pre = "pre @ enc FAN_EVENT_INFO_TYPE_DFID_NAME @ enc (0 :: u8)"])
    (use assms in \<open>simp_all add: name_info_def\<close>)

lemma FindInfo_loop_event:
  assumes "list_all (\<lambda>(ty, body). ty \<noteq> FAN_EVENT_INFO_TYPE_DFID_NAME \<and> 4 + length body < 2 ^ 16) others"
    and "info_len e < 2 ^ 16" "length (ke_fsid e) = 8"
    and "buf = pre @ concat (map other_info others) @ name_info e @ rest"
    and "limit = length pre + length (concat (map other_info others)) + info_len e"
  shows "FindInfo_loop buf limit (length pre) =
    Some (Some (length pre + length (concat (map other_info others))))"
  using assms
proof (induction others arbitrary: pre)
  case Nil
  have "load_le buf (length pre) = Some FAN_EVENT_INFO_TYPE_DFID_NAME"
    by (rule load_le_at [where pre = pre]) (use Nil.prems(4) in \<open>simp_all add: name_info_def\<close>)
  moreover have "load_le buf (length pre + 2) = Some (word_of_nat (info_len e) :: u16)"
    by (rule load_info_len) (use Nil.prems in simp_all)
  moreover have "4 \<le> info_len e"
    by (simp add: info_len_def)
  ultimately show ?case
    using Nil.prems(2,5) by (subst FindInfo_loop.simps) simp
next
  case (Cons r others)
  obtain ty body where r: "r = (ty, body)" by (cases r)
  let ?len = "word_of_nat (4 + length body) :: u16"
  have fit: "4 + length body < 2 ^ 16" "ty \<noteq> FAN_EVENT_INFO_TYPE_DFID_NAME"
    using Cons.prems(1) r by auto
  have len: "length (other_info r) = 4 + length body" by (simp add: other_info_def r)
  have "load_le buf (length pre) = Some ty"
    by (rule load_le_at [where pre = pre]) (use Cons.prems(4) r in \<open>simp_all add: other_info_def\<close>)
  moreover obtain len :: u16 where "load_le buf (length pre + 2) = Some len" "unat len = 4 + length body"
  proof
    show "load_le buf (length pre + 2) = Some ?len"
      by (rule load_le_at [where pre = "pre @ enc ty @ enc (0 :: u8)"])
        (use Cons.prems(4) r in \<open>simp_all add: other_info_def\<close>)
    show "unat ?len = 4 + length body"
      by (rule unat_of_nat_fits) (use fit in simp)
  qed
  moreover have "FindInfo_loop buf limit (length (pre @ other_info r)) =
      Some (Some (length (pre @ other_info r) + length (concat (map other_info others))))"
    by (rule Cons.IH) (use Cons.prems in simp_all)
  ultimately show ?case
    using Cons.prems(5) fit len
    by (subst FindInfo_loop.simps) (simp add: add.assoc add.left_commute)
qed

lemma name_scan_name:
  assumes "CHR 0x00 \<notin> set name" "buf = pre @ name @ CHR 0x00 # rest" "length name < capacity"
  shows "name_scan buf (length pre) capacity = Some (length name)"
  using assms
proof (induction name arbitrary: pre capacity)
  case Nil
  then show ?case by (cases capacity) (simp_all add: nth_append)
next
  case (Cons c name)
  then obtain n where n: "capacity = Suc n" by (cases capacity) auto
  have "name_scan buf (length (pre @ [c])) n = Some (length name)"
    by (rule Cons.IH) (use Cons.prems n in simp_all)
  then show ?case
    using Cons.prems n by (auto simp: nth_append)
qed

lemma Extract_parts:
  assumes "load_le buf (info + 2) = Some (len :: u16)" "load_le buf (info + 12) = Some (hb :: u32)"
    and "unat len = 12 + (8 + unat hb) + capacity"
    and "name_scan buf (info + 12 + (8 + unat hb)) capacity = Some n" "n < capacity"
    and "buf_view buf (info + 12) (8 + unat hb) = Some handle"
    and "buf_view buf (info + 12 + (8 + unat hb)) n = Some name"
  shows "ExtractHandleAndName buf info = Some (Some (handle, name))"
  using assms by (simp add: ExtractHandleAndName_def)

lemma Extract_event:
  assumes fsid: "length (ke_fsid e) = 8" and nul: "CHR 0x00 \<notin> set (ke_name e)"
    and fit: "info_len e < 2 ^ 16" and buf: "buf = pre @ name_info e @ rest"
  shows "ExtractHandleAndName buf (length pre) = Some (Some (handle_bytes e, ke_name e))"
proof (rule Extract_parts)
  let ?hb = "word_of_nat (length (ke_handle e)) :: u32"
  let ?len = "word_of_nat (info_len e) :: u16"
  let ?pad = "CHR 0x00 # replicate (ke_padding e) (CHR 0x00)"
  let ?h = "enc FAN_EVENT_INFO_TYPE_DFID_NAME @ enc (0 :: u8) @ enc ?len @ ke_fsid e"
  have h: "length ?h = 12" using fsid by simp
  have split: "buf = pre @ ?h @ handle_bytes e @ ke_name e @ ?pad @ rest"
    using buf by (simp add: name_info_def)
  have hb: "unat ?hb = length (ke_handle e)"
    using fit by (simp add: info_len_def length_handle_bytes)
  show "load_le buf (length pre + 2) = Some ?len"
    by (rule load_info_len [OF fsid buf])
  show "load_le buf (length pre + 12) = Some ?hb"
    by (rule load_le_at [where pre = "pre @ ?h"]) (use split h in \<open>simp_all add: handle_bytes_def\<close>)
  have "unat ?len = info_len e"
    by (rule unat_of_nat_fits) (use fit in simp)
  then show "unat ?len = 12 + (8 + unat ?hb) + (length (ke_name e) + 1 + ke_padding e)"
    unfolding hb by (simp add: info_len_def length_handle_bytes)
  have "name_scan buf (length (pre @ ?h @ handle_bytes e)) (length (ke_name e) + 1 + ke_padding e) =
      Some (length (ke_name e))"
    by (rule name_scan_name) (use nul split in simp_all)
  moreover have "length (pre @ ?h @ handle_bytes e) = length pre + 12 + (8 + unat ?hb)"
    unfolding hb using h by (simp add: length_handle_bytes)
  ultimately show "name_scan buf (length pre + 12 + (8 + unat ?hb)) (length (ke_name e) + 1 + ke_padding e) =
      Some (length (ke_name e))"
    by (simp only:)
  show "buf_view buf (length pre + 12) (8 + unat ?hb) = Some (handle_bytes e)"
    unfolding hb
    by (rule buf_view_at [where pre = "pre @ ?h"]) (use split h length_handle_bytes in simp_all)
  show "buf_view buf (length pre + 12 + (8 + unat ?hb)) (length (ke_name e)) = Some (ke_name e)"
    unfolding hb
    by (rule buf_view_at [where pre = "pre @ ?h @ handle_bytes e"])
      (use split h length_handle_bytes in simp_all)
qed simp

lemma length_infos:
  "length (ke_fsid e) = 8 \<Longrightarrow>
   length (infos e) = length (concat (map other_info (ke_others e))) + info_len e"
  by (simp add: infos_def length_name_info)

lemma length_event_bytes: "length (event_bytes e) = 24 + length (infos e)"
  by (simp add: event_bytes_def)

lemma Parse_event:
  assumes "wf_event e"
  shows "ParseFanotifyEvent (Some resolver) mountFd (Some (event_bytes e @ rest)) =
    Some (case reported resolver mountFd e of [] \<Rightarrow> None | ev # evs \<Rightarrow> Some ev)"
proof -
  let ?buf = "event_bytes e @ rest" and ?head = "take 24 (event_bytes e)"
  let ?others = "concat (map other_info (ke_others e))"
  let ?limit = "24 + length (infos e)"
  have wf: "length (ke_fsid e) = 8" "CHR 0x00 \<notin> set (ke_name e)" "length (infos e) < 2 ^ 16"
    "list_all (\<lambda>(ty, body). ty \<noteq> FAN_EVENT_INFO_TYPE_DFID_NAME \<and> 4 + length body < 2 ^ 16) (ke_others e)"
    using assms by (auto simp: wf_event_def)
  have fit: "info_len e < 2 ^ 16" using wf(1,3) by (simp add: length_infos)
  have head: "length ?head = 24" by (simp add: length_event_bytes)
  have buf: "?buf = ?head @ ?others @ name_info e @ rest"
    by (simp add: event_bytes_def infos_def)
  have "FindInfo_loop ?buf ?limit (length ?head) = Some (Some (length ?head + length ?others))"
    by (rule FindInfo_loop_event [OF wf(4) fit wf(1) buf]) (simp add: length_event_bytes length_infos wf(1))
  moreover have "unat (word_of_nat ?limit :: u32) = ?limit"
    by (rule unat_of_nat_fits) (use wf(3) in simp)
  ultimately have "FindDfidNameInfo ?buf (the (ReadMetadata ?buf)) = Some (Some (24 + length ?others))"
    using ReadMetadata_event [OF assms, of rest] head
    by (simp add: FindDfidNameInfo_def del: of_nat_add)
  moreover have "ExtractHandleAndName ?buf (length (?head @ ?others)) = Some (Some (handle_bytes e, ke_name e))"
    by (rule Extract_event [OF wf(1,2) fit, where rest = rest]) (use buf in simp)
  ultimately show ?thesis
    using ReadMetadata_event [OF assms, of rest] head
    by (auto simp: ParseFanotifyEvent_def reported_def Let_def del: of_nat_add split: option.splits)
qed

text \<open>Every batch of events the kernel writes is reported event by event, in order: each with the
  classified type and the path of its directory joined with its name, whatever other info
  records come before; and every descriptor the kernel attached is closed.\<close>

lemma ReadEvents_kernel:
  assumes "list_all wf_event es"
  shows "ReadEvents (Some resolver) mountFd (concat (map event_bytes es)) =
    Some (concat (map (reported resolver mountFd) es),
          map sint (filter (\<lambda>fd. sint fd \<ge> 0) (map ke_fd es)))"
  using assms
proof (induction es)
  case Nil
  then show ?case by (simp add: ReadEvents.simps)
next
  case (Cons e es)
  let ?rest = "concat (map event_bytes es)"
  have wf: "wf_event e" and IH: "ReadEvents (Some resolver) mountFd ?rest =
    Some (concat (map (reported resolver mountFd) es),
          map sint (filter (\<lambda>fd. sint fd \<ge> 0) (map ke_fd es)))"
    using Cons by simp_all
  have len: "length (event_bytes e) = 24 + length (infos e)"
    by (rule length_event_bytes)
  have unat: "unat (word_of_nat (24 + length (infos e)) :: u32) = 24 + length (infos e)"
    by (rule unat_of_nat_fits) (use wf in \<open>simp add: wf_event_def\<close>)
  show ?case
    using ReadMetadata_event [OF wf, of ?rest] Parse_event [OF wf, of resolver mountFd ?rest] IH len unat
    by (subst ReadEvents.simps) (auto simp: Let_def reported_def simp del: of_nat_add split: option.splits)
qed

definition sample_event :: "u64 \<Rightarrow> string \<Rightarrow> KernelEvent" where
  "sample_event msk name =
     \<lparr>ke_mask = msk, ke_fd = - 1, ke_pid = 7, ke_others = [(1, ''pidfd...'')], ke_fsid = ''fs-id..8'',
      ke_handle_type = 1, ke_handle = ''inode 42'', ke_name = name, ke_padding = 2\<rparr>"

lemma wf_sample_event:
  "CHR 0x00 \<notin> set name \<Longrightarrow> length name < 100 \<Longrightarrow> wf_event (sample_event msk name)"
  by (simp add: wf_event_def sample_event_def infos_def other_info_def name_info_def handle_bytes_def
      FAN_EVENT_INFO_TYPE_DFID_NAME_def)

lemma ReadEvents_kernel_witness:
  "ReadEvents (Some (\<lambda>fd handle. ''/d'')) 3
     (concat (map event_bytes [sample_event FAN_CREATE ''a'', sample_event FAN_MOVED_FROM ''b''])) =
   Some ([\<lparr>fc_type = Added, fc_path = ''/d/a'', fc_oldPath = []\<rparr>,
          \<lparr>fc_type = Removed, fc_path = ''/d/b'', fc_oldPath = []\<rparr>], [])"
proof -
  have "list_all wf_event [sample_event FAN_CREATE ''a'', sample_event FAN_MOVED_FROM ''b'']"
    by (simp add: wf_sample_event)
  from ReadEvents_kernel [OF this, of "\<lambda>fd handle. ''/d''" 3] show ?thesis
    by (simp add: reported_def sample_event_def ClassifyMask_def fan_bits Fanotify_JoinPath_def)
qed

text \<open>
  The kernel merges queued events for one name, so a mask can carry a creation and a deletion;
  the order of the tests reports it as an addition.
\<close>

lemma merged_events_added: "ClassifyMask (FAN_CREATE OR FAN_DELETE) = Some Added"
  by (simp add: ClassifyMask_def fan_bits)

end
