(* ===== verification/Indexer_Core.thy ===== *)
theory Indexer_Core
  imports Index_Store Index_Serializer Status_File
begin

text \<open>
  The indexer (\<open>indexer/Indexer.{h,cpp}\<close>): builds, loads and saves the index and applies live
  changes. The scanner is an interface of the code; what a scan does is the sequence of its
  callbacks, a parameter. Reading the index file is its \<open>LoadResult\<close>; the image handed to the
  save hook is part of the result. Status reports are collected in order. \<open>None\<close> is a fault
  inside the store or the serializer.
\<close>

section \<open>Scans and status reports\<close>

datatype ScanCall = OnEntry FileEntry | OnProgress u64 string

type_synonym Scanner = "ScanOptions \<Rightarrow> ScanCall list"

definition scan_entries :: "ScanCall list \<Rightarrow> FileEntry list" where
  "scan_entries calls = concat (map (\<lambda>c. case c of OnEntry e \<Rightarrow> [e] | OnProgress _ _ \<Rightarrow> []) calls)"

definition ReportStatus :: "IndexerState \<Rightarrow> string \<Rightarrow> u64 \<Rightarrow> string list \<Rightarrow> u64 \<Rightarrow> IndexerStatus" where
  "ReportStatus state message filesIndexed locations indexAgeSeconds =
     default_status\<lparr>ix_state := state, ix_message := message, ix_filesIndexed := filesIndexed,
       ix_locations := locations, ix_indexAgeSeconds := indexAgeSeconds\<rparr>"

text \<open>\<open>deliver add progress\<close>: the callbacks of a scan, in order, on a state.\<close>

fun deliver :: "(FileEntry \<Rightarrow> 's \<Rightarrow> 's) \<Rightarrow> (u64 \<Rightarrow> string \<Rightarrow> 's \<Rightarrow> 's) \<Rightarrow> ScanCall list \<Rightarrow> 's \<Rightarrow> 's" where
  "deliver add progress [] s = s"
| "deliver add progress (OnEntry e # cs) s = deliver add progress cs (add e s)"
| "deliver add progress (OnProgress n dir # cs) s = deliver add progress cs (progress n dir s)"

section \<open>Building, loading, saving\<close>

definition SaveIndex :: "u64 option \<Rightarrow> IndexStore \<Rightarrow> string option" where
  "SaveIndex buildTimestampNs s =
     Serialize (is_pool s)
       (case buildTimestampNs of None \<Rightarrow> is_buildTimestampNs s | Some ts \<Rightarrow> ts)
       (is_lastMonitorStopNs s)"

record IndexingResult =
  ir_completed :: bool
  ir_store :: IndexStore
  ir_reports :: "IndexerStatus list"
  ir_saved :: "string option"

definition age_seconds :: "u64 \<Rightarrow> u64 \<Rightarrow> u64" where
  "age_seconds nowNs buildTimestampNs =
     (if nowNs > buildTimestampNs then (nowNs - buildTimestampNs) div 1000000000 else 0)"

definition StartIndexing ::
  "bool \<Rightarrow> ScanOptions \<Rightarrow> u64 \<Rightarrow> u64 \<Rightarrow> LoadResult \<Rightarrow> Scanner \<Rightarrow> bool \<Rightarrow> IndexStore \<Rightarrow>
   IndexingResult option" where
  "StartIndexing force options nowNs staleThresholdSeconds loaded scanner cancelled s =
     (let roots = so_rootPaths options;
          ageSeconds = age_seconds nowNs (lr_buildTimestampNs loaded)
      in if \<not> force \<and> lr_success loaded \<and> ageSeconds \<le> staleThresholdSeconds then
           Some \<lparr>ir_completed = True,
             ir_store = LoadPool s (lr_pool loaded) (lr_buildTimestampNs loaded)
                          (lr_lastMonitorStopNs loaded),
             ir_reports = [ReportStatus LoadingIndex ''Loading index from disk'' 0 roots ageSeconds,
                           ReportStatus Idle ''Index loaded'' (word_of_nat (Count (lr_pool loaded)))
                             roots ageSeconds],
             ir_saved = None\<rparr>
         else
           let (s, filesFound, reports) =
                 deliver (\<lambda>e (s, n, rs). (StageEntry s e, n + 1, rs))
                   (\<lambda>found dir (s, n, rs). (s, n, rs @ [ReportStatus Scanning dir found roots 0]))
                   (scanner options)
                   (BeginWrite s, 0 :: u64, [ReportStatus Scanning ''Scanning...'' 0 roots 0])
           in if cancelled then
                Some \<lparr>ir_completed = False, ir_store = AbortWrite s, ir_reports = reports,
                      ir_saved = None\<rparr>
              else do {
                let s = SetBuildTimestamp (EndWrite s) nowNs;
                bytes \<leftarrow> SaveIndex (Some nowNs) s;
                Some \<lparr>ir_completed = True, ir_store = s,
                      ir_reports = reports @ [ReportStatus Idle ''Indexing complete'' filesFound roots 0],
                      ir_saved = Some bytes\<rparr> })"

definition IndexPaths ::
  "string list \<Rightarrow> string list \<Rightarrow> Scanner \<Rightarrow> bool \<Rightarrow> IndexStore \<Rightarrow> bool \<times> IndexStore \<times> IndexerStatus list"
where
  "IndexPaths paths excludedPaths scanner cancelled s =
     (let options = \<lparr>so_rootPaths = paths, so_excludedPaths = excludedPaths\<rparr>;
          (s, reports) =
            deliver (\<lambda>e (s, rs). (ApplyAdd s e, rs))
              (\<lambda>found dir (s, rs). (s, rs @ [ReportStatus Scanning dir found paths 0]))
              (scanner options) (s, [])
      in (\<not> cancelled, s, reports))"

fun RemovePaths :: "string list \<Rightarrow> IndexStore \<Rightarrow> IndexStore option" where
  "RemovePaths [] s = Some s"
| "RemovePaths (path # paths) s = do { t \<leftarrow> RemoveEntriesUnderPath s path; RemovePaths paths t }"

definition PersistIndex :: "u64 \<Rightarrow> IndexStore \<Rightarrow> (IndexStore \<times> string) option" where
  "PersistIndex nowNs s = do {
     let t = SetBuildTimestamp s nowNs;
     bytes \<leftarrow> SaveIndex (Some nowNs) t;
     Some (t, bytes) }"

definition PersistLiveChanges :: "IndexStore \<Rightarrow> string option" where
  "PersistLiveChanges s = SaveIndex None s"

section \<open>Live changes\<close>

text \<open>The re-scan keeps the last entry it is told of. The Boolean is \<open>NotifyMutation\<close>.\<close>

definition Rescan :: "Scanner \<Rightarrow> string \<Rightarrow> FileEntry option" where
  "Rescan scanner path =
     deliver (\<lambda>e r. Some e) (\<lambda>n dir r. r)
       (scanner \<lparr>so_rootPaths = [path], so_excludedPaths = []\<rparr>) None"

definition ApplyChangeEvent ::
  "Scanner \<Rightarrow> FileChangeEvent \<Rightarrow> IndexStore \<Rightarrow> (IndexStore \<times> bool) option" where
  "ApplyChangeEvent scanner event s =
     (case fc_type event of
        Removed \<Rightarrow> do { t \<leftarrow> ApplyRemove s (fc_path event); Some (t, True) }
      | Renamed \<Rightarrow> do { t \<leftarrow> ApplyRename s (fc_oldPath event) (fc_path event); Some (t, True) }
      | _ \<Rightarrow> do {
          s \<leftarrow> (if fc_type event = Modified then ApplyRemove s (fc_path event) else Some s);
          let found = Rescan scanner (fc_path event);
          let s = (case found of None \<Rightarrow> s | Some entry \<Rightarrow> ApplyAdd s entry);
          Some (s, found \<noteq> None \<or> fc_type event = Modified) })"

text \<open>
  The monitors that are started, each with its root, after the status report: \<open>factory\<close> may have none
  for a root. Each runs on a thread of its own and applies its events one by one.
\<close>

fun start_monitors :: "(string \<Rightarrow> 'm option) \<Rightarrow> string list \<Rightarrow> (string \<times> 'm) list" where
  "start_monitors factory [] = []"
| "start_monitors factory (root # roots) =
     (case factory root of
        None \<Rightarrow> start_monitors factory roots
      | Some monitor \<Rightarrow> (root, monitor) # start_monitors factory roots)"

definition StartLiveMonitoring ::
  "(string \<Rightarrow> 'm option) \<Rightarrow> string list \<Rightarrow> IndexerStatus \<times> (string \<times> 'm) list" where
  "StartLiveMonitoring factory roots =
     (ReportStatus WatchingForChanges ''Watching for changes'' 0 roots 0, start_monitors factory roots)"

section \<open>A scan fills a pool with its entries\<close>

text \<open>What the narrow fields of a pool can hold of a list of entries, in total.\<close>

definition build_fits :: "FileEntry list \<Rightarrow> bool" where
  "build_fits es \<longleftrightarrow>
     (\<forall>e \<in> set es. suffix (fe_name e) (fe_path e) \<and>
        length (fe_path e) - length (fe_name e) < 2 ^ 16 \<and> length (fe_path e) < 2 ^ 32 \<and>
        length (TokenizeToSpans (fe_name e)) < 2 ^ 16) \<and>
     length es < 2 ^ 64 \<and> sum_list (map (\<lambda>e. length (fe_path e)) es) < 2 ^ 64 \<and>
     sum_list (map (\<lambda>e. length (TokenizeToSpans (fe_name e))) es) < 2 ^ 32"

definition pool_of :: "FileEntry list \<Rightarrow> IndexPool \<Rightarrow> IndexPool" where
  "pool_of es p = fold (\<lambda>e p. AddEntry p e) es p"

lemma AddEntry_sizes:
  "length (ip_pathPool (AddEntry p e)) = length (ip_pathPool p) + length (fe_path e)"
  "length (ip_nameLowerPool (AddEntry p e)) = length (ip_nameLowerPool p) + length (fe_name e)"
  "length (ip_nameTokenSpans (AddEntry p e)) =
     length (ip_nameTokenSpans p) + length (TokenizeToSpans (fe_name e))"
  by (simp_all add: AddEntry_def Let_def)

lemma pool_of_inv:
  assumes "pool_inv p" "\<forall>e \<in> set es. suffix (fe_name e) (fe_path e) \<and>
        length (fe_path e) - length (fe_name e) < 2 ^ 16 \<and> length (fe_path e) < 2 ^ 32 \<and>
        length (TokenizeToSpans (fe_name e)) < 2 ^ 16"
    and "length (ip_pathPool p) + sum_list (map (\<lambda>e. length (fe_path e)) es) < 2 ^ 64"
    and "length (ip_nameLowerPool p) \<le> length (ip_pathPool p)"
    and "length (ip_nameTokenSpans p) +
           sum_list (map (\<lambda>e. length (TokenizeToSpans (fe_name e))) es) < 2 ^ 32"
  shows "pool_inv (pool_of es p) \<and> pool_abs (pool_of es p) = pool_abs p @ map (\<lambda>e. (e, False)) es"
  using assms
proof (induction es arbitrary: p)
  case Nil
  then show ?case by (simp add: pool_of_def)
next
  case (Cons e es)
  have fits: "entry_fits p e"
    using Cons.prems by (simp add: entry_fits_def)
  have "length (fe_name e) \<le> length (fe_path e)"
    using Cons.prems(2) by (auto dest: suffix_length_le)
  then have "pool_inv (pool_of es (AddEntry p e)) \<and>
      pool_abs (pool_of es (AddEntry p e)) = pool_abs (AddEntry p e) @ map (\<lambda>e. (e, False)) es"
    using Cons.prems AddEntry_inv [OF Cons.prems(1) fits]
    by (intro Cons.IH) (simp_all add: AddEntry_sizes)
  then show ?case
    using AddEntry_abs [OF Cons.prems(1) fits] by (simp add: pool_of_def)
qed

lemma pool_of_empty:
  assumes "build_fits es"
  shows "pool_inv (pool_of es empty_pool)" "live_entries (pool_of es empty_pool) = es"
    "image_fits (live_entries (pool_of es empty_pool))"
proof -
  have p: "pool_inv (pool_of es empty_pool)"
    "pool_abs (pool_of es empty_pool) = map (\<lambda>e. (e, False)) es"
    using pool_of_inv [of empty_pool es] assms
    by (simp_all add: build_fits_def) (simp_all add: empty_pool_def)
  then show "pool_inv (pool_of es empty_pool)" by simp
  have "live_of (map (\<lambda>e. (e, False)) es) = es"
    by (induction es) simp_all
  then show "live_entries (pool_of es empty_pool) = es"
    by (simp add: live_entries_abs p(2))
  then show "image_fits (live_entries (pool_of es empty_pool))"
    using assms by (simp add: build_fits_def image_fits_def)
qed

lemma deliver_build:
  "deliver (\<lambda>e (s, n, rs). (StageEntry s e, n + 1, rs))
     (\<lambda>found dir (s, n, rs). (s, n, rs @ [ReportStatus Scanning dir found roots 0])) calls (s, n :: u64, rs) =
   (s\<lparr>is_stagingPool := pool_of (scan_entries calls) (is_stagingPool s)\<rparr>,
    n + of_nat (length (scan_entries calls)),
    rs @ concat (map (\<lambda>c. case c of OnEntry _ \<Rightarrow> []
                      | OnProgress found dir \<Rightarrow> [ReportStatus Scanning dir found roots 0]) calls))"
proof (induction calls arbitrary: s n rs)
  case Nil
  then show ?case by (simp add: scan_entries_def pool_of_def)
next
  case (Cons c calls)
  then show ?case
    by (cases c) (simp_all add: scan_entries_def pool_of_def StageEntry_def)
qed

lemma store_live_simps:
  "store_live (SetBuildTimestamp s ts) = store_live s" "store_live (LoadPool s p b m) = live_entries p"
  "is_pool (SetBuildTimestamp s ts) = is_pool s"
  by (simp_all add: store_live_def SetBuildTimestamp_def LoadPool_def)

section \<open>Full builds and loads\<close>

lemma StartIndexing_scan:
  assumes "force \<or> \<not> lr_success loaded \<or>
      staleThresholdSeconds < age_seconds nowNs (lr_buildTimestampNs loaded)"
    and "build_fits (scan_entries (scanner options))"
  shows "\<exists>r bytes q. StartIndexing force options nowNs staleThresholdSeconds loaded scanner False s = Some r \<and>
    ir_completed r \<and> pool_inv (is_pool (ir_store r)) \<and>
    store_live (ir_store r) = scan_entries (scanner options) \<and>
    is_buildTimestampNs (ir_store r) = nowNs \<and> is_stagingPool (ir_store r) = empty_pool \<and>
    ir_saved r = Some bytes \<and>
    Load (Some bytes) = Some \<lparr>lr_success = True, lr_pool = q, lr_buildTimestampNs = nowNs,
      lr_lastMonitorStopNs = is_lastMonitorStopNs s\<rparr> \<and>
    pool_inv q \<and> live_entries q = scan_entries (scanner options)"
proof -
  let ?es = "scan_entries (scanner options)"
  let ?p = "pool_of ?es empty_pool"
  note pool = pool_of_empty [OF assms(2)]
  from Load_Serialize_image [OF pool_inv_safe [OF pool(1)] pool(3), of nowNs "is_lastMonitorStopNs s"]
  obtain bytes q where img: "Serialize ?p nowNs (is_lastMonitorStopNs s) = Some bytes"
    "Load (Some bytes) = Some \<lparr>lr_success = True, lr_pool = q, lr_buildTimestampNs = nowNs,
      lr_lastMonitorStopNs = is_lastMonitorStopNs s\<rparr>"
    "pool_inv q" "pool_abs q = map (\<lambda>e. (e, False)) (live_entries ?p)"
    by blast
  have "live_of (map (\<lambda>e. (e, False)) es) = es" for es
    by (induction es) simp_all
  then have "live_entries q = ?es"
    using img(4) pool(2) by (simp add: live_entries_abs)
  moreover have "\<not> (\<not> force \<and> lr_success loaded \<and>
      age_seconds nowNs (lr_buildTimestampNs loaded) \<le> staleThresholdSeconds)"
    using assms(1) by (auto simp: not_le)
  ultimately show ?thesis
    using img(1-3) pool
    unfolding StartIndexing_def Let_def deliver_build
    by (simp add: SaveIndex_def EndWrite_def SetBuildTimestamp_def BeginWrite_def store_live_def)
qed

lemma StartIndexing_load:
  assumes "lr_success loaded" "age_seconds nowNs (lr_buildTimestampNs loaded) \<le> staleThresholdSeconds"
  shows "\<exists>r. StartIndexing False options nowNs staleThresholdSeconds loaded scanner cancelled s = Some r \<and>
    ir_completed r \<and> is_pool (ir_store r) = lr_pool loaded \<and>
    is_buildTimestampNs (ir_store r) = lr_buildTimestampNs loaded \<and>
    is_lastMonitorStopNs (ir_store r) = lr_lastMonitorStopNs loaded \<and> ir_saved r = None"
  using assms by (simp add: StartIndexing_def Let_def LoadPool_def)

lemma StartIndexing_cancelled:
  assumes "force \<or> \<not> lr_success loaded \<or>
      staleThresholdSeconds < age_seconds nowNs (lr_buildTimestampNs loaded)"
  shows "\<exists>r. StartIndexing force options nowNs staleThresholdSeconds loaded scanner True s = Some r \<and>
    \<not> ir_completed r \<and> ir_saved r = None \<and> ir_store r = s\<lparr>is_stagingPool := empty_pool\<rparr>"
proof -
  have "\<not> (\<not> force \<and> lr_success loaded \<and>
      age_seconds nowNs (lr_buildTimestampNs loaded) \<le> staleThresholdSeconds)"
    using assms by (auto simp: not_le)
  then show ?thesis
    unfolding StartIndexing_def Let_def deliver_build
    by (simp add: AbortWrite_def BeginWrite_def)
qed

section \<open>Incremental changes\<close>

definition grow_fits :: "IndexPool \<Rightarrow> FileEntry list \<Rightarrow> bool" where
  "grow_fits p es \<longleftrightarrow> build_fits es \<and>
     length (ip_nameLowerPool p) \<le> length (ip_pathPool p) \<and>
     length (ip_pathPool p) + sum_list (map (\<lambda>e. length (fe_path e)) es) < 2 ^ 64 \<and>
     length (ip_nameTokenSpans p) +
       sum_list (map (\<lambda>e. length (TokenizeToSpans (fe_name e))) es) < 2 ^ 32"

lemma deliver_add:
  "deliver (\<lambda>e (s, rs). (ApplyAdd s e, rs)) (\<lambda>found dir (s, rs). (s, rs @ [f found dir])) calls (s, rs) =
   (s\<lparr>is_pool := pool_of (scan_entries calls) (is_pool s)\<rparr>,
    rs @ concat (map (\<lambda>c. case c of OnEntry _ \<Rightarrow> [] | OnProgress found dir \<Rightarrow> [f found dir]) calls))"
proof (induction calls arbitrary: s rs)
  case Nil
  then show ?case by (simp add: scan_entries_def pool_of_def)
next
  case (Cons c calls)
  then show ?case
    by (cases c) (simp_all add: scan_entries_def pool_of_def ApplyAdd_def)
qed

lemma live_of_fresh [simp]: "live_of (map (\<lambda>e. (e, False)) es) = es"
  by (induction es) simp_all

lemma IndexPaths_live:
  assumes "store_inv s"
    and "grow_fits (is_pool s) (scan_entries (scanner \<lparr>so_rootPaths = paths, so_excludedPaths = excl\<rparr>))"
  shows "\<exists>t rs. IndexPaths paths excl scanner cancelled s = (\<not> cancelled, t, rs) \<and> store_inv t \<and>
    store_live t = store_live s @
      scan_entries (scanner \<lparr>so_rootPaths = paths, so_excludedPaths = excl\<rparr>)"
proof -
  let ?es = "scan_entries (scanner \<lparr>so_rootPaths = paths, so_excludedPaths = excl\<rparr>)"
  have "pool_inv (pool_of ?es (is_pool s))"
    "pool_abs (pool_of ?es (is_pool s)) = pool_abs (is_pool s) @ map (\<lambda>e. (e, False)) ?es"
    using pool_of_inv [of "is_pool s" ?es] assms
    by (simp_all add: grow_fits_def build_fits_def store_inv_def)
  with assms(1) show ?thesis
    by (simp add: IndexPaths_def Let_def deliver_add store_inv_def store_live_def live_entries_abs)
qed

lemma RemovePaths_live:
  "store_inv s \<Longrightarrow>
   \<exists>t. RemovePaths paths s = Some t \<and> store_inv t \<and>
       store_live t = filter (\<lambda>e. \<forall>p \<in> set paths. \<not> IsUnderPath (fe_path e) p) (store_live s)"
proof (induction paths arbitrary: s)
  case Nil
  then show ?case by simp
next
  case (Cons p paths)
  obtain t where "RemoveEntriesUnderPath s p = Some t" "store_inv t"
    "store_live t = filter (\<lambda>e. \<not> IsUnderPath (fe_path e) p) (store_live s)"
    using store.remove_under_total [OF Cons.prems, of p] by blast
  with Cons.IH [of t] show ?case by (auto simp: conj_commute)
qed

lemma Rescan_last:
  "Rescan scanner path =
     (let es = scan_entries (scanner \<lparr>so_rootPaths = [path], so_excludedPaths = []\<rparr>)
      in if es = [] then None else Some (last es))"
proof -
  have "deliver (\<lambda>e r. Some e) (\<lambda>n dir r. r) calls r =
        (if scan_entries calls = [] then r else Some (last (scan_entries calls)))" for calls r
  proof (induction calls arbitrary: r)
    case (Cons c calls)
    then show ?case by (cases c) (simp_all add: scan_entries_def)
  qed (simp add: scan_entries_def)
  then show ?thesis by (simp add: Rescan_def Let_def)
qed

lemma ApplyRemove_fits: "ApplyRemove s p = Some t \<Longrightarrow> store_fits t e = store_fits s e"
  by (auto simp: ApplyRemove_def store_fits_def entry_fits_def bind_eq_Some_conv
      split: option.splits dest!: MarkDeleted_shape)

text \<open>What one event does to a duplicate-free index.\<close>

definition paths_after :: "FileChangeEvent \<Rightarrow> FileEntry option \<Rightarrow> string set \<Rightarrow> string set" where
  "paths_after ev found ps =
     (case fc_type ev of
        Removed \<Rightarrow> ps - {fc_path ev}
      | Renamed \<Rightarrow> insert (fc_path ev) (ps - {fc_oldPath ev})
      | Added \<Rightarrow> (if found = None then ps else insert (fc_path ev) ps)
      | Modified \<Rightarrow> (if found = None then ps - {fc_path ev} else insert (fc_path ev) ps))"

definition renamed_entry :: "string \<Rightarrow> FileEntry" where
  "renamed_entry new = empty_FileEntry\<lparr>fe_path := new, fe_name := basename new\<rparr>"

text \<open>The monitors' side of the contract: a re-scan reports the path that was asked for, and a
  new name is not one the index already has.\<close>

definition event_ok :: "Scanner \<Rightarrow> FileChangeEvent \<Rightarrow> IndexStore \<Rightarrow> bool" where
  "event_ok scanner ev s \<longleftrightarrow>
     (\<forall>e. fc_type ev \<in> {Added, Modified} \<longrightarrow> Rescan scanner (fc_path ev) = Some e \<longrightarrow>
        fe_path e = fc_path ev \<and> store_fits s e) \<and>
     (fc_type ev = Added \<longrightarrow> fc_path ev \<notin> set (store_paths s)) \<and>
     (fc_type ev = Renamed \<longrightarrow> fc_path ev \<notin> set (store_paths s) - {fc_oldPath ev} \<and>
        store_fits s (renamed_entry (fc_path ev)))"

lemma ApplyChangeEvent_removed:
  assumes "store_inv s" "distinct (store_paths s)" "fc_type ev = Removed"
  shows "\<exists>t. ApplyChangeEvent scanner ev s = Some (t, True) \<and> store_inv t \<and> distinct (store_paths t) \<and>
    set (store_paths t) = set (store_paths s) - {fc_path ev}"
proof -
  obtain t where t: "ApplyRemove s (fc_path ev) = Some t" "store_inv t"
    using store.remove_total [OF assms(1)] by blast
  with store.remove_distinct [OF assms(1) t(1) assms(2)] assms(3) show ?thesis
    by (simp add: ApplyChangeEvent_def)
qed

lemma ApplyChangeEvent_renamed:
  assumes "store_inv s" "distinct (store_paths s)" "fc_type ev = Renamed" "event_ok scanner ev s"
  shows "\<exists>t. ApplyChangeEvent scanner ev s = Some (t, True) \<and> store_inv t \<and> distinct (store_paths t) \<and>
    set (store_paths t) = insert (fc_path ev) (set (store_paths s) - {fc_oldPath ev})"
proof -
  let ?e = "renamed_entry (fc_path ev)"
  have fits: "store_fits s ?e" and new: "fc_path ev \<notin> set (store_paths s) - {fc_oldPath ev}"
    using assms(3,4) by (simp_all add: event_ok_def)
  obtain t where t: "ApplyRename s (fc_oldPath ev) (fc_path ev) = Some t" "store_inv t"
    "store_abs t = spec_remove (fc_oldPath ev) (store_abs s) @ [(?e, False)]"
    using ApplyRename_refines [OF assms(1), of "fc_path ev" "fc_oldPath ev"] fits
    by (auto simp: renamed_entry_def)
  obtain u where u: "ApplyRemove s (fc_oldPath ev) = Some u" "store_live u =
      drop_first (\<lambda>e. fe_path e = fc_oldPath ev) (store_live s)"
    using store.remove_total [OF assms(1)] by blast
  have "store_live t = store_live u @ [?e]"
    using t(3) u(2) by (simp add: store_live_abs live_of_spec_remove)
  then have "store_paths t = store_paths u @ [fc_path ev]"
    by (simp add: store_paths_def renamed_entry_def)
  with t assms(3) new store.remove_distinct [OF assms(1) u(1) assms(2)] show ?thesis
    by (simp add: ApplyChangeEvent_def)
qed

lemma ApplyChangeEvent_added:
  assumes "store_inv s" "distinct (store_paths s)" "fc_type ev = Added" "event_ok scanner ev s"
  shows "\<exists>t. ApplyChangeEvent scanner ev s = Some (t, Rescan scanner (fc_path ev) \<noteq> None) \<and>
    store_inv t \<and> distinct (store_paths t) \<and>
    set (store_paths t) = paths_after ev (Rescan scanner (fc_path ev)) (set (store_paths s))"
proof (cases "Rescan scanner (fc_path ev)")
  case None
  with assms show ?thesis by (simp add: ApplyChangeEvent_def paths_after_def)
next
  case (Some e)
  with assms(3,4) have "fe_path e = fc_path ev" "store_fits s e" "fc_path ev \<notin> set (store_paths s)"
    by (simp_all add: event_ok_def)
  with Some assms(1-3) show ?thesis
    by (simp add: ApplyChangeEvent_def paths_after_def ApplyAdd_refines(1) store.add_paths)
qed

lemma ApplyChangeEvent_modified:
  assumes "store_inv s" "distinct (store_paths s)" "fc_type ev = Modified" "event_ok scanner ev s"
  shows "\<exists>t. ApplyChangeEvent scanner ev s = Some (t, True) \<and>
    store_inv t \<and> distinct (store_paths t) \<and>
    set (store_paths t) = paths_after ev (Rescan scanner (fc_path ev)) (set (store_paths s))"
proof -
  obtain u where u: "ApplyRemove s (fc_path ev) = Some u" "store_inv u"
    using store.remove_total [OF assms(1)] by blast
  note gone = store.remove_distinct [OF assms(1) u(1) assms(2)]
  show ?thesis
  proof (cases "Rescan scanner (fc_path ev)")
    case None
    with u gone assms(3) show ?thesis by (simp add: ApplyChangeEvent_def paths_after_def)
  next
    case (Some e)
    with assms(3,4) have e: "fe_path e = fc_path ev" "store_fits s e"
      by (simp_all add: event_ok_def)
    then have fits: "store_fits u e"
      using ApplyRemove_fits [OF u(1)] by simp
    from u(1) e(1) have "ApplyRemove s (fe_path e) = Some u" by simp
    from store.replace_path [OF assms(1,2) this fits] Some u e assms(3) fits show ?thesis
      by (simp add: ApplyChangeEvent_def paths_after_def ApplyAdd_refines(1))
  qed
qed

lemma ApplyChangeEvent_step:
  assumes "store_inv s" "distinct (store_paths s)" "event_ok scanner ev s"
  shows "\<exists>t. ApplyChangeEvent scanner ev s =
      Some (t, fc_type ev \<noteq> Added \<or> Rescan scanner (fc_path ev) \<noteq> None) \<and>
    store_inv t \<and> distinct (store_paths t) \<and>
    set (store_paths t) = paths_after ev (Rescan scanner (fc_path ev)) (set (store_paths s))"
  using ApplyChangeEvent_removed [OF assms(1,2), of ev scanner]
    ApplyChangeEvent_renamed [OF assms(1,2) _ assms(3)]
    ApplyChangeEvent_added [OF assms(1,2) _ assms(3)]
    ApplyChangeEvent_modified [OF assms(1,2) _ assms(3)]
  by (cases "fc_type ev") (simp_all add: paths_after_def)

lemma ApplyChangeEvent_keeps:
  assumes "store_inv s" "distinct (store_paths s)" "event_ok scanner ev s"
    and "ApplyChangeEvent scanner ev s = Some (t, changed)"
  shows "store_inv t" "distinct (store_paths t)"
  using ApplyChangeEvent_step [OF assms(1-3)] assms(4) by auto

section \<open>Properties\<close>

definition sample_files :: "FileEntry list" where
  "sample_files = [sample_file ''/d/'' ''a b'', sample_file ''/d/'' ''Cat.txt'']"

definition sample_scanner :: Scanner where
  "sample_scanner options = OnProgress 0 ''/d'' # map OnEntry sample_files"

lemma sample_scan: "scan_entries (sample_scanner options) = sample_files"
  by (simp add: sample_scanner_def scan_entries_def sample_files_def)

lemma sample_files_fit: "build_fits sample_files"
  by (simp add: build_fits_def sample_files_def sample_file_def suffix_def TokenizeToSpans_def
      IsSeparator_def)

definition sample_options :: ScanOptions where
  "sample_options = \<lparr>so_rootPaths = [''/d''], so_excludedPaths = []\<rparr>"

text \<open>C13: A finished build survives a restart: the image that a full scan hands to the save hook
  loads, and a later start whose clock is within the staleness threshold takes it instead of
  scanning: its live entries are exactly the files the first scan reported, in order, with
  the first build time, and nothing is written.\<close>

theorem restart_restores:
  assumes "build_fits (scan_entries (scanner options))"
    and "StartIndexing True options built threshold loaded scanner False s = Some r"
    and "ir_saved r = Some bytes" "Load (Some bytes) = Some disk"
    and "age_seconds nowNs built \<le> threshold'"
  shows "store_live (ir_store r) = scan_entries (scanner options) \<and>
    (\<exists>r'. StartIndexing False options' nowNs threshold' disk scanner' cancelled s' = Some r' \<and>
       ir_completed r' \<and> store_live (ir_store r') = scan_entries (scanner options) \<and>
       pool_inv (is_pool (ir_store r')) \<and> is_buildTimestampNs (ir_store r') = built \<and>
       ir_saved r' = None)"
proof -
  from StartIndexing_scan [of True loaded threshold built scanner options s] assms(1-3)
  have live: "store_live (ir_store r) = scan_entries (scanner options)"
    and disk: "\<exists>q. Load (Some bytes) = Some \<lparr>lr_success = True, lr_pool = q, lr_buildTimestampNs = built,
        lr_lastMonitorStopNs = is_lastMonitorStopNs s\<rparr> \<and>
      pool_inv q \<and> live_entries q = scan_entries (scanner options)"
    by auto
  from disk assms(4) obtain q where q: "disk = \<lparr>lr_success = True, lr_pool = q,
      lr_buildTimestampNs = built, lr_lastMonitorStopNs = is_lastMonitorStopNs s\<rparr>"
    "pool_inv q" "live_entries q = scan_entries (scanner options)"
    by auto
  have fresh: "lr_success disk" "age_seconds nowNs (lr_buildTimestampNs disk) \<le> threshold'"
    using assms(5) by (simp_all add: q(1))
  from StartIndexing_load [OF fresh, of options' scanner' cancelled s'] live q show ?thesis
    by (auto simp: store_live_def)
qed

theorem restart_restores_witness:
  "\<exists>r bytes disk r'. StartIndexing True sample_options 1000 0 load_failed sample_scanner False empty_store = Some r \<and>
     ir_saved r = Some bytes \<and> Load (Some bytes) = Some disk \<and>
     StartIndexing False sample_options 5000 60 disk (\<lambda>x. []) False empty_store = Some r' \<and>
     store_live (ir_store r') = sample_files"
proof -
  have fits: "build_fits (scan_entries (sample_scanner sample_options))"
    by (simp add: sample_scan sample_files_fit)
  from StartIndexing_scan [of True load_failed 0 1000 sample_scanner sample_options empty_store] fits
  obtain r bytes disk where r: "StartIndexing True sample_options 1000 0 load_failed sample_scanner
      False empty_store = Some r" "ir_saved r = Some bytes" "Load (Some bytes) = Some disk"
    by blast
  have "age_seconds 5000 1000 \<le> 60" by (simp add: age_seconds_def)
  from restart_restores [OF fits r this, of sample_options "\<lambda>x. []" False empty_store] r show ?thesis
    by (auto simp: sample_scan)
qed

text \<open>A cancelled build is invisible: the live index, its build time and its monitor-stop
  time are what they were, the partial scan is dropped and nothing is saved.\<close>

lemma cancelled_build_keeps_index:
  assumes "force \<or> \<not> lr_success loaded \<or>
      staleThresholdSeconds < age_seconds nowNs (lr_buildTimestampNs loaded)"
  shows "\<exists>r. StartIndexing force options nowNs staleThresholdSeconds loaded scanner True s = Some r \<and>
    \<not> ir_completed r \<and> ir_saved r = None \<and> ir_store r = s\<lparr>is_stagingPool := empty_pool\<rparr>"
  using assms by (rule StartIndexing_cancelled)

lemma cancelled_build_keeps_index_witness:
  "\<exists>r. StartIndexing True sample_options 1000 0 load_failed sample_scanner True sample_store = Some r \<and>
     ir_store r = sample_store\<lparr>is_stagingPool := empty_pool\<rparr>"
  using cancelled_build_keeps_index [of True load_failed 0 1000 sample_options sample_scanner sample_store]
  by auto

text \<open>A root added and removed again leaves the index as it was: incremental indexing
  appends exactly the scanned entries, and removing the same root deletes them all, when the
  scan reports paths under the root and nothing under it was indexed before.\<close>

lemma add_then_remove_root:
  assumes "store_inv s"
    and "grow_fits (is_pool s) (scan_entries (scanner \<lparr>so_rootPaths = [root], so_excludedPaths = excl\<rparr>))"
    and "\<forall>e \<in> set (scan_entries (scanner \<lparr>so_rootPaths = [root], so_excludedPaths = excl\<rparr>)).
           IsUnderPath (fe_path e) root"
    and "\<forall>e \<in> set (store_live s). \<not> IsUnderPath (fe_path e) root"
  shows "\<exists>t u rs. IndexPaths [root] excl scanner False s = (True, t, rs) \<and>
    store_live t = store_live s @ scan_entries (scanner \<lparr>so_rootPaths = [root], so_excludedPaths = excl\<rparr>) \<and>
    RemovePaths [root] t = Some u \<and> store_inv u \<and> store_live u = store_live s"
proof -
  obtain t rs where t: "IndexPaths [root] excl scanner False s = (True, t, rs)" "store_inv t"
    "store_live t = store_live s @ scan_entries (scanner \<lparr>so_rootPaths = [root], so_excludedPaths = excl\<rparr>)"
    using IndexPaths_live [of s scanner "[root]" excl False] assms(1,2) by auto
  obtain u where "RemovePaths [root] t = Some u" "store_inv u"
    "store_live u = filter (\<lambda>e. \<not> IsUnderPath (fe_path e) root) (store_live t)"
    using RemovePaths_live [OF t(2), of "[root]"] by auto
  moreover have "filter (\<lambda>e. \<not> IsUnderPath (fe_path e) root) (store_live t) = store_live s"
    using assms(3,4) by (simp add: t(3))
  ultimately show ?thesis using t by auto
qed

lemma add_then_remove_root_witness:
  "\<exists>t u rs. IndexPaths [''/d''] [] sample_scanner False empty_store = (True, t, rs) \<and>
     store_live t = sample_files \<and> RemovePaths [''/d''] t = Some u \<and> store_live u = []"
proof -
  have live: "store_live empty_store = []"
    by (simp add: store_live_def empty_store_def live_entries_def)
  have "grow_fits (is_pool empty_store) sample_files"
    using sample_files_fit by (simp add: grow_fits_def build_fits_def empty_store_def empty_pool_def)
  moreover have "\<forall>e \<in> set sample_files. IsUnderPath (fe_path e) ''/d''"
    by (simp add: sample_files_def sample_file_def IsUnderPath_def)
  ultimately have "\<exists>t u rs. IndexPaths [''/d''] [] sample_scanner False empty_store = (True, t, rs) \<and>
     store_live t = sample_files \<and> RemovePaths [''/d''] t = Some u \<and> store_inv u \<and> store_live u = []"
    using add_then_remove_root [of empty_store sample_scanner "''/d''" "[]"]
    by (simp only: sample_scan live empty_store_inv append_Nil) simp
  then show ?thesis by blast
qed


definition cat_scanner :: Scanner where
  "cat_scanner options = [OnEntry (sample_file ''/d/'' ''Cat.txt'')]"

lemma cat_rescan: "Rescan cat_scanner path = Some (sample_file ''/d/'' ''Cat.txt'')"
  by (simp add: Rescan_last cat_scanner_def scan_entries_def Let_def)

definition cat_event :: "FileChangeType \<Rightarrow> FileChangeEvent" where
  "cat_event ty = \<lparr>fc_type = ty, fc_path = ''/d/Cat.txt'', fc_oldPath = []\<rparr>"

lemma cat_fits: "store_fits sample_store (sample_file ''/d/'' ''Cat.txt'')"
  by (simp add: store_fits_def sample_store_def ApplyAdd_def empty_store_def entry_fits_def
      sample_file_def empty_pool_def AddEntry_def Let_def
      TokenizeToSpans_def IsSeparator_def CaseFoldAscii_def fold_char_def suffix_def)

lemma sample_store_paths: "store_paths sample_store = [''/d/a b'', ''/d/Cat.txt'']"
  by (simp add: store_paths_def sample_store_live sample_file_def)


section \<open>Where a repeated event leaves the contract\<close>

text \<open>A second \<open>Added\<close> for a path that is indexed appends it again, and one \<open>Removed\<close> then takes
  out only one of the two.\<close>

lemma second_added_duplicates:
  "\<exists>t. ApplyChangeEvent cat_scanner (cat_event Added) sample_store = Some (t, True) \<and>
     store_paths t = [''/d/a b'', ''/d/Cat.txt'', ''/d/Cat.txt'']"
  using cat_fits sample_store_inv
  by (simp add: ApplyChangeEvent_def cat_event_def cat_rescan store.add_paths sample_store_paths)
    (simp add: sample_file_def)

text \<open>Of everything a re-scan reports under a new directory, the last entry alone is added.\<close>

lemma added_directory_keeps_last:
  "\<exists>t. ApplyChangeEvent sample_scanner (cat_event Added\<lparr>fc_path := ''/d''\<rparr>) empty_store = Some (t, True) \<and>
     store_paths t = [''/d/Cat.txt'']"
proof -
  have "Rescan sample_scanner ''/d'' = Some (sample_file ''/d/'' ''Cat.txt'')"
    by (simp add: Rescan_last sample_scan sample_files_def)
  moreover have "store_fits empty_store (sample_file ''/d/'' ''Cat.txt'')"
    by (simp add: store_fits_def empty_store_def entry_fits_def sample_file_def empty_pool_def
        TokenizeToSpans_def IsSeparator_def suffix_def)
  moreover have "store_paths empty_store = []"
    by (simp add: store_paths_def store_live_def empty_store_def live_entries_def)
  ultimately show ?thesis
    by (simp add: ApplyChangeEvent_def cat_event_def store.add_paths) (simp add: sample_file_def)
qed

end
