(* ===== verification/Index_Service.thy ===== *)
theory Index_Service
  imports Indexer_Core Roots_Diff
begin

text \<open>
  The index service (\<open>indexer/IndexService.{h,cpp}\<close>, \<open>docs/adr/0014\<close>): a client thread that
  enqueues requests, one worker that runs them in order, a file-operations thread and the
  live-monitoring thread, over one store. Each critical section and each store operation is
  an atomic step, so a run is an interleaving of steps. A cancel flag is a token; the scanner,
  the clock, what loading the file gives and which file operations succeed are chosen by the
  environment. Callbacks are recorded in order. Two approximations: the end of a command
  (saving removals, reporting, starting the monitors) is one step; and live events are those
  within the monitors' contract (\<open>event_ok\<close>), handled in one step.
\<close>

section \<open>State\<close>

datatype ChangeKind = Built | SettingsApplied | Reloaded | PathsRemoved

record IndexChange =
  ic_kind :: ChangeKind
  ic_entryCount :: u64
  ic_indexAgeSeconds :: u64

datatype FileOpType = MoveToTrash | DeletePermanently

record FileOperation =
  fo_type :: FileOpType
  fo_path :: string

record FileOperationReport =
  fr_succeeded :: "string list"
  fr_failed :: "(string \<times> string) list"

datatype Command =
    CmdIndexing bool ScanOptions u64 bool nat
  | CmdSettings "string list" ScanOptions u64 bool nat
  | CmdReload
  | CmdStopMonitoring
  | CmdFlush

datatype FileJob = JobOperations "FileOperation list" | JobFlush

text \<open>
  Where the client is: outside a request; before the second critical section of one; in
  \<open>Flush\<close>, waiting for the worker, before queueing the second mark, and waiting for the
  file-operations thread.
\<close>

datatype Client = CIdle | CEnqueue Command | CFlushWorker | CFlushJobs | CFlushFileOps

datatype ScanMode = FullScan | AddPaths

text \<open>
  Where the worker is: waiting; with a command it popped; with one it has begun; inside its
  scan; past the check for cancellation, before the swap; removing roots; before the time stamp;
  before the save; after it, before \<open>FinishScan\<close>; re-applying removals; before \<open>EndBusy\<close>;
  reading a file to reload.
\<close>

datatype Worker =
    WWait
  | WPopped Command
  | WStarted Command
  | WScan Command ScanMode
  | WSwap Command
  | WPurge Command "string list"
  | WStamp Command
  | WSave Command u64
  | WScanned Command bool
  | WRemoving Command bool bool "string list"
  | WEndBusy
  | WReload

datatype FilePc =
    FWait
  | FOps "FileOperation list" FileOperationReport
  | FRan string "FileOperation list" FileOperationReport
  | FRecorded string "FileOperation list" FileOperationReport

datatype Event =
    EvBusy bool
  | EvIndexChanged IndexChange
  | EvFileOps FileOperationReport
  | EvSave "string option"
  | EvLiveChange

record Service =
  sv_store :: IndexStore
  sv_commands :: "Command list"
  sv_scanCancels :: "nat list"
  sv_cancelled :: "nat set"
  sv_nextToken :: nat
  sv_reloadQueued :: bool
  sv_shuttingDown :: bool
  sv_pendingBusy :: int
  sv_busyReported :: bool
  sv_removedDuringScan :: "string list"
  sv_scanRunning :: bool
  sv_needsFullRebuild :: bool
  sv_fileOpJobs :: "FileJob list"
  sv_fileOpsStopping :: bool
  sv_monitoring :: "string list option"
  sv_client :: Client
  sv_worker :: Worker
  sv_filePc :: FilePc
  sv_workerDone :: bool
  sv_fileOpsDone :: bool
  sv_events :: "Event list"

definition initial_service :: "IndexStore \<Rightarrow> Service" where
  "initial_service s =
     \<lparr>sv_store = s, sv_commands = [], sv_scanCancels = [], sv_cancelled = {}, sv_nextToken = 0,
      sv_reloadQueued = False, sv_shuttingDown = False, sv_pendingBusy = 0,
      sv_busyReported = False, sv_removedDuringScan = [], sv_scanRunning = False,
      sv_needsFullRebuild = False, sv_fileOpJobs = [], sv_fileOpsStopping = False,
      sv_monitoring = None, sv_client = CIdle, sv_worker = WWait, sv_filePc = FWait,
      sv_workerDone = False, sv_fileOpsDone = False, sv_events = []\<rparr>"

section \<open>Requests\<close>

definition emit :: "Event \<Rightarrow> Service \<Rightarrow> Service" where
  "emit ev sv = sv\<lparr>sv_events := sv_events sv @ [ev]\<rparr>"

text \<open>The locked part of a rebuild or settings request: earlier scans are cancelled.\<close>

definition register_scan :: "Service \<Rightarrow> Service" where
  "register_scan sv =
     sv\<lparr>sv_cancelled := sv_cancelled sv \<union> set (sv_scanCancels sv),
        sv_scanCancels := [sv_nextToken sv],
        sv_nextToken := sv_nextToken sv + 1,
        sv_pendingBusy := sv_pendingBusy sv + 1\<rparr>"

definition RequestIndexing :: "bool \<Rightarrow> ScanOptions \<Rightarrow> u64 \<Rightarrow> bool \<Rightarrow> Service \<Rightarrow> Service" where
  "RequestIndexing force options stale monitorAfter sv =
     (if sv_shuttingDown sv then sv
      else (register_scan sv)\<lparr>sv_client :=
             CEnqueue (CmdIndexing force options stale monitorAfter (sv_nextToken sv))\<rparr>)"

definition RequestSettingsChange ::
  "string list \<Rightarrow> ScanOptions \<Rightarrow> u64 \<Rightarrow> bool \<Rightarrow> Service \<Rightarrow> Service" where
  "RequestSettingsChange oldRoots newOptions stale monitorAfter sv =
     (if sv_shuttingDown sv then sv
      else (register_scan sv)\<lparr>sv_client :=
             CEnqueue (CmdSettings oldRoots newOptions stale monitorAfter (sv_nextToken sv))\<rparr>)"

definition RequestReload :: "Service \<Rightarrow> Service" where
  "RequestReload sv =
     (if sv_reloadQueued sv \<or> sv_shuttingDown sv then sv
      else sv\<lparr>sv_reloadQueued := True, sv_client := CEnqueue CmdReload\<rparr>)"

definition CancelScans :: "Service \<Rightarrow> Service" where
  "CancelScans sv =
     sv\<lparr>sv_cancelled := sv_cancelled sv \<union> set (sv_scanCancels sv), sv_scanCancels := []\<rparr>"

definition RequestStopLocalIndexing :: "Service \<Rightarrow> Service" where
  "RequestStopLocalIndexing sv = (CancelScans sv)\<lparr>sv_client := CEnqueue CmdStopMonitoring\<rparr>"

text \<open>The second critical section of a request.\<close>

definition Enqueue :: "Command \<Rightarrow> Service \<Rightarrow> Service" where
  "Enqueue c sv =
     (if sv_shuttingDown sv then sv\<lparr>sv_client := CIdle\<rparr>
      else sv\<lparr>sv_commands := sv_commands sv @ [c], sv_client := CIdle\<rparr>)"

definition RequestFileOperations :: "FileOperation list \<Rightarrow> Service \<Rightarrow> Service" where
  "RequestFileOperations ops sv =
     (if sv_fileOpsStopping sv then sv else sv\<lparr>sv_fileOpJobs := sv_fileOpJobs sv @ [JobOperations ops]\<rparr>)"

text \<open>
  \<open>Flush\<close> puts a mark behind what is queued and waits until the thread comes to it, first for
  the worker and then for the file-operations thread; where a mark is refused it does not wait.
\<close>

definition Flush_begin :: "Service \<Rightarrow> Service" where
  "Flush_begin sv =
     (if sv_shuttingDown sv then sv\<lparr>sv_client := CFlushJobs\<rparr>
      else (Enqueue CmdFlush sv)\<lparr>sv_workerDone := False, sv_client := CFlushWorker\<rparr>)"

definition Flush_file_ops :: "Service \<Rightarrow> Service" where
  "Flush_file_ops sv =
     (if sv_fileOpsStopping sv then sv\<lparr>sv_client := CIdle\<rparr>
      else sv\<lparr>sv_fileOpJobs := sv_fileOpJobs sv @ [JobFlush], sv_fileOpsDone := False,
              sv_client := CFlushFileOps\<rparr>)"

text \<open>\<open>Shutdown\<close>: its first critical section, and the one after the worker has been joined.\<close>

definition Shutdown_begin :: "Service \<Rightarrow> Service" where
  "Shutdown_begin sv =
     sv\<lparr>sv_shuttingDown := True, sv_cancelled := sv_cancelled sv \<union> set (sv_scanCancels sv),
        sv_scanCancels := [], sv_commands := []\<rparr>"

definition Shutdown_end :: "Service \<Rightarrow> Service" where
  "Shutdown_end sv = sv\<lparr>sv_monitoring := None, sv_fileOpsStopping := True\<rparr>"

section \<open>Parts of the worker's commands\<close>

definition StopMonitoring :: "Service \<Rightarrow> Service" where
  "StopMonitoring sv = sv\<lparr>sv_monitoring := None\<rparr>"

definition StartMonitoring :: "bool \<Rightarrow> string list \<Rightarrow> Service \<Rightarrow> Service" where
  "StartMonitoring hasMonitorFactory roots sv =
     (if \<not> hasMonitorFactory then sv else (StopMonitoring sv)\<lparr>sv_monitoring := Some roots\<rparr>)"

definition BeginBusy :: "Service \<Rightarrow> Service" where
  "BeginBusy sv =
     (if \<not> sv_busyReported sv then emit (EvBusy True) (sv\<lparr>sv_busyReported := True\<rparr>) else sv)"

definition EndBusy :: "Service \<Rightarrow> Service" where
  "EndBusy sv =
     (let sv = sv\<lparr>sv_pendingBusy := sv_pendingBusy sv - 1\<rparr>
      in if sv_pendingBusy sv = 0 \<and> sv_busyReported sv
         then emit (EvBusy False) (sv\<lparr>sv_busyReported := False\<rparr>) else sv)"

definition live_count :: "IndexPool \<Rightarrow> u64" where
  "live_count p = foldl (\<lambda>n m. if em_deleted m = 0 then n + 1 else n) 0 (ip_meta p)"

definition ReportIndexChanged :: "u64 \<Rightarrow> ChangeKind \<Rightarrow> Service \<Rightarrow> Service" where
  "ReportIndexChanged nowNs kind sv =
     emit (EvIndexChanged \<lparr>ic_kind = kind, ic_entryCount = live_count (is_pool (sv_store sv)),
       ic_indexAgeSeconds = GetIndexAgeSeconds (sv_store sv) nowNs\<rparr>) sv"

text \<open>Which status reports reach the window: every one that is not of a running scan, and of
  those at most one per 100 ms of the steady clock (in milliseconds).\<close>

definition kScanStatusInterval :: int where
  "kScanStatusInterval = 100"

definition IndexService_ReportStatus ::
  "bool \<Rightarrow> int \<Rightarrow> IndexerStatus \<Rightarrow> int \<Rightarrow> IndexerStatus list \<times> int"
where
  "IndexService_ReportStatus hasCallback now status lastScanStatus =
     (if \<not> hasCallback then ([], lastScanStatus)
      else if ix_state status = Scanning then
        (if now - lastScanStatus < kScanStatusInterval then ([], lastScanStatus) else ([status], now))
      else ([status], lastScanStatus))"

text \<open>What both scan commands do before their scan.\<close>

definition begin_scan :: "Service \<Rightarrow> Service" where
  "begin_scan sv = (StopMonitoring (BeginBusy sv))\<lparr>sv_scanRunning := True\<rparr>"

fun token_of :: "Command \<Rightarrow> nat option" where
  "token_of (CmdIndexing _ _ _ _ t) = Some t"
| "token_of (CmdSettings _ _ _ _ t) = Some t"
| "token_of CmdReload = None"
| "token_of CmdStopMonitoring = None"
| "token_of CmdFlush = None"

definition is_cancelled :: "Service \<Rightarrow> Command \<Rightarrow> bool" where
  "is_cancelled sv c \<longleftrightarrow> (case token_of c of None \<Rightarrow> False | Some t \<Rightarrow> t \<in> sv_cancelled sv)"

fun options_of :: "Command \<Rightarrow> ScanOptions" where
  "options_of (CmdIndexing _ o' _ _ _) = o'"
| "options_of (CmdSettings _ o' _ _ _) = o'"
| "options_of _ = \<lparr>so_rootPaths = [], so_excludedPaths = []\<rparr>"

fun monitor_after :: "Command \<Rightarrow> bool" where
  "monitor_after (CmdIndexing _ _ _ m _) = m"
| "monitor_after (CmdSettings _ _ _ m _) = m"
| "monitor_after _ = False"

fun kind_of :: "Command \<Rightarrow> ChangeKind" where
  "kind_of (CmdIndexing _ _ _ _ _) = Built"
| "kind_of (CmdSettings _ _ _ _ _) = SettingsApplied"
| "kind_of _ = Reloaded"

text \<open>How a settings change is carried out.\<close>

datatype SettingsPlan = PlanRebuild | PlanAdd "string list" | PlanRemove "string list" | PlanNothing

definition settings_plan :: "bool \<Rightarrow> string list \<Rightarrow> ScanOptions \<Rightarrow> SettingsPlan" where
  "settings_plan needsFullRebuild oldRoots newOptions =
     (let diff = DiffRoots oldRoots (so_rootPaths newOptions)
      in if bothChanged diff \<or> needsFullRebuild then PlanRebuild
         else if rd_added diff \<noteq> [] then PlanAdd (rd_added diff)
         else if rd_removed diff \<noteq> [] then PlanRemove (rd_removed diff)
         else PlanNothing)"

text \<open>The end of the commands, after \<open>FinishScan\<close>: \<open>any\<close> says that it removed something.\<close>

definition after_finish :: "bool \<Rightarrow> u64 \<Rightarrow> Command \<Rightarrow> bool \<Rightarrow> bool \<Rightarrow> Service \<Rightarrow> Service" where
  "after_finish hasMonitorFactory nowNs c completed any sv =
     (let sv = (if any \<and> completed then emit (EvSave (PersistLiveChanges (sv_store sv))) sv else sv);
          sv = sv\<lparr>sv_needsFullRebuild := \<not> completed, sv_worker := WEndBusy\<rparr>
      in if completed then
           let sv = ReportIndexChanged nowNs (kind_of c) sv
           in if monitor_after c
              then StartMonitoring hasMonitorFactory (so_rootPaths (options_of c)) sv else sv
         else sv)"

section \<open>Steps\<close>

text \<open>What the environment sees of a step.\<close>

datatype Label =
    Tau
  | ScanStart
  | ScanEntry FileEntry
  | LoadedPaths "string set"
  | FileOpRan string
  | MonitorPaths "string set"

definition fresh_load :: "LoadResult \<Rightarrow> u64 \<Rightarrow> u64 \<Rightarrow> bool" where
  "fresh_load loaded nowNs stale \<longleftrightarrow>
     lr_success loaded \<and> age_seconds nowNs (lr_buildTimestampNs loaded) \<le> stale"

definition load_into :: "LoadResult \<Rightarrow> IndexStore \<Rightarrow> IndexStore" where
  "load_into loaded s =
     LoadPool s (lr_pool loaded) (lr_buildTimestampNs loaded) (lr_lastMonitorStopNs loaded)"

definition pool_paths :: "IndexPool \<Rightarrow> string list" where
  "pool_paths p = map fe_path (live_entries p)"

text \<open>The plan of a command that begins with a scan or an update, given the file it would load.\<close>

fun plan_of :: "bool \<Rightarrow> LoadResult \<Rightarrow> u64 \<Rightarrow> Command \<Rightarrow> SettingsPlan option" where
  "plan_of needsFull loaded nowNs (CmdIndexing force opts stale m t) =
     (if \<not> force \<and> fresh_load loaded nowNs stale then None else Some PlanRebuild)"
| "plan_of needsFull loaded nowNs (CmdSettings oldRoots opts stale m t) =
     Some (settings_plan needsFull oldRoots opts)"
| "plan_of needsFull loaded nowNs _ = None"

text \<open>The worker and the client.\<close>

inductive worker_step :: "bool \<Rightarrow> Service \<Rightarrow> Label \<Rightarrow> Service \<Rightarrow> bool" for mon where
  pop: "sv_worker sv = WWait \<Longrightarrow> \<not> sv_shuttingDown sv \<Longrightarrow> sv_commands sv = c # cs \<Longrightarrow>
    worker_step mon sv Tau (sv\<lparr>sv_commands := cs, sv_worker := WPopped c\<rparr>)"
| superseded: "sv_worker sv = WPopped c \<Longrightarrow> token_of c \<noteq> None \<Longrightarrow> is_cancelled sv c \<Longrightarrow>
    worker_step mon sv Tau (sv\<lparr>sv_needsFullRebuild := True, sv_worker := WEndBusy\<rparr>)"
| start: "sv_worker sv = WPopped c \<Longrightarrow> token_of c \<noteq> None \<Longrightarrow> \<not> is_cancelled sv c \<Longrightarrow>
    worker_step mon sv ScanStart ((begin_scan sv)\<lparr>sv_worker := WStarted c\<rparr>)"
| load: "sv_worker sv = WStarted (CmdIndexing False opts stale m t) \<Longrightarrow> fresh_load loaded nowNs stale \<Longrightarrow>
    pool_inv (lr_pool loaded) \<Longrightarrow> distinct (pool_paths (lr_pool loaded)) \<Longrightarrow>
    worker_step mon sv (LoadedPaths (set (pool_paths (lr_pool loaded))))
      (sv\<lparr>sv_store := load_into loaded (sv_store sv),
          sv_worker := WScanned (CmdIndexing False opts stale m t) True\<rparr>)"
| rebuild: "sv_worker sv = WStarted c \<Longrightarrow>
    plan_of (sv_needsFullRebuild sv) loaded nowNs c = Some PlanRebuild \<Longrightarrow>
    worker_step mon sv Tau (sv\<lparr>sv_store := BeginWrite (sv_store sv), sv_worker := WScan c FullScan\<rparr>)"
| add: "sv_worker sv = WStarted c \<Longrightarrow>
    plan_of (sv_needsFullRebuild sv) loaded nowNs c = Some (PlanAdd roots) \<Longrightarrow>
    worker_step mon sv Tau (sv\<lparr>sv_worker := WScan c AddPaths\<rparr>)"
| remove: "sv_worker sv = WStarted c \<Longrightarrow>
    plan_of (sv_needsFullRebuild sv) loaded nowNs c = Some (PlanRemove roots) \<Longrightarrow>
    worker_step mon sv Tau (sv\<lparr>sv_worker := WPurge c roots\<rparr>)"
| purge: "sv_worker sv = WPurge c (p # ps) \<Longrightarrow> RemoveEntriesUnderPath (sv_store sv) p = Some s \<Longrightarrow>
    worker_step mon sv Tau (sv\<lparr>sv_store := s, sv_worker := WPurge c ps\<rparr>)"
| purge_done: "sv_worker sv = WPurge c [] \<Longrightarrow> worker_step mon sv Tau (sv\<lparr>sv_worker := WStamp c\<rparr>)"
| unchanged: "sv_worker sv = WStarted c \<Longrightarrow>
    plan_of (sv_needsFullRebuild sv) loaded nowNs c = Some PlanNothing \<Longrightarrow>
    worker_step mon sv Tau (sv\<lparr>sv_worker := WScanned c True\<rparr>)"
| stage_entry: "sv_worker sv = WScan c FullScan \<Longrightarrow> entry_fits (is_stagingPool (sv_store sv)) e \<Longrightarrow>
    worker_step mon sv (ScanEntry e) (sv\<lparr>sv_store := StageEntry (sv_store sv) e\<rparr>)"
| apply_entry: "sv_worker sv = WScan c AddPaths \<Longrightarrow> entry_fits (is_pool (sv_store sv)) e \<Longrightarrow>
    worker_step mon sv (ScanEntry e) (sv\<lparr>sv_store := ApplyAdd (sv_store sv) e\<rparr>)"
| scan_cancelled: "sv_worker sv = WScan c FullScan \<Longrightarrow> is_cancelled sv c \<Longrightarrow>
    worker_step mon sv Tau
      (sv\<lparr>sv_store := AbortWrite (sv_store sv), sv_worker := WScanned c False\<rparr>)"
| scan_done: "sv_worker sv = WScan c FullScan \<Longrightarrow> \<not> is_cancelled sv c \<Longrightarrow>
    worker_step mon sv Tau (sv\<lparr>sv_worker := WSwap c\<rparr>)"
| swap: "sv_worker sv = WSwap c \<Longrightarrow>
    worker_step mon sv Tau (sv\<lparr>sv_store := EndWrite (sv_store sv), sv_worker := WStamp c\<rparr>)"
| stamp: "sv_worker sv = WStamp c \<Longrightarrow>
    worker_step mon sv Tau
      (sv\<lparr>sv_store := SetBuildTimestamp (sv_store sv) nowNs, sv_worker := WSave c nowNs\<rparr>)"
| save: "sv_worker sv = WSave c nowNs \<Longrightarrow>
    worker_step mon sv Tau
      (emit (EvSave (SaveIndex (Some nowNs) (sv_store sv))) (sv\<lparr>sv_worker := WScanned c True\<rparr>))"
| add_cancelled: "sv_worker sv = WScan c AddPaths \<Longrightarrow> is_cancelled sv c \<Longrightarrow>
    worker_step mon sv Tau (sv\<lparr>sv_worker := WScanned c False\<rparr>)"
| add_done: "sv_worker sv = WScan c AddPaths \<Longrightarrow> \<not> is_cancelled sv c \<Longrightarrow>
    worker_step mon sv Tau (sv\<lparr>sv_worker := WStamp c\<rparr>)"
| finish_take: "sv_worker sv = WScanned c completed \<Longrightarrow>
    worker_step mon sv Tau
      (sv\<lparr>sv_scanRunning := False, sv_removedDuringScan := [],
          sv_worker := WRemoving c completed (sv_removedDuringScan sv \<noteq> []) (sv_removedDuringScan sv)\<rparr>)"
| finish_remove: "sv_worker sv = WRemoving c completed any (p # ps) \<Longrightarrow>
    ApplyRemove (sv_store sv) p = Some s \<Longrightarrow>
    worker_step mon sv Tau (sv\<lparr>sv_store := s, sv_worker := WRemoving c completed any ps\<rparr>)"
| finish_done: "sv_worker sv = WRemoving c completed any [] \<Longrightarrow>
    worker_step mon sv Tau (after_finish mon nowNs c completed any sv)"
| end_busy: "sv_worker sv = WEndBusy \<Longrightarrow> worker_step mon sv Tau ((EndBusy sv)\<lparr>sv_worker := WWait\<rparr>)"
| reload_take: "sv_worker sv = WPopped CmdReload \<Longrightarrow>
    worker_step mon sv Tau (sv\<lparr>sv_reloadQueued := False, sv_worker := WReload\<rparr>)"
| reload_ok: "sv_worker sv = WReload \<Longrightarrow> lr_success loaded \<Longrightarrow>
    pool_inv (lr_pool loaded) \<Longrightarrow> distinct (pool_paths (lr_pool loaded)) \<Longrightarrow>
    worker_step mon sv (LoadedPaths (set (pool_paths (lr_pool loaded))))
      (ReportIndexChanged nowNs Reloaded
        (sv\<lparr>sv_store := load_into loaded (sv_store sv), sv_worker := WWait\<rparr>))"
| reload_failed: "sv_worker sv = WReload \<Longrightarrow> worker_step mon sv Tau (sv\<lparr>sv_worker := WWait\<rparr>)"
| stop_monitoring: "sv_worker sv = WPopped CmdStopMonitoring \<Longrightarrow>
    worker_step mon sv Tau ((StopMonitoring sv)\<lparr>sv_worker := WWait\<rparr>)"
| flush_mark: "sv_worker sv = WPopped CmdFlush \<Longrightarrow>
    worker_step mon sv Tau (sv\<lparr>sv_workerDone := True, sv_worker := WWait\<rparr>)"

inductive client_step :: "Service \<Rightarrow> Service \<Rightarrow> bool" where
  indexing: "sv_client sv = CIdle \<Longrightarrow> client_step sv (RequestIndexing force opts stale m sv)"
| settings: "sv_client sv = CIdle \<Longrightarrow> client_step sv (RequestSettingsChange oldRoots opts stale m sv)"
| reload: "sv_client sv = CIdle \<Longrightarrow> client_step sv (RequestReload sv)"
| stop: "sv_client sv = CIdle \<Longrightarrow> client_step sv (RequestStopLocalIndexing sv)"
| enqueue: "sv_client sv = CEnqueue c \<Longrightarrow> client_step sv (Enqueue c sv)"
| file_operations: "sv_client sv = CIdle \<Longrightarrow> client_step sv (RequestFileOperations ops sv)"
| flush: "sv_client sv = CIdle \<Longrightarrow> client_step sv (Flush_begin sv)"
| flush_worker: "sv_client sv = CFlushWorker \<Longrightarrow> sv_workerDone sv \<Longrightarrow>
    client_step sv (sv\<lparr>sv_client := CFlushJobs\<rparr>)"
| flush_jobs: "sv_client sv = CFlushJobs \<Longrightarrow> client_step sv (Flush_file_ops sv)"
| flush_return: "sv_client sv = CFlushFileOps \<Longrightarrow> sv_fileOpsDone sv \<Longrightarrow>
    client_step sv (sv\<lparr>sv_client := CIdle\<rparr>)"
| shutdown_begin: "sv_client sv = CIdle \<Longrightarrow> client_step sv (Shutdown_begin sv)"
| shutdown_end: "sv_client sv = CIdle \<Longrightarrow> sv_shuttingDown sv \<Longrightarrow> sv_worker sv = WWait \<Longrightarrow>
    client_step sv (Shutdown_end sv)"

text \<open>The file-operations thread and live monitoring.\<close>

definition failed_op :: "FileOperation \<Rightarrow> string \<Rightarrow> FileOperationReport \<Rightarrow> FileOperationReport" where
  "failed_op op reason r = r\<lparr>fr_failed := fr_failed r @ [(fo_path op, reason)]\<rparr>"

definition record_removal :: "string \<Rightarrow> Service \<Rightarrow> Service" where
  "record_removal path sv =
     (if sv_scanRunning sv then sv\<lparr>sv_removedDuringScan := sv_removedDuringScan sv @ [path]\<rparr> else sv)"

definition finish_batch :: "u64 \<Rightarrow> FileOperationReport \<Rightarrow> Service \<Rightarrow> Service" where
  "finish_batch nowNs r sv =
     (let sv = emit (EvFileOps r) (sv\<lparr>sv_filePc := FWait\<rparr>)
      in if fr_succeeded r \<noteq> [] then ReportIndexChanged nowNs PathsRemoved sv else sv)"

inductive file_step :: "Service \<Rightarrow> Label \<Rightarrow> Service \<Rightarrow> bool" where
  job: "sv_filePc sv = FWait \<Longrightarrow> sv_fileOpJobs sv = JobOperations ops # jobs \<Longrightarrow>
    file_step sv Tau
      (sv\<lparr>sv_fileOpJobs := jobs, sv_filePc := FOps ops \<lparr>fr_succeeded = [], fr_failed = []\<rparr>\<rparr>)"
| job_mark: "sv_filePc sv = FWait \<Longrightarrow> sv_fileOpJobs sv = JobFlush # jobs \<Longrightarrow>
    file_step sv Tau (sv\<lparr>sv_fileOpJobs := jobs, sv_fileOpsDone := True\<rparr>)"
| op_failed: "sv_filePc sv = FOps (op # ops) r \<Longrightarrow>
    file_step sv Tau (sv\<lparr>sv_filePc := FOps ops (failed_op op reason r)\<rparr>)"
| op_ran: "sv_filePc sv = FOps (op # ops) r \<Longrightarrow>
    file_step sv (FileOpRan (fo_path op)) (sv\<lparr>sv_filePc := FRan (fo_path op) ops r\<rparr>)"
| recorded: "sv_filePc sv = FRan path ops r \<Longrightarrow>
    file_step sv Tau ((record_removal path sv)\<lparr>sv_filePc := FRecorded path ops r\<rparr>)"
| removed: "sv_filePc sv = FRecorded path ops r \<Longrightarrow> ApplyRemove (sv_store sv) path = Some s \<Longrightarrow>
    file_step sv Tau
      (sv\<lparr>sv_store := s, sv_filePc := FOps ops (r\<lparr>fr_succeeded := fr_succeeded r @ [path]\<rparr>)\<rparr>)"
| batch_done: "sv_filePc sv = FOps [] r \<Longrightarrow> file_step sv Tau (finish_batch nowNs r sv)"

inductive monitor_step :: "Service \<Rightarrow> Label \<Rightarrow> Service \<Rightarrow> bool" where
  live: "sv_monitoring sv = Some roots \<Longrightarrow> event_ok scanner ev (sv_store sv) \<Longrightarrow>
    ApplyChangeEvent scanner ev (sv_store sv) = Some (s, changed) \<Longrightarrow>
    monitor_step sv (MonitorPaths (set (store_paths s) - set (store_paths (sv_store sv))))
      ((if changed then emit EvLiveChange sv else sv)\<lparr>sv_store := s\<rparr>)"

definition service_step :: "bool \<Rightarrow> Service \<Rightarrow> Label \<Rightarrow> Service \<Rightarrow> bool" where
  "service_step mon sv l sv' \<longleftrightarrow>
     worker_step mon sv l sv' \<or> (l = Tau \<and> client_step sv sv') \<or> file_step sv l sv' \<or>
     monitor_step sv l sv'"

inductive reachable :: "bool \<Rightarrow> Service \<Rightarrow> bool" for mon where
  init: "store_inv s \<Longrightarrow> reachable mon (initial_service s)"
| step: "reachable mon sv \<Longrightarrow> service_step mon sv l sv' \<Longrightarrow> reachable mon sv'"

end
