(* ===== verification/Service_Invariants.thy ===== *)
theory Service_Invariants
  imports Index_Service
begin

text \<open>
  What every run of the index service keeps: the accounting of its busy reports, the
  cancellation of superseded scans and the coalescing of reloads, by rule induction over the
  reachable states of \<open>Index_Service\<close>.
\<close>

lemmas request_defs =
  register_scan_def RequestIndexing_def RequestSettingsChange_def RequestReload_def
  CancelScans_def RequestStopLocalIndexing_def Enqueue_def RequestFileOperations_def
  Shutdown_begin_def Shutdown_end_def StopMonitoring_def Flush_begin_def Flush_file_ops_def

inductive_cases worker_stepE: "worker_step mon sv l sv'"
inductive_cases client_stepE: "client_step sv sv'"
inductive_cases file_stepE: "file_step sv l sv'"
inductive_cases monitor_stepE: "monitor_step sv l sv'"

text \<open>An invariant of the service is kept by each of its four kinds of steps.\<close>

lemma reachable_invariant:
  assumes "reachable mon sv"
    and "\<And>s. store_inv s \<Longrightarrow> I (initial_service s)"
    and "\<And>sv l sv'. I sv \<Longrightarrow> worker_step mon sv l sv' \<Longrightarrow> I sv'"
    and "\<And>sv sv'. I sv \<Longrightarrow> client_step sv sv' \<Longrightarrow> I sv'"
    and "\<And>sv l sv'. I sv \<Longrightarrow> file_step sv l sv' \<Longrightarrow> I sv'"
    and "\<And>sv l sv'. I sv \<Longrightarrow> monitor_step sv l sv' \<Longrightarrow> I sv'"
  shows "I sv"
  using assms(1)
proof induction
  case (init s)
  then show ?case by (rule assms(2))
next
  case (step sv l sv')
  from step.hyps(2) consider "worker_step mon sv l sv'" | "client_step sv sv'"
    | "file_step sv l sv'" | "monitor_step sv l sv'"
    by (auto simp only: service_step_def)
  then show ?case using step.IH by cases (erule assms(3-6), assumption)+
qed

text \<open>The busy reports among the events, and the traces in which they alternate.\<close>

definition busy_reports :: "Event list \<Rightarrow> bool list" where
  "busy_reports evs = concat (map (\<lambda>ev. case ev of EvBusy b \<Rightarrow> [b] | _ \<Rightarrow> []) evs)"

lemma busy_reports_simps [simp]:
  "busy_reports [] = []" "busy_reports (EvBusy b # evs) = b # busy_reports evs"
  "busy_reports (EvIndexChanged ic # evs) = busy_reports evs"
  "busy_reports (EvFileOps r # evs) = busy_reports evs"
  "busy_reports (EvSave bytes # evs) = busy_reports evs"
  "busy_reports (EvLiveChange # evs) = busy_reports evs"
  "busy_reports (evs @ evs') = busy_reports evs @ busy_reports evs'"
  by (simp_all add: busy_reports_def)

section \<open>What the operations leave alone\<close>

lemma emit_fields [simp]:
  "sv_store (emit ev sv) = sv_store sv" "sv_commands (emit ev sv) = sv_commands sv"
  "sv_scanCancels (emit ev sv) = sv_scanCancels sv" "sv_cancelled (emit ev sv) = sv_cancelled sv"
  "sv_nextToken (emit ev sv) = sv_nextToken sv" "sv_reloadQueued (emit ev sv) = sv_reloadQueued sv"
  "sv_shuttingDown (emit ev sv) = sv_shuttingDown sv" "sv_pendingBusy (emit ev sv) = sv_pendingBusy sv"
  "sv_busyReported (emit ev sv) = sv_busyReported sv" "sv_client (emit ev sv) = sv_client sv"
  "sv_removedDuringScan (emit ev sv) = sv_removedDuringScan sv"
  "sv_scanRunning (emit ev sv) = sv_scanRunning sv" "sv_worker (emit ev sv) = sv_worker sv"
  "sv_needsFullRebuild (emit ev sv) = sv_needsFullRebuild sv" "sv_filePc (emit ev sv) = sv_filePc sv"
  "sv_monitoring (emit ev sv) = sv_monitoring sv" "sv_events (emit ev sv) = sv_events sv @ [ev]"
  by (simp_all add: emit_def)

lemma ReportIndexChanged_fields [simp]:
  "sv_store (ReportIndexChanged nowNs kind sv) = sv_store sv"
  "sv_commands (ReportIndexChanged nowNs kind sv) = sv_commands sv"
  "sv_scanCancels (ReportIndexChanged nowNs kind sv) = sv_scanCancels sv"
  "sv_cancelled (ReportIndexChanged nowNs kind sv) = sv_cancelled sv"
  "sv_nextToken (ReportIndexChanged nowNs kind sv) = sv_nextToken sv"
  "sv_reloadQueued (ReportIndexChanged nowNs kind sv) = sv_reloadQueued sv"
  "sv_shuttingDown (ReportIndexChanged nowNs kind sv) = sv_shuttingDown sv"
  "sv_pendingBusy (ReportIndexChanged nowNs kind sv) = sv_pendingBusy sv"
  "sv_busyReported (ReportIndexChanged nowNs kind sv) = sv_busyReported sv"
  "sv_client (ReportIndexChanged nowNs kind sv) = sv_client sv"
  "sv_removedDuringScan (ReportIndexChanged nowNs kind sv) = sv_removedDuringScan sv"
  "sv_scanRunning (ReportIndexChanged nowNs kind sv) = sv_scanRunning sv"
  "sv_worker (ReportIndexChanged nowNs kind sv) = sv_worker sv"
  "sv_needsFullRebuild (ReportIndexChanged nowNs kind sv) = sv_needsFullRebuild sv"
  "sv_filePc (ReportIndexChanged nowNs kind sv) = sv_filePc sv"
  "sv_monitoring (ReportIndexChanged nowNs kind sv) = sv_monitoring sv"
  "busy_reports (sv_events (ReportIndexChanged nowNs kind sv)) = busy_reports (sv_events sv)"
  by (simp_all add: ReportIndexChanged_def)

lemma after_finish_fields [simp]:
  "sv_store (after_finish mon nowNs c completed any sv) = sv_store sv"
  "sv_commands (after_finish mon nowNs c completed any sv) = sv_commands sv"
  "sv_scanCancels (after_finish mon nowNs c completed any sv) = sv_scanCancels sv"
  "sv_cancelled (after_finish mon nowNs c completed any sv) = sv_cancelled sv"
  "sv_nextToken (after_finish mon nowNs c completed any sv) = sv_nextToken sv"
  "sv_reloadQueued (after_finish mon nowNs c completed any sv) = sv_reloadQueued sv"
  "sv_shuttingDown (after_finish mon nowNs c completed any sv) = sv_shuttingDown sv"
  "sv_pendingBusy (after_finish mon nowNs c completed any sv) = sv_pendingBusy sv"
  "sv_busyReported (after_finish mon nowNs c completed any sv) = sv_busyReported sv"
  "sv_client (after_finish mon nowNs c completed any sv) = sv_client sv"
  "sv_removedDuringScan (after_finish mon nowNs c completed any sv) = sv_removedDuringScan sv"
  "sv_scanRunning (after_finish mon nowNs c completed any sv) = sv_scanRunning sv"
  "sv_filePc (after_finish mon nowNs c completed any sv) = sv_filePc sv"
  "sv_worker (after_finish mon nowNs c completed any sv) = WEndBusy"
  "sv_needsFullRebuild (after_finish mon nowNs c completed any sv) = (\<not> completed)"
  "busy_reports (sv_events (after_finish mon nowNs c completed any sv)) = busy_reports (sv_events sv)"
  by (simp_all add: after_finish_def StartMonitoring_def StopMonitoring_def Let_def ReportIndexChanged_def)

lemma begin_scan_fields [simp]:
  "sv_store (begin_scan sv) = sv_store sv" "sv_commands (begin_scan sv) = sv_commands sv"
  "sv_scanCancels (begin_scan sv) = sv_scanCancels sv"
  "sv_cancelled (begin_scan sv) = sv_cancelled sv"
  "sv_nextToken (begin_scan sv) = sv_nextToken sv"
  "sv_reloadQueued (begin_scan sv) = sv_reloadQueued sv"
  "sv_shuttingDown (begin_scan sv) = sv_shuttingDown sv"
  "sv_pendingBusy (begin_scan sv) = sv_pendingBusy sv" "sv_client (begin_scan sv) = sv_client sv"
  "sv_removedDuringScan (begin_scan sv) = sv_removedDuringScan sv"
  "sv_worker (begin_scan sv) = sv_worker sv"
  "sv_needsFullRebuild (begin_scan sv) = sv_needsFullRebuild sv"
  "sv_filePc (begin_scan sv) = sv_filePc sv" "sv_busyReported (begin_scan sv)"
  "sv_scanRunning (begin_scan sv)" "sv_monitoring (begin_scan sv) = None"
  "busy_reports (sv_events (begin_scan sv)) =
     busy_reports (sv_events sv) @ (if sv_busyReported sv then [] else [True])"
  by (simp_all add: begin_scan_def BeginBusy_def StopMonitoring_def)

lemma EndBusy_fields [simp]:
  "sv_store (EndBusy sv) = sv_store sv" "sv_commands (EndBusy sv) = sv_commands sv"
  "sv_scanCancels (EndBusy sv) = sv_scanCancels sv" "sv_cancelled (EndBusy sv) = sv_cancelled sv"
  "sv_nextToken (EndBusy sv) = sv_nextToken sv"
  "sv_reloadQueued (EndBusy sv) = sv_reloadQueued sv"
  "sv_shuttingDown (EndBusy sv) = sv_shuttingDown sv" "sv_client (EndBusy sv) = sv_client sv"
  "sv_removedDuringScan (EndBusy sv) = sv_removedDuringScan sv"
  "sv_scanRunning (EndBusy sv) = sv_scanRunning sv" "sv_worker (EndBusy sv) = sv_worker sv"
  "sv_needsFullRebuild (EndBusy sv) = sv_needsFullRebuild sv"
  "sv_filePc (EndBusy sv) = sv_filePc sv" "sv_monitoring (EndBusy sv) = sv_monitoring sv"
  "sv_pendingBusy (EndBusy sv) = sv_pendingBusy sv - 1"
  "sv_busyReported (EndBusy sv) = (sv_busyReported sv \<and> sv_pendingBusy sv \<noteq> 1)"
  "busy_reports (sv_events (EndBusy sv)) =
     busy_reports (sv_events sv) @ (if sv_busyReported sv \<and> sv_pendingBusy sv = 1 then [False] else [])"
  by (auto simp: EndBusy_def Let_def)

lemma record_removal_fields [simp]:
  "sv_store (record_removal path sv) = sv_store sv"
  "sv_commands (record_removal path sv) = sv_commands sv"
  "sv_scanCancels (record_removal path sv) = sv_scanCancels sv"
  "sv_cancelled (record_removal path sv) = sv_cancelled sv"
  "sv_nextToken (record_removal path sv) = sv_nextToken sv"
  "sv_reloadQueued (record_removal path sv) = sv_reloadQueued sv"
  "sv_shuttingDown (record_removal path sv) = sv_shuttingDown sv"
  "sv_pendingBusy (record_removal path sv) = sv_pendingBusy sv"
  "sv_busyReported (record_removal path sv) = sv_busyReported sv"
  "sv_client (record_removal path sv) = sv_client sv"
  "sv_scanRunning (record_removal path sv) = sv_scanRunning sv"
  "sv_worker (record_removal path sv) = sv_worker sv"
  "sv_needsFullRebuild (record_removal path sv) = sv_needsFullRebuild sv"
  "sv_filePc (record_removal path sv) = sv_filePc sv"
  "sv_monitoring (record_removal path sv) = sv_monitoring sv"
  "sv_events (record_removal path sv) = sv_events sv"
  by (simp_all add: record_removal_def)

lemma finish_batch_fields [simp]:
  "sv_store (finish_batch nowNs r sv) = sv_store sv"
  "sv_commands (finish_batch nowNs r sv) = sv_commands sv"
  "sv_scanCancels (finish_batch nowNs r sv) = sv_scanCancels sv"
  "sv_cancelled (finish_batch nowNs r sv) = sv_cancelled sv"
  "sv_nextToken (finish_batch nowNs r sv) = sv_nextToken sv"
  "sv_reloadQueued (finish_batch nowNs r sv) = sv_reloadQueued sv"
  "sv_shuttingDown (finish_batch nowNs r sv) = sv_shuttingDown sv"
  "sv_pendingBusy (finish_batch nowNs r sv) = sv_pendingBusy sv"
  "sv_busyReported (finish_batch nowNs r sv) = sv_busyReported sv"
  "sv_client (finish_batch nowNs r sv) = sv_client sv"
  "sv_removedDuringScan (finish_batch nowNs r sv) = sv_removedDuringScan sv"
  "sv_scanRunning (finish_batch nowNs r sv) = sv_scanRunning sv"
  "sv_worker (finish_batch nowNs r sv) = sv_worker sv"
  "sv_needsFullRebuild (finish_batch nowNs r sv) = sv_needsFullRebuild sv"
  "sv_monitoring (finish_batch nowNs r sv) = sv_monitoring sv"
  "sv_filePc (finish_batch nowNs r sv) = FWait"
  "busy_reports (sv_events (finish_batch nowNs r sv)) = busy_reports (sv_events sv)"
  by (simp_all add: finish_batch_def Let_def ReportIndexChanged_def)

section \<open>Busy reports\<close>

fun client_commands :: "Client \<Rightarrow> Command list" where
  "client_commands (CEnqueue c) = [c]"
| "client_commands _ = []"

definition busy_count :: "Command list \<Rightarrow> int" where
  "busy_count cs = int (length (filter (\<lambda>c. token_of c \<noteq> None) cs))"

lemma busy_count_simps [simp]:
  "busy_count [] = 0" "busy_count (c # cs) = (if token_of c = None then 0 else 1) + busy_count cs"
  "busy_count (xs @ ys) = busy_count xs + busy_count ys"
  by (simp_all add: busy_count_def)

lemma busy_count_nonneg: "0 \<le> busy_count cs"
  by (simp add: busy_count_def)

text \<open>What the command the worker holds still owes.\<close>

fun worker_owes :: "Worker \<Rightarrow> int" where
  "worker_owes WWait = 0"
| "worker_owes WReload = 0"
| "worker_owes (WPopped c) = busy_count [c]"
| "worker_owes _ = 1"

definition owed :: "Service \<Rightarrow> int" where
  "owed sv = busy_count (sv_commands sv) + busy_count (client_commands (sv_client sv)) +
     worker_owes (sv_worker sv)"

text \<open>\<open>alternating last xs\<close>: \<open>True\<close> and \<open>False\<close> in turn, \<open>True\<close> first, ending in \<open>last\<close>.\<close>

inductive alternating :: "bool \<Rightarrow> bool list \<Rightarrow> bool" where
  none: "alternating False []"
| turn: "alternating (\<not> b) bs \<Longrightarrow> alternating b (bs @ [b])"

definition busy_inv :: "Service \<Rightarrow> bool" where
  "busy_inv sv \<longleftrightarrow> alternating (sv_busyReported sv) (busy_reports (sv_events sv)) \<and>
     owed sv \<le> sv_pendingBusy sv \<and> (\<not> sv_shuttingDown sv \<longrightarrow> sv_pendingBusy sv = owed sv) \<and>
     (sv_busyReported sv \<longrightarrow> 0 < sv_pendingBusy sv)"

lemma busy_initial: "busy_inv (initial_service s)"
  by (simp add: busy_inv_def initial_service_def owed_def alternating.none)

lemma alternating_True: "alternating False bs \<Longrightarrow> alternating True (bs @ [True])"
  "alternating True bs \<Longrightarrow> alternating False (bs @ [False])"
  using alternating.turn [of True bs] alternating.turn [of False bs] by simp_all

lemma busy_worker: "busy_inv sv \<Longrightarrow> worker_step mon sv l sv' \<Longrightarrow> busy_inv sv'"
  using busy_count_nonneg [of "sv_commands sv"]
    busy_count_nonneg [of "client_commands (sv_client sv)"]
  by (elim worker_stepE)
    (auto simp: busy_inv_def owed_def alternating_True StopMonitoring_def split: if_splits)

lemma busy_client: "busy_inv sv \<Longrightarrow> client_step sv sv' \<Longrightarrow> busy_inv sv'"
  using busy_count_nonneg [of "sv_commands sv"]
  by (elim client_stepE; hypsubst_thin) (auto simp: busy_inv_def request_defs owed_def split: if_splits)

lemma busy_file: "busy_inv sv \<Longrightarrow> file_step sv l sv' \<Longrightarrow> busy_inv sv'"
  by (erule file_stepE) (simp_all add: busy_inv_def owed_def)

lemma busy_monitor: "busy_inv sv \<Longrightarrow> monitor_step sv l sv' \<Longrightarrow> busy_inv sv'"
  by (erule monitor_stepE) (simp_all add: busy_inv_def owed_def)

lemma busy_reachable: "reachable mon sv \<Longrightarrow> busy_inv sv"
  using reachable_invariant [of mon sv busy_inv, OF _ busy_initial busy_worker busy_client busy_file
      busy_monitor] .

section \<open>Cancellation\<close>

fun worker_commands :: "Worker \<Rightarrow> Command list" where
  "worker_commands (WPopped c) = [c]"
| "worker_commands (WStarted c) = [c]"
| "worker_commands (WScan c m) = [c]"
| "worker_commands (WSwap c) = [c]"
| "worker_commands (WPurge c ps) = [c]"
| "worker_commands (WStamp c) = [c]"
| "worker_commands (WSave c nowNs) = [c]"
| "worker_commands (WScanned c b) = [c]"
| "worker_commands (WRemoving c b any ps) = [c]"
| "worker_commands _ = []"

definition held_commands :: "Service \<Rightarrow> Command set" where
  "held_commands sv = set (sv_commands sv) \<union> set (client_commands (sv_client sv)) \<union>
     set (worker_commands (sv_worker sv))"

definition cancel_inv :: "Service \<Rightarrow> bool" where
  "cancel_inv sv \<longleftrightarrow> {..< sv_nextToken sv} - sv_cancelled sv \<subseteq> set (sv_scanCancels sv) \<and>
     (\<forall>t \<in> set (sv_scanCancels sv). Suc t = sv_nextToken sv) \<and>
     (sv_shuttingDown sv \<longrightarrow> sv_scanCancels sv = []) \<and>
     (\<forall>c \<in> held_commands sv. \<forall>t. token_of c = Some t \<longrightarrow> t < sv_nextToken sv)"

lemma cancel_worker: "cancel_inv sv \<Longrightarrow> worker_step mon sv l sv' \<Longrightarrow> cancel_inv sv'"
  by (erule worker_stepE) (auto simp: cancel_inv_def held_commands_def StopMonitoring_def)

lemma cancel_client: "cancel_inv sv \<Longrightarrow> client_step sv sv' \<Longrightarrow> cancel_inv sv'"
  by (erule client_stepE)
    (auto simp: cancel_inv_def held_commands_def request_defs less_Suc_eq split: if_splits)

lemma cancel_file: "cancel_inv sv \<Longrightarrow> file_step sv l sv' \<Longrightarrow> cancel_inv sv'"
  by (erule file_stepE) (simp_all add: cancel_inv_def held_commands_def)

lemma cancel_monitor: "cancel_inv sv \<Longrightarrow> monitor_step sv l sv' \<Longrightarrow> cancel_inv sv'"
  by (erule monitor_stepE) (simp_all add: cancel_inv_def held_commands_def)

lemma cancel_initial: "cancel_inv (initial_service s)"
  by (simp add: cancel_inv_def initial_service_def held_commands_def)

lemma cancel_reachable: "reachable mon sv \<Longrightarrow> cancel_inv sv"
  using reachable_invariant [of mon sv cancel_inv, OF _ cancel_initial cancel_worker cancel_client cancel_file
      cancel_monitor] .

section \<open>Reloads\<close>

definition reload_count :: "Command list \<Rightarrow> nat" where
  "reload_count cs = length (filter (\<lambda>c. c = CmdReload) cs)"

lemma reload_count_simps [simp]:
  "reload_count [] = 0" "reload_count (c # cs) = (if c = CmdReload then 1 else 0) + reload_count cs"
  "reload_count (xs @ ys) = reload_count xs + reload_count ys"
  by (simp_all add: reload_count_def)

text \<open>The reloads that are asked for and have not begun.\<close>

definition waiting_reloads :: "Service \<Rightarrow> nat" where
  "waiting_reloads sv = reload_count (sv_commands sv) + reload_count (client_commands (sv_client sv)) +
     (if sv_worker sv = WPopped CmdReload then 1 else 0)"

definition reload_inv :: "Service \<Rightarrow> bool" where
  "reload_inv sv \<longleftrightarrow> waiting_reloads sv \<le> (if sv_reloadQueued sv then 1 else 0) \<and>
     (\<not> sv_shuttingDown sv \<longrightarrow> waiting_reloads sv = (if sv_reloadQueued sv then 1 else 0))"

lemma reload_worker: "reload_inv sv \<Longrightarrow> worker_step mon sv l sv' \<Longrightarrow> reload_inv sv'"
  by (erule worker_stepE)
    (auto simp: reload_inv_def request_defs waiting_reloads_def split: if_splits)

lemma reload_client: "reload_inv sv \<Longrightarrow> client_step sv sv' \<Longrightarrow> reload_inv sv'"
  by (erule client_stepE)
    (auto simp: reload_inv_def request_defs waiting_reloads_def split: if_splits)

lemma reload_file: "reload_inv sv \<Longrightarrow> file_step sv l sv' \<Longrightarrow> reload_inv sv'"
  by (erule file_stepE)
    (auto simp: reload_inv_def request_defs waiting_reloads_def split: if_splits)

lemma reload_monitor: "reload_inv sv \<Longrightarrow> monitor_step sv l sv' \<Longrightarrow> reload_inv sv'"
  by (erule monitor_stepE)
    (auto simp: reload_inv_def request_defs waiting_reloads_def split: if_splits)

lemma reload_initial: "reload_inv (initial_service s)"
  by (simp add: reload_inv_def initial_service_def waiting_reloads_def)

lemma reload_reachable: "reachable mon sv \<Longrightarrow> reload_inv sv"
  using reachable_invariant [of mon sv reload_inv, OF _ reload_initial reload_worker reload_client reload_file
      reload_monitor] .

fun after_check :: "ScanMode \<Rightarrow> Command \<Rightarrow> Worker" where
  "after_check FullScan c = WSwap c"
| "after_check AddPaths c = WStamp c"

lemma scan_end:
  assumes "worker_step mon sv l sv'" "sv_worker sv = WScan c m" "sv_worker sv' \<noteq> WScan c m"
  shows "is_pool (sv_store sv') = is_pool (sv_store sv) \<and> sv_events sv' = sv_events sv \<and>
    (sv_worker sv' = WScanned c False \<or> sv_worker sv' = after_check m c \<and> \<not> is_cancelled sv c)"
  using assms by (cases rule: worker_step.cases) (simp_all add: AbortWrite_def)

text \<open>Nothing records when monitoring stopped: the time in the store is the one of the last file
  that was loaded.\<close>

lemma monitor_stop_ApplyRemove:
  "ApplyRemove s p = Some t \<Longrightarrow> is_lastMonitorStopNs t = is_lastMonitorStopNs s"
  by (auto simp: ApplyRemove_def elim!: bind_SomeE split: option.splits)

lemma monitor_stop_remove_under:
  "RemoveEntriesUnderPath s p = Some t \<Longrightarrow> is_lastMonitorStopNs t = is_lastMonitorStopNs s"
  by (auto simp: RemoveEntriesUnderPath_def elim!: bind_SomeE)

lemma monitor_stop_ApplyChangeEvent:
  "ApplyChangeEvent sc ev s = Some (t, b) \<Longrightarrow> is_lastMonitorStopNs t = is_lastMonitorStopNs s"
  by (auto simp: ApplyChangeEvent_def ApplyAdd_def ApplyRename_def Let_def elim!: bind_SomeE
      dest!: monitor_stop_ApplyRemove split: option.splits FileChangeType.splits if_splits)

lemma monitor_stop_never_set:
  assumes "service_step mon sv l sv'" "\<forall>ps. l \<noteq> LoadedPaths ps"
  shows "is_lastMonitorStopNs (sv_store sv') = is_lastMonitorStopNs (sv_store sv)"
  using assms unfolding service_step_def
  by (elim disjE conjE worker_stepE client_stepE file_stepE monitor_stepE)
    (auto simp: BeginWrite_def AbortWrite_def EndWrite_def SetBuildTimestamp_def StageEntry_def
      ApplyAdd_def request_defs dest: monitor_stop_ApplyRemove monitor_stop_remove_under
      monitor_stop_ApplyChangeEvent)

section \<open>A sample run\<close>

definition sample_request :: Command where
  "sample_request = CmdIndexing True sample_options 60 True 0"

text \<open>The service with one rebuild in its scan.\<close>

definition sample_scanning :: Service where
  "sample_scanning = (initial_service empty_store)\<lparr>sv_scanCancels := [0], sv_nextToken := 1,
     sv_pendingBusy := 1, sv_busyReported := True, sv_scanRunning := True,
     sv_worker := WScan sample_request FullScan, sv_events := [EvBusy True]\<rparr>"

lemma client_reachable: "reachable mon sv \<Longrightarrow> client_step sv sv' \<Longrightarrow> reachable mon sv'"
  by (erule reachable.step [where l = Tau]) (simp add: service_step_def)

lemma worker_reachable: "reachable mon sv \<Longrightarrow> worker_step mon sv l sv' \<Longrightarrow> reachable mon sv'"
  by (erule reachable.step [where l = l]) (simp add: service_step_def)

lemma sample_steps:
  "\<exists>a b c d. client_step (initial_service empty_store) a \<and> client_step a b \<and> worker_step mon b Tau c \<and>
     worker_step mon c ScanStart d \<and> worker_step mon d Tau sample_scanning"
proof -
  let ?i = "initial_service empty_store"
  let ?a = "RequestIndexing True sample_options 60 True ?i"
  let ?b = "Enqueue sample_request ?a"
  let ?c = "?b\<lparr>sv_commands := [], sv_worker := WPopped sample_request\<rparr>"
  let ?d = "(begin_scan ?c)\<lparr>sv_worker := WStarted sample_request\<rparr>"
  let ?e = "?d\<lparr>sv_store := BeginWrite (sv_store ?d), sv_worker := WScan sample_request FullScan\<rparr>"
  note eqs = initial_service_def RequestIndexing_def register_scan_def Enqueue_def sample_request_def
  have "client_step ?i ?a" by (rule client_step.indexing) (simp add: eqs)
  moreover have "client_step ?a ?b" by (rule client_step.enqueue) (simp add: eqs)
  moreover have "worker_step mon ?b Tau ?c" by (rule worker_step.pop) (simp_all add: eqs)
  moreover have "worker_step mon ?c ScanStart ?d"
    by (rule worker_step.start) (simp_all add: eqs is_cancelled_def)
  moreover have "worker_step mon ?d Tau ?e"
    by (rule worker_step.rebuild [where loaded = load_failed and nowNs = 0])
      (simp_all add: sample_request_def)
  moreover have "?e = sample_scanning"
    by (simp add: eqs sample_scanning_def begin_scan_def BeginBusy_def StopMonitoring_def emit_def
        BeginWrite_def empty_store_def)
  ultimately show ?thesis by metis
qed

lemma sample_scanning_reachable: "reachable mon sample_scanning"
  using sample_steps [of mon] reachable.init [of empty_store mon]
  by (metis client_reachable worker_reachable empty_store_inv)

section \<open>Properties\<close>

text \<open>C23: The busy indicator is exact: the window is told busy and idle in turn, busy first, and
  until shutdown the count of owed idle reports is the number of rebuilds and settings
  changes that are being asked for, queued or running; so when nothing is left the last
  report was idle.\<close>

theorem busy_accounting:
  assumes "reachable mon sv" "\<not> sv_shuttingDown sv"
  shows "alternating (sv_busyReported sv) (busy_reports (sv_events sv)) \<and>
    sv_pendingBusy sv = owed sv \<and> (sv_busyReported sv \<longrightarrow> 0 < owed sv) \<and>
    (sv_commands sv = [] \<and> sv_client sv = CIdle \<and> sv_worker sv = WWait \<longrightarrow> \<not> sv_busyReported sv)"
  using busy_reachable [OF assms(1)] assms(2) by (auto simp: busy_inv_def owed_def)

theorem busy_accounting_witness:
  "alternating True [True] \<and> sv_pendingBusy sample_scanning = owed sample_scanning"
  using busy_accounting [OF sample_scanning_reachable [of True]]
  by (simp add: sample_scanning_def initial_service_def)



text \<open>Reloads are coalesced: at most one reload is ever asked for and not yet begun, and until
  shutdown there is one exactly when the flag says so; so requests that arrive during a
  reload cause one more and no second.\<close>

lemma reloads_coalesced:
  assumes "reachable mon sv"
  shows "waiting_reloads sv \<le> 1 \<and> (\<not> sv_shuttingDown sv \<longrightarrow>
    waiting_reloads sv = (if sv_reloadQueued sv then 1 else 0)) \<and>
    (sv_reloadQueued sv \<longrightarrow> RequestReload sv = sv)"
  using reload_reachable [OF assms]
  by (auto simp: reload_inv_def RequestReload_def split: if_splits)

lemma reloads_coalesced_witness:
  "waiting_reloads (RequestReload sample_scanning) = 1 \<and>
   RequestReload (RequestReload sample_scanning) = RequestReload sample_scanning"
proof -
  have "reachable True (RequestReload sample_scanning)"
    by (rule client_reachable [OF sample_scanning_reachable], rule client_step.reload)
      (simp add: sample_scanning_def initial_service_def)
  from reloads_coalesced [OF this] show ?thesis
    by (simp add: RequestReload_def sample_scanning_def initial_service_def)
qed

end
