(* ===== verification/Service_Removals.thy ===== *)
theory Service_Removals
  imports Service_Invariants
begin

text \<open>
  The index service with the file system beside it: a path that a file operation removed is
  not brought back by a scan that started before (\<open>removedDuringScan_\<close> and \<open>FinishScan\<close>). The
  world adds to the service which paths exist, which existed at some time since the last scan
  started, and which a file operation removed with nobody reporting them again.
\<close>

section \<open>The world\<close>

record World =
  wd_service :: Service
  wd_disk :: "string set"
  wd_seen :: "string set"
  wd_gone :: "string set"

text \<open>The pool a scan fills.\<close>

definition scan_target :: "Service \<Rightarrow> string set" where
  "scan_target sv =
     (case sv_worker sv of
        WScan _ FullScan \<Rightarrow> set (pool_paths (is_stagingPool (sv_store sv)))
      | _ \<Rightarrow> set (pool_paths (is_pool (sv_store sv))))"

text \<open>A scan reports only what existed since it started, and a path that its target does not
  have yet; nothing else is asked of the environment.\<close>

fun label_ok :: "Label \<Rightarrow> World \<Rightarrow> bool" where
  "label_ok (ScanEntry e) w \<longleftrightarrow>
     fe_path e \<in> wd_seen w \<and> fe_path e \<notin> scan_target (wd_service w)"
| "label_ok _ w \<longleftrightarrow> True"

fun label_effect :: "Label \<Rightarrow> World \<Rightarrow> World" where
  "label_effect ScanStart w = w\<lparr>wd_seen := wd_disk w\<rparr>"
| "label_effect (LoadedPaths ps) w = w\<lparr>wd_gone := wd_gone w - ps\<rparr>"
| "label_effect (MonitorPaths ps) w = w\<lparr>wd_gone := wd_gone w - ps\<rparr>"
| "label_effect (FileOpRan p) w = w\<lparr>wd_disk := wd_disk w - {p}, wd_gone := insert p (wd_gone w)\<rparr>"
| "label_effect _ w = w"

inductive world :: "bool \<Rightarrow> World \<Rightarrow> bool" for mon where
  init: "store_inv s \<Longrightarrow> distinct (store_paths s) \<Longrightarrow> distinct (pool_paths (is_stagingPool s)) \<Longrightarrow>
    world mon \<lparr>wd_service = initial_service s, wd_disk = disk, wd_seen = {}, wd_gone = {}\<rparr>"
| create: "world mon w \<Longrightarrow>
    world mon (w\<lparr>wd_disk := insert p (wd_disk w), wd_seen := insert p (wd_seen w),
                 wd_gone := wd_gone w - {p}\<rparr>)"
| delete: "world mon w \<Longrightarrow> world mon (w\<lparr>wd_disk := wd_disk w - {p}\<rparr>)"
| step: "world mon w \<Longrightarrow> service_step mon (wd_service w) l sv' \<Longrightarrow> label_ok l w \<Longrightarrow>
    world mon ((label_effect l w)\<lparr>wd_service := sv'\<rparr>)"

section \<open>Sound stores\<close>

definition sound_store :: "IndexStore \<Rightarrow> bool" where
  "sound_store s \<longleftrightarrow> store_inv s \<and> distinct (store_paths s) \<and>
     distinct (pool_paths (is_stagingPool s))"

abbreviation staged_paths :: "IndexStore \<Rightarrow> string list" where
  "staged_paths s \<equiv> pool_paths (is_stagingPool s)"

lemma store_paths_pool: "store_paths s = pool_paths (is_pool s)"
  by (simp add: store_paths_def store_live_def pool_paths_def)

lemma pool_paths_empty [simp]: "pool_paths empty_pool = []"
  by (simp add: pool_paths_def live_entries_def)

lemma pool_paths_AddEntry:
  "pool_inv p \<Longrightarrow> entry_fits p e \<Longrightarrow> pool_paths (AddEntry p e) = pool_paths p @ [fe_path e]"
  by (simp add: pool_paths_def live_entries_abs AddEntry_abs)

lemma sound_BeginWrite:
  "sound_store s \<Longrightarrow> sound_store (BeginWrite s)"
  "store_paths (BeginWrite s) = store_paths s" "staged_paths (BeginWrite s) = []"
  by (simp_all add: sound_store_def BeginWrite_def store_inv_def store_paths_pool)

lemma sound_AbortWrite:
  "sound_store s \<Longrightarrow> sound_store (AbortWrite s)"
  "store_paths (AbortWrite s) = store_paths s" "staged_paths (AbortWrite s) = []"
  by (simp_all add: sound_store_def AbortWrite_def store_inv_def store_paths_pool)

lemma sound_EndWrite:
  "sound_store s \<Longrightarrow> sound_store (EndWrite s)" "store_paths (EndWrite s) = staged_paths s"
  "staged_paths (EndWrite s) = []"
  by (simp_all add: sound_store_def EndWrite_def store_inv_def store_paths_pool)

lemma sound_SetBuildTimestamp:
  "sound_store (SetBuildTimestamp s ts) = sound_store s"
  "store_paths (SetBuildTimestamp s ts) = store_paths s"
  "staged_paths (SetBuildTimestamp s ts) = staged_paths s"
  by (simp_all add: sound_store_def SetBuildTimestamp_def store_inv_def store_paths_pool)

lemma sound_load_into:
  "sound_store s \<Longrightarrow> pool_inv (lr_pool r) \<Longrightarrow> distinct (pool_paths (lr_pool r)) \<Longrightarrow>
   sound_store (load_into r s)"
  "store_paths (load_into r s) = pool_paths (lr_pool r)"
  by (simp_all add: sound_store_def load_into_def LoadPool_def store_inv_def store_paths_pool)

lemma sound_StageEntry:
  assumes "sound_store s" "entry_fits (is_stagingPool s) e"
  shows "fe_path e \<notin> set (staged_paths s) \<Longrightarrow> sound_store (StageEntry s e)"
    "store_paths (StageEntry s e) = store_paths s"
    "staged_paths (StageEntry s e) = staged_paths s @ [fe_path e]"
  using assms by (auto simp: sound_store_def StageEntry_def store_inv_def store_paths_pool
      pool_paths_AddEntry AddEntry_inv)

lemma sound_ApplyAdd:
  assumes "sound_store s" "entry_fits (is_pool s) e"
  shows "fe_path e \<notin> set (store_paths s) \<Longrightarrow> sound_store (ApplyAdd s e)"
    "store_paths (ApplyAdd s e) = store_paths s @ [fe_path e]"
    "staged_paths (ApplyAdd s e) = staged_paths s"
  using assms by (auto simp: sound_store_def ApplyAdd_def store_inv_def store_paths_pool
      pool_paths_AddEntry AddEntry_inv)

lemma ApplyRemove_staging: "ApplyRemove s p = Some t \<Longrightarrow> is_stagingPool t = is_stagingPool s"
  by (auto simp: ApplyRemove_def elim!: bind_SomeE split: option.splits)

lemma sound_ApplyRemove:
  assumes "sound_store s" "ApplyRemove s p = Some t"
  shows "sound_store t" "set (store_paths t) = set (store_paths s) - {p}"
    "staged_paths t = staged_paths s"
  using store.remove_distinct [of s p t] store.remove_total [of s p] assms ApplyRemove_staging [of s p t]
  by (auto simp: sound_store_def)

lemma remove_under_staging: "RemoveEntriesUnderPath s p = Some t \<Longrightarrow> is_stagingPool t = is_stagingPool s"
  by (auto simp: RemoveEntriesUnderPath_def elim!: bind_SomeE)

lemma sound_remove_under:
  assumes "sound_store s" "RemoveEntriesUnderPath s p = Some t"
  shows "sound_store t" "set (store_paths t) \<subseteq> set (store_paths s)" "staged_paths t = staged_paths s"
  using store.remove_under_total [of s p] assms remove_under_staging [of s p t]
  by (auto simp: sound_store_def store_paths_def distinct_map_filter)

lemma ApplyRename_staging: "ApplyRename s p q = Some t \<Longrightarrow> is_stagingPool t = is_stagingPool s"
  by (auto simp: ApplyRename_def elim!: bind_SomeE split: option.splits)

lemma ApplyChangeEvent_staging:
  "ApplyChangeEvent sc ev s = Some (t, b) \<Longrightarrow> is_stagingPool t = is_stagingPool s"
  by (auto simp: ApplyChangeEvent_def ApplyAdd_def Let_def elim!: bind_SomeE
      dest!: ApplyRemove_staging ApplyRename_staging
      split: option.splits FileChangeType.splits if_splits)

lemma sound_ApplyChangeEvent:
  assumes "sound_store s" "event_ok sc ev s" "ApplyChangeEvent sc ev s = Some (t, b)"
  shows "sound_store t" "staged_paths t = staged_paths s"
  using ApplyChangeEvent_keeps [of s sc ev t b] assms ApplyChangeEvent_staging [of sc ev s t b]
  by (auto simp: sound_store_def)

section \<open>Removals in flight\<close>

text \<open>A file operation that ran and is not yet recorded, and one not yet applied.\<close>

fun ran_paths :: "FilePc \<Rightarrow> string set" where
  "ran_paths (FRan p _ _) = {p}"
| "ran_paths _ = {}"

fun flight_paths :: "FilePc \<Rightarrow> string set" where
  "flight_paths (FRan p _ _) = {p}"
| "flight_paths (FRecorded p _ _) = {p}"
| "flight_paths _ = {}"

fun in_scan :: "Worker \<Rightarrow> bool" where
  "in_scan (WStarted _) = True"
| "in_scan (WScan _ _) = True"
| "in_scan (WSwap _) = True"
| "in_scan (WPurge _ _) = True"
| "in_scan (WStamp _) = True"
| "in_scan (WSave _ _) = True"
| "in_scan (WScanned _ _) = True"
| "in_scan _ = False"

fun collecting :: "Worker \<Rightarrow> bool" where
  "collecting (WStarted _) = True"
| "collecting (WScan _ _) = True"
| "collecting _ = False"

fun staging_live :: "Worker \<Rightarrow> bool" where
  "staging_live (WScan _ FullScan) = True"
| "staging_live (WSwap _) = True"
| "staging_live _ = False"

fun reapplying :: "Worker \<Rightarrow> string set" where
  "reapplying (WRemoving _ _ _ ps) = set ps"
| "reapplying _ = {}"

definition recorded_paths :: "Service \<Rightarrow> string set" where
  "recorded_paths sv = set (sv_removedDuringScan sv)"

text \<open>A removed path in the live index is about to be taken out; one that a running scan may
  still bring is recorded, or its operation is about to record it.\<close>

definition removal_inv :: "Service \<Rightarrow> string set \<Rightarrow> string set \<Rightarrow> string set \<Rightarrow> bool" where
  "removal_inv sv disk seen gone \<longleftrightarrow>
     sound_store (sv_store sv) \<and> gone \<inter> disk = {} \<and>
     (sv_scanRunning sv \<longleftrightarrow> in_scan (sv_worker sv)) \<and>
     (\<not> sv_scanRunning sv \<longrightarrow> recorded_paths sv = {}) \<and>
     (collecting (sv_worker sv) \<longrightarrow>
        gone \<inter> seen \<subseteq> recorded_paths sv \<union> ran_paths (sv_filePc sv)) \<and>
     (staging_live (sv_worker sv) \<longrightarrow>
        gone \<inter> set (staged_paths (sv_store sv)) \<subseteq> recorded_paths sv \<union> ran_paths (sv_filePc sv)) \<and>
     gone \<inter> set (store_paths (sv_store sv)) \<subseteq>
       recorded_paths sv \<union> reapplying (sv_worker sv) \<union> flight_paths (sv_filePc sv)"

definition world_inv :: "World \<Rightarrow> bool" where
  "world_inv w \<longleftrightarrow> removal_inv (wd_service w) (wd_disk w) (wd_seen w) (wd_gone w)"

lemma ran_flight: "ran_paths pc \<subseteq> flight_paths pc"
  by (cases pc) simp_all

lemma collecting_in_scan: "\<not> in_scan x \<Longrightarrow> \<not> collecting x \<and> \<not> staging_live x"
proof (cases x)
  case (WScan c m)
  then show "\<not> in_scan x \<Longrightarrow> \<not> collecting x \<and> \<not> staging_live x" by simp
qed simp_all

lemma recorded_simps [simp]:
  "recorded_paths (sv\<lparr>sv_worker := x\<rparr>) = recorded_paths sv"
  "recorded_paths (sv\<lparr>sv_store := s\<rparr>) = recorded_paths sv"
  "recorded_paths (sv\<lparr>sv_removedDuringScan := ps\<rparr>) = set ps"
  by (simp_all add: recorded_paths_def)

lemma removal_worker:
  assumes "removal_inv (wd_service w) (wd_disk w) (wd_seen w) (wd_gone w)"
    and "worker_step mon (wd_service w) l sv'" "label_ok l w"
  shows "removal_inv sv' (wd_disk (label_effect l w)) (wd_seen (label_effect l w))
    (wd_gone (label_effect l w))"
  using assms(2)
proof (cases rule: worker_step.cases)
  case (stage_entry c e)
  then show ?thesis
    using assms(1,3) sound_StageEntry [of "sv_store (wd_service w)" e]
    by (auto simp: removal_inv_def scan_target_def recorded_paths_def)
next
  case (apply_entry c e)
  then show ?thesis
    using assms(1,3) sound_ApplyAdd [of "sv_store (wd_service w)" e]
      ran_flight [of "sv_filePc (wd_service w)"]
    by (auto simp: removal_inv_def scan_target_def recorded_paths_def store_paths_pool)
next
  case (finish_remove c completed any p ps s)
  then show ?thesis
    using assms(1) sound_ApplyRemove [of "sv_store (wd_service w)" p s]
    by (auto simp: removal_inv_def recorded_paths_def)
next
  case (purge c p ps s)
  have "sound_store s" "set (store_paths s) \<subseteq> set (store_paths (sv_store (wd_service w)))"
    using sound_remove_under [of "sv_store (wd_service w)" p s] assms(1) purge
    by (auto simp: removal_inv_def)
  then show ?thesis using assms(1) purge by (auto simp: removal_inv_def recorded_paths_def)
next
  case (swap c)
  then show ?thesis
    using assms(1) sound_EndWrite [of "sv_store (wd_service w)"] ran_flight [of "sv_filePc (wd_service w)"]
    by (auto simp: removal_inv_def recorded_paths_def)
next
  case (finish_take c completed)
  then show ?thesis using assms(1) by (auto simp: removal_inv_def recorded_paths_def)
next
  case (start c)
  then show ?thesis using assms(1) by (auto simp: removal_inv_def recorded_paths_def)
qed (use assms(1) in \<open>auto simp: removal_inv_def recorded_paths_def sound_BeginWrite sound_AbortWrite
  sound_SetBuildTimestamp sound_load_into StopMonitoring_def\<close>)

lemma removal_client:
  assumes "removal_inv sv disk seen gone" "client_step sv sv'"
  shows "removal_inv sv' disk seen gone"
  using assms(2,1)
  by (elim client_stepE; hypsubst_thin)
    (auto simp: removal_inv_def recorded_paths_def request_defs)

lemma removal_file:
  assumes "removal_inv (wd_service w) (wd_disk w) (wd_seen w) (wd_gone w)"
    and "file_step (wd_service w) l sv'"
  shows "removal_inv sv' (wd_disk (label_effect l w)) (wd_seen (label_effect l w))
    (wd_gone (label_effect l w))"
  using assms(2)
proof (cases rule: file_step.cases)
  case (recorded path ops r)
  then show ?thesis
    using assms(1) collecting_in_scan [of "sv_worker (wd_service w)"]
    by (auto simp: removal_inv_def recorded_paths_def record_removal_def)
next
  case (removed path ops r s)
  then show ?thesis
    using assms(1) sound_ApplyRemove [of "sv_store (wd_service w)" path s]
    by (auto simp: removal_inv_def recorded_paths_def)
qed (use assms(1) in \<open>auto simp: removal_inv_def recorded_paths_def\<close>)

lemma removal_monitor:
  assumes "removal_inv (wd_service w) (wd_disk w) (wd_seen w) (wd_gone w)"
    and "monitor_step (wd_service w) l sv'"
  shows "removal_inv sv' (wd_disk (label_effect l w)) (wd_seen (label_effect l w))
    (wd_gone (label_effect l w))"
  using assms(2)
proof (cases rule: monitor_step.cases)
  case (live roots scanner ev s changed)
  then show ?thesis
    using assms(1) sound_ApplyChangeEvent [of "sv_store (wd_service w)" scanner ev s changed]
    by (auto simp: removal_inv_def recorded_paths_def)
qed

lemma world_removal_inv: "world mon w \<Longrightarrow> world_inv w"
proof (induction rule: world.induct)
  case (init s disk)
  then show ?case
    by (simp add: world_inv_def removal_inv_def initial_service_def sound_store_def recorded_paths_def)
next
  case (create w p)
  then show ?case by (auto simp: world_inv_def removal_inv_def)
next
  case (delete w p)
  then show ?case by (auto simp: world_inv_def removal_inv_def)
next
  case (step w l sv')
  from step.hyps(2) consider "worker_step mon (wd_service w) l sv'"
    | "l = Tau" "client_step (wd_service w) sv'" | "file_step (wd_service w) l sv'"
    | "monitor_step (wd_service w) l sv'"
    by (auto simp only: service_step_def)
  then show ?case
    using step.IH step.hyps(3) removal_worker removal_client removal_file removal_monitor
    unfolding world_inv_def by cases auto
qed

section \<open>Properties\<close>

text \<open>Where nothing is being removed: no scan runs or finishes, no operation waits to be applied.\<close>

definition settled :: "Service \<Rightarrow> bool" where
  "settled sv \<longleftrightarrow> \<not> sv_scanRunning sv \<and> reapplying (sv_worker sv) = {} \<and>
     flight_paths (sv_filePc sv) = {}"

lemma world_sound: "world mon w \<Longrightarrow> sound_store (sv_store (wd_service w))"
  using world_removal_inv by (simp add: world_inv_def removal_inv_def)

text \<open>C19: A removed file does not come back: a path that a file operation removed, and that
  was not created again, loaded from a file or reported by live monitoring since, is not in
  the live index once no scan and no operation is under way, however the operation interleaved
  with rebuilds, settings changes, reloads and live changes; while one is under way, such a
  path is in the live index only if the operation or the end of the scan is about to take it
  out.\<close>

theorem removed_stays_removed:
  assumes "world mon w"
  shows "(settled (wd_service w) \<longrightarrow> wd_gone w \<inter> set (store_paths (sv_store (wd_service w))) = {}) \<and>
    wd_gone w \<inter> set (store_paths (sv_store (wd_service w))) \<subseteq>
      set (sv_removedDuringScan (wd_service w)) \<union> reapplying (sv_worker (wd_service w)) \<union>
      flight_paths (sv_filePc (wd_service w))"
  using world_removal_inv [OF assms]
  by (auto simp: world_inv_def removal_inv_def settled_def recorded_paths_def)

definition trash_cat :: FileOperation where
  "trash_cat = \<lparr>fo_type = MoveToTrash, fo_path = ''/d/Cat.txt''\<rparr>"

lemma world_step:
  "world mon w \<Longrightarrow> service_step mon (wd_service w) l sv' \<Longrightarrow> label_ok l w \<Longrightarrow>
   w' = (label_effect l w)\<lparr>wd_service := sv'\<rparr> \<Longrightarrow> world mon w'"
  by (simp add: world.step)

definition trashing :: "FilePc \<Rightarrow> string set \<Rightarrow> World" where
  "trashing pc gone = \<lparr>wd_service = (initial_service sample_store)\<lparr>sv_filePc := pc\<rparr>,
     wd_disk = {''/d/a b''}, wd_seen = {}, wd_gone = gone\<rparr>"

lemma sample_sound: "store_inv sample_store" "distinct (store_paths sample_store)"
  "distinct (pool_paths (is_stagingPool sample_store))"
  by (simp_all add: sample_store_inv sample_store_paths)
    (simp add: sample_store_def ApplyAdd_def empty_store_def)

text \<open>A file is trashed: its operation has run and waits to be recorded.\<close>

lemma trashing_world:
  "world mon (trashing (FRan ''/d/Cat.txt'' [] \<lparr>fr_succeeded = [], fr_failed = []\<rparr>) {''/d/Cat.txt''})"
proof -
  let ?r = "\<lparr>fr_succeeded = [], fr_failed = []\<rparr>"
  let ?i = "initial_service sample_store"
  let ?a = "?i\<lparr>sv_fileOpJobs := [JobOperations [trash_cat]]\<rparr>"
  let ?b = "?i\<lparr>sv_filePc := FOps [trash_cat] ?r\<rparr>"
  let ?w = "\<lambda>sv. \<lparr>wd_service = sv, wd_disk = {''/d/a b'', ''/d/Cat.txt''}, wd_seen = {}, wd_gone = {}\<rparr>"
  note eqs = initial_service_def RequestFileOperations_def trash_cat_def trashing_def
  have "client_step ?i ?a"
    using client_step.file_operations [of ?i "[trash_cat]"] by (simp add: eqs)
  moreover have "file_step ?a Tau ?b"
    using file_step.job [of ?a "[trash_cat]" "[]"] by (simp add: eqs)
  moreover have "file_step ?b (FileOpRan ''/d/Cat.txt'') (?b\<lparr>sv_filePc := FRan ''/d/Cat.txt'' [] ?r\<rparr>)"
    using file_step.op_ran [of ?b trash_cat "[]" ?r] by (simp add: eqs)
  moreover have "world mon (?w ?i)"
    using sample_sound by (rule world.init)
  ultimately have "world mon (?w ?b)"
    using world_step [of mon "?w ?a" Tau ?b "?w ?b"] world_step [of mon "?w ?i" Tau ?a "?w ?a"]
    by (simp add: service_step_def)
  moreover have "{''/d/a b'', ''/d/Cat.txt''} - {''/d/Cat.txt''} = {''/d/a b''}" by auto
  ultimately show ?thesis
    using \<open>file_step ?b (FileOpRan _) _\<close>
      world_step [of mon "?w ?b" "FileOpRan ''/d/Cat.txt''" "?b\<lparr>sv_filePc := FRan ''/d/Cat.txt'' [] ?r\<rparr>"]
    by (simp add: service_step_def trashing_def initial_service_def)
qed

theorem removed_stays_removed_witness:
  "{''/d/Cat.txt''} \<inter> set (store_paths sample_store) \<subseteq> {''/d/Cat.txt''} \<and>
   world True (trashing (FRan ''/d/Cat.txt'' [] \<lparr>fr_succeeded = [], fr_failed = []\<rparr>) {''/d/Cat.txt''})"
  using removed_stays_removed [OF trashing_world [of True]] trashing_world [of True]
  by (simp add: trashing_def initial_service_def)



text \<open>A command the worker has begun is a rebuild or a settings change.\<close>

fun typed_worker :: "Worker \<Rightarrow> bool" where
  "typed_worker (WStarted c) \<longleftrightarrow> token_of c \<noteq> None"
| "typed_worker (WScan c m) \<longleftrightarrow> token_of c \<noteq> None"
| "typed_worker (WSwap c) \<longleftrightarrow> token_of c \<noteq> None"
| "typed_worker (WPurge c ps) \<longleftrightarrow> token_of c \<noteq> None"
| "typed_worker (WStamp c) \<longleftrightarrow> token_of c \<noteq> None"
| "typed_worker (WSave c nowNs) \<longleftrightarrow> token_of c \<noteq> None"
| "typed_worker (WScanned c b) \<longleftrightarrow> token_of c \<noteq> None"
| "typed_worker (WRemoving c b any ps) \<longleftrightarrow> token_of c \<noteq> None"
| "typed_worker _ \<longleftrightarrow> True"

lemma typed_worker_step: "typed_worker (sv_worker sv) \<Longrightarrow> worker_step mon sv l sv' \<Longrightarrow> typed_worker (sv_worker sv')"
  by (erule worker_stepE) simp_all

lemma other_steps_worker:
  "client_step sv sv' \<Longrightarrow> sv_worker sv' = sv_worker sv"
  "file_step sv l sv' \<Longrightarrow> sv_worker sv' = sv_worker sv"
  "monitor_step sv l sv' \<Longrightarrow> sv_worker sv' = sv_worker sv"
  by (auto elim!: client_stepE file_stepE monitor_stepE simp: request_defs)

lemma world_typed: "world mon w \<Longrightarrow> typed_worker (sv_worker (wd_service w))"
proof (induction rule: world.induct)
  case (step w l sv')
  from step.hyps(2) show ?case
    using step.IH typed_worker_step [of "wd_service w" mon l sv'] other_steps_worker
    by (auto simp: service_step_def)
qed (simp_all add: initial_service_def)

lemma progress_started:
  assumes "sv_worker sv = WStarted c" "token_of c \<noteq> None"
  shows "\<exists>sv'. worker_step mon sv Tau sv'"
proof (cases "plan_of (sv_needsFullRebuild sv) load_failed 0 c")
  case None
  with assms(2) show ?thesis by (cases c) (simp_all add: fresh_load_def load_failed_def)
next
  case (Some plan)
  then show ?thesis
    using assms(1)
    by (cases plan)
      (blast intro: worker_step.rebuild worker_step.add worker_step.remove worker_step.unchanged)+
qed

lemma progress_removing:
  assumes "sv_worker sv = WRemoving c completed any ps" "store_inv (sv_store sv)"
  shows "\<exists>sv'. worker_step mon sv Tau sv'"
proof (cases ps)
  case Nil
  with assms(1) show ?thesis by (blast intro: worker_step.finish_done)
next
  case (Cons p rest)
  obtain s where "ApplyRemove (sv_store sv) p = Some s"
    using store.remove_total [OF assms(2)] by blast
  with assms(1) Cons show ?thesis by (blast intro: worker_step.finish_remove)
qed

lemma progress_purge:
  assumes "sv_worker sv = WPurge c ps" "store_inv (sv_store sv)"
  shows "\<exists>sv'. worker_step mon sv Tau sv'"
proof (cases ps)
  case Nil
  with assms(1) show ?thesis by (blast intro: worker_step.purge_done)
next
  case (Cons p rest)
  obtain s where "RemoveEntriesUnderPath (sv_store sv) p = Some s"
    using store.remove_under_total [OF assms(2)] by blast
  with assms(1) Cons show ?thesis by (blast intro: worker_step.purge)
qed

lemma worker_progress:
  assumes "typed_worker (sv_worker sv)" "store_inv (sv_store sv)" "sv_worker sv \<noteq> WWait"
  shows "(\<exists>sv'. worker_step mon sv Tau sv') \<or> (\<exists>sv'. worker_step mon sv ScanStart sv')"
proof (cases "sv_worker sv")
  case (WPopped c)
  then show ?thesis
    by (cases c) (metis worker_step.superseded worker_step.start worker_step.reload_take
        worker_step.stop_monitoring worker_step.flush_mark token_of.simps option.distinct(1))+
next
  case (WScan c m)
  then show ?thesis
    by (cases m; cases "is_cancelled sv c") (blast intro: worker_step.scan_cancelled
        worker_step.scan_done worker_step.add_cancelled worker_step.add_done)+
next
  case (WStarted c)
  then show ?thesis using progress_started [OF WStarted] assms(1) by simp
next
  case (WPurge c ps)
  then show ?thesis using progress_purge [OF WPurge assms(2)] by simp
next
  case (WRemoving c b any ps)
  then show ?thesis using progress_removing [OF WRemoving assms(2)] by simp
qed (use assms(3) in \<open>blast intro: worker_step.swap worker_step.stamp worker_step.save
  worker_step.finish_take worker_step.end_busy worker_step.reload_failed\<close>)+


definition in_world :: "bool \<Rightarrow> Service \<Rightarrow> bool" where
  "in_world mon sv \<longleftrightarrow> (\<exists>w. world mon w \<and> wd_service w = sv)"

lemma in_world_step:
  assumes "in_world mon sv" "service_step mon sv l sv'" "l = Tau \<or> l = ScanStart"
  shows "in_world mon sv'"
proof -
  obtain w where w: "world mon w" "wd_service w = sv" using assms(1) by (auto simp: in_world_def)
  have "label_ok l w" using assms(3) by auto
  from world.step [OF w(1) _ this] w(2) assms(2) show ?thesis
    unfolding in_world_def by (intro exI [of _ "(label_effect l w)\<lparr>wd_service := sv'\<rparr>"]) simp
qed

lemma sample_scanning_world: "in_world mon sample_scanning"
proof -
  have "in_world mon (initial_service empty_store)"
    unfolding in_world_def
    by (intro exI conjI, rule world.init [of empty_store mon "{}"])
      (simp_all add: store_paths_pool, simp_all add: empty_store_def)
  then show ?thesis
    using sample_steps [of mon] in_world_step [of mon] unfolding service_step_def by metis
qed


end
