(* ===== verification/Service_Rest.thy ===== *)
theory Service_Rest
  imports Service_Removals
begin

text \<open>
  When the index service is at rest: \<open>Flush\<close> returns only then, and while it waits the thread it
  waits for has a step; after \<open>Shutdown\<close> no thread does anything any more. And when the service
  saves the index: only at the end of scans.
\<close>

section \<open>Rest\<close>

definition worker_rests :: "Service \<Rightarrow> bool" where
  "worker_rests sv \<longleftrightarrow> sv_commands sv = [] \<and> sv_worker sv = WWait"

definition files_rest :: "Service \<Rightarrow> bool" where
  "files_rest sv \<longleftrightarrow> sv_fileOpJobs sv = [] \<and> sv_filePc sv = FWait"

definition no_mark :: "Service \<Rightarrow> bool" where
  "no_mark sv \<longleftrightarrow> CmdFlush \<notin> set (sv_commands sv) \<and> sv_worker sv \<noteq> WPopped CmdFlush"

text \<open>The mark is the last command, or the worker holds it and there is no other.\<close>

definition mark_last :: "Service \<Rightarrow> bool" where
  "mark_last sv \<longleftrightarrow>
     (sv_commands sv \<noteq> [] \<and> last (sv_commands sv) = CmdFlush \<and>
        CmdFlush \<notin> set (butlast (sv_commands sv)) \<and> sv_worker sv \<noteq> WPopped CmdFlush) \<or>
     (sv_commands sv = [] \<and> sv_worker sv = WPopped CmdFlush)"

definition job_mark_last :: "Service \<Rightarrow> bool" where
  "job_mark_last sv \<longleftrightarrow> sv_fileOpJobs sv \<noteq> [] \<and> last (sv_fileOpJobs sv) = JobFlush \<and>
     JobFlush \<notin> set (butlast (sv_fileOpJobs sv))"

definition worker_mark_inv :: "Service \<Rightarrow> bool" where
  "worker_mark_inv sv \<longleftrightarrow> sv_client sv \<noteq> CEnqueue CmdFlush \<and>
     (if sv_client sv = CFlushWorker
      then \<not> sv_shuttingDown sv \<and> (if sv_workerDone sv then worker_rests sv else mark_last sv)
      else no_mark sv \<and>
        (sv_client sv \<in> {CFlushJobs, CFlushFileOps} \<and> \<not> sv_shuttingDown sv \<longrightarrow> worker_rests sv))"

definition file_mark_inv :: "Service \<Rightarrow> bool" where
  "file_mark_inv sv \<longleftrightarrow>
     (if sv_client sv = CFlushFileOps
      then (if sv_fileOpsDone sv then files_rest sv else job_mark_last sv)
      else JobFlush \<notin> set (sv_fileOpJobs sv))"

lemmas mark_defs = worker_mark_inv_def worker_rests_def no_mark_def mark_last_def

lemma file_ops_fields [simp]:
  "sv_workerDone (emit ev sv) = sv_workerDone sv" "sv_fileOpsDone (emit ev sv) = sv_fileOpsDone sv"
  "sv_fileOpJobs (emit ev sv) = sv_fileOpJobs sv"
  by (simp_all add: emit_def)

lemma done_fields [simp]:
  "sv_workerDone (begin_scan sv) = sv_workerDone sv" "sv_workerDone (EndBusy sv) = sv_workerDone sv"
  "sv_workerDone (ReportIndexChanged t k sv) = sv_workerDone sv"
  "sv_workerDone (after_finish mon t c b any sv) = sv_workerDone sv"
  "sv_workerDone (record_removal p sv) = sv_workerDone sv"
  "sv_workerDone (finish_batch t r sv) = sv_workerDone sv"
  "sv_fileOpsDone (begin_scan sv) = sv_fileOpsDone sv" "sv_fileOpsDone (EndBusy sv) = sv_fileOpsDone sv"
  "sv_fileOpsDone (ReportIndexChanged t k sv) = sv_fileOpsDone sv"
  "sv_fileOpsDone (after_finish mon t c b any sv) = sv_fileOpsDone sv"
  "sv_fileOpsDone (record_removal p sv) = sv_fileOpsDone sv"
  "sv_fileOpsDone (finish_batch t r sv) = sv_fileOpsDone sv"
  by (simp_all add: begin_scan_def BeginBusy_def StopMonitoring_def EndBusy_def Let_def
      ReportIndexChanged_def after_finish_def StartMonitoring_def record_removal_def finish_batch_def)

lemma jobs_fields [simp]:
  "sv_fileOpJobs (begin_scan sv) = sv_fileOpJobs sv" "sv_fileOpJobs (EndBusy sv) = sv_fileOpJobs sv"
  "sv_fileOpJobs (ReportIndexChanged t k sv) = sv_fileOpJobs sv"
  "sv_fileOpJobs (after_finish mon t c b any sv) = sv_fileOpJobs sv"
  "sv_fileOpJobs (record_removal p sv) = sv_fileOpJobs sv"
  "sv_fileOpJobs (finish_batch t r sv) = sv_fileOpJobs sv"
  by (simp_all add: begin_scan_def BeginBusy_def StopMonitoring_def EndBusy_def Let_def
      ReportIndexChanged_def after_finish_def StartMonitoring_def record_removal_def finish_batch_def)

section \<open>The worker's mark\<close>

lemma worker_mark_worker: "worker_mark_inv sv \<Longrightarrow> worker_step mon sv l sv' \<Longrightarrow> worker_mark_inv sv'"
  by (elim worker_stepE)
    (auto simp: mark_defs StopMonitoring_def split: if_splits dest: in_set_butlastD)

lemma worker_mark_client: "worker_mark_inv sv \<Longrightarrow> client_step sv sv' \<Longrightarrow> worker_mark_inv sv'"
  by (elim client_stepE; hypsubst_thin) (auto simp: mark_defs request_defs split: if_splits)

lemma worker_mark_file: "worker_mark_inv sv \<Longrightarrow> file_step sv l sv' \<Longrightarrow> worker_mark_inv sv'"
  by (elim file_stepE) (auto simp: mark_defs split: if_splits)

lemma worker_mark_monitor: "worker_mark_inv sv \<Longrightarrow> monitor_step sv l sv' \<Longrightarrow> worker_mark_inv sv'"
  by (elim monitor_stepE) (auto simp: mark_defs split: if_splits)

lemma worker_mark_initial: "worker_mark_inv (initial_service s)"
  by (simp add: mark_defs initial_service_def)

lemma worker_mark_reachable: "reachable mon sv \<Longrightarrow> worker_mark_inv sv"
  using reachable_invariant [of mon sv worker_mark_inv, OF _ worker_mark_initial worker_mark_worker
      worker_mark_client worker_mark_file worker_mark_monitor] .

section \<open>The mark of the file operations\<close>

lemmas file_mark_defs = file_mark_inv_def files_rest_def job_mark_last_def

lemma file_mark_worker: "file_mark_inv sv \<Longrightarrow> worker_step mon sv l sv' \<Longrightarrow> file_mark_inv sv'"
  by (elim worker_stepE) (auto simp: file_mark_defs StopMonitoring_def split: if_splits)

lemma file_mark_client: "file_mark_inv sv \<Longrightarrow> client_step sv sv' \<Longrightarrow> file_mark_inv sv'"
  by (elim client_stepE; hypsubst_thin) (auto simp: file_mark_defs request_defs split: if_splits)

lemma file_mark_file: "file_mark_inv sv \<Longrightarrow> file_step sv l sv' \<Longrightarrow> file_mark_inv sv'"
  by (elim file_stepE) (auto simp: file_mark_defs split: if_splits)

lemma file_mark_monitor: "file_mark_inv sv \<Longrightarrow> monitor_step sv l sv' \<Longrightarrow> file_mark_inv sv'"
  by (elim monitor_stepE) (auto simp: file_mark_defs split: if_splits)

lemma file_mark_initial: "file_mark_inv (initial_service s)"
  by (simp add: file_mark_defs initial_service_def)

lemma file_mark_reachable: "reachable mon sv \<Longrightarrow> file_mark_inv sv"
  using reachable_invariant [of mon sv file_mark_inv, OF _ file_mark_initial file_mark_worker
      file_mark_client file_mark_file file_mark_monitor] .

section \<open>Well-formed stores\<close>

lemma store_inv_AddEntry:
  "store_inv s \<Longrightarrow> entry_fits (is_pool s) e \<Longrightarrow> store_inv (ApplyAdd s e)"
  "store_inv s \<Longrightarrow> entry_fits (is_stagingPool s) e \<Longrightarrow> store_inv (StageEntry s e)"
  by (simp_all add: store_inv_def ApplyAdd_def StageEntry_def AddEntry_inv)

lemma store_inv_partial:
  "store_inv s \<Longrightarrow> ApplyRemove s p = Some t \<Longrightarrow> store_inv t"
  "store_inv s \<Longrightarrow> RemoveEntriesUnderPath s p = Some t \<Longrightarrow> store_inv t"
  using store.remove_total [of s p] store.remove_under_total [of s p] by auto

lemma store_inv_simple:
  "store_inv s \<Longrightarrow> store_inv (BeginWrite s)" "store_inv s \<Longrightarrow> store_inv (AbortWrite s)"
  "store_inv s \<Longrightarrow> store_inv (EndWrite s)" "store_inv (SetBuildTimestamp s ts) = store_inv s"
  "store_inv s \<Longrightarrow> pool_inv (lr_pool r) \<Longrightarrow> store_inv (load_into r s)"
  by (simp_all add: store_inv_def BeginWrite_def AbortWrite_def EndWrite_def SetBuildTimestamp_def
      load_into_def LoadPool_def)

lemma store_inv_event:
  assumes "store_inv s" "event_ok scanner ev s" "ApplyChangeEvent scanner ev s = Some (t, b)"
  shows "store_inv t"
proof (cases "fc_type ev")
  case Renamed
  then have "store_fits s (renamed_entry (fc_path ev))" using assms(2) by (simp add: event_ok_def)
  with Renamed assms(3) ApplyRename_refines [OF assms(1), of "fc_path ev" "fc_oldPath ev"] show ?thesis
    by (auto simp: ApplyChangeEvent_def renamed_entry_def)
next
  case Modified
  obtain u where u: "ApplyRemove s (fc_path ev) = Some u" "store_inv u"
    using store.remove_total [OF assms(1)] by blast
  then have "Rescan scanner (fc_path ev) = Some e \<Longrightarrow> store_fits u e" for e
    using assms(2) ApplyRemove_fits [OF u(1)] Modified by (simp add: event_ok_def)
  with u Modified assms(3) show ?thesis
    by (auto simp: ApplyChangeEvent_def ApplyAdd_refines(1) split: option.splits)
qed (use assms store_inv_partial(1) [OF assms(1)] in
  \<open>auto simp: ApplyChangeEvent_def event_ok_def Let_def ApplyAdd_refines(1) elim!: bind_SomeE split: option.splits\<close>)

lemma store_inv_reachable: "reachable mon sv \<Longrightarrow> store_inv (sv_store sv)"
proof (rule reachable_invariant [of mon sv "\<lambda>sv. store_inv (sv_store sv)"])
  fix sv l sv' assume "store_inv (sv_store sv)" "worker_step mon sv l sv'"
  then show "store_inv (sv_store sv')"
    by (elim worker_stepE)
      (auto simp: store_inv_simple store_inv_AddEntry StopMonitoring_def intro: store_inv_partial)
next
  fix sv sv' assume "store_inv (sv_store sv)" "client_step sv sv'"
  then show "store_inv (sv_store sv')" by (elim client_stepE) (auto simp: request_defs)
next
  fix sv l sv' assume "store_inv (sv_store sv)" "file_step sv l sv'"
  then show "store_inv (sv_store sv')" by (elim file_stepE) (auto intro: store_inv_partial)
next
  fix sv l sv' assume "store_inv (sv_store sv)" "monitor_step sv l sv'"
  then show "store_inv (sv_store sv')" by (elim monitor_stepE) (auto intro: store_inv_event)
qed (simp_all add: initial_service_def)

lemma typed_reachable: "reachable mon sv \<Longrightarrow> typed_worker (sv_worker sv)"
proof (rule reachable_invariant [of mon sv "\<lambda>sv. typed_worker (sv_worker sv)"])
  fix sv l sv' assume "typed_worker (sv_worker sv)" "worker_step mon sv l sv'"
  then show "typed_worker (sv_worker sv')" by (rule typed_worker_step)
qed (auto simp: initial_service_def other_steps_worker)

section \<open>What Flush promises\<close>

lemma file_progress:
  assumes "store_inv (sv_store sv)" "\<not> files_rest sv"
  shows "\<exists>l sv'. file_step sv l sv'"
proof (cases "sv_filePc sv")
  case FWait
  with assms(2) obtain j js where "sv_fileOpJobs sv = j # js"
    by (auto simp: files_rest_def neq_Nil_conv)
  with FWait show ?thesis by (cases j) (blast intro: file_step.job file_step.job_mark)+
next
  case (FOps ops r)
  then show ?thesis by (cases ops) (blast intro: file_step.batch_done file_step.op_failed)+
next
  case (FRecorded path ops r)
  moreover obtain s where "ApplyRemove (sv_store sv) path = Some s"
    using store.remove_total [OF assms(1)] by blast
  ultimately show ?thesis by (blast intro: file_step.removed)
qed (blast intro: file_step.recorded)

text \<open>When \<open>Flush\<close> returns, every file operation asked for has been carried out and reported, and
  until shutdown every command has been carried out and the service has reported that it is
  idle. While it waits, the thread it waits for has a step.\<close>

lemma flush_waits_for_all:
  assumes "reachable mon sv"
  shows "(sv_client sv = CFlushFileOps \<and> sv_fileOpsDone sv \<longrightarrow>
      files_rest sv \<and> (\<not> sv_shuttingDown sv \<longrightarrow> worker_rests sv \<and> \<not> sv_busyReported sv)) \<and>
    (sv_client sv = CFlushWorker \<and> \<not> sv_workerDone sv \<longrightarrow>
      (\<exists>l sv'. worker_step mon sv l sv' \<and> (l = Tau \<or> l = ScanStart))) \<and>
    (sv_client sv = CFlushFileOps \<and> \<not> sv_fileOpsDone sv \<longrightarrow> (\<exists>l sv'. file_step sv l sv'))"
proof (intro conjI impI)
  note worker = worker_mark_reachable [OF assms] and files = file_mark_reachable [OF assms]
  note inv = store_inv_reachable [OF assms] typed_reachable [OF assms]
  show "\<exists>l sv'. worker_step mon sv l sv' \<and> (l = Tau \<or> l = ScanStart)"
    if "sv_client sv = CFlushWorker \<and> \<not> sv_workerDone sv"
  proof (cases "sv_worker sv = WWait")
    case True
    with that worker obtain c cs where "sv_commands sv = c # cs" "\<not> sv_shuttingDown sv"
      by (auto simp: mark_defs neq_Nil_conv)
    with True show ?thesis using worker_step.pop [of sv c cs mon] by blast
  next
    case False
    then show ?thesis using worker_progress [of sv mon] inv by blast
  qed
  show "\<exists>l sv'. file_step sv l sv'" if "sv_client sv = CFlushFileOps \<and> \<not> sv_fileOpsDone sv"
    using that files by (intro file_progress [OF inv(1)]) (auto simp: file_mark_defs)
  show "files_rest sv" if "sv_client sv = CFlushFileOps \<and> sv_fileOpsDone sv"
    using that files by (simp add: file_mark_inv_def)
  show "worker_rests sv" if "sv_client sv = CFlushFileOps \<and> sv_fileOpsDone sv" "\<not> sv_shuttingDown sv"
    using that worker by (simp add: worker_mark_inv_def)
  with busy_reachable [OF assms] show "\<not> sv_busyReported sv"
    if "sv_client sv = CFlushFileOps \<and> sv_fileOpsDone sv" "\<not> sv_shuttingDown sv"
    using that by (auto simp: busy_inv_def owed_def worker_rests_def)
qed

section \<open>Shutdown\<close>

text \<open>The service after \<open>Shutdown\<close> has joined both threads.\<close>

definition stopped :: "Service \<Rightarrow> bool" where
  "stopped sv \<longleftrightarrow> sv_shuttingDown sv \<and> sv_fileOpsStopping sv \<and> sv_monitoring sv = None \<and>
     sv_worker sv = WWait \<and> files_rest sv"

text \<open>No step is left but requests, which are refused: nothing is changed or reported any more.\<close>

lemma stopped_for_good:
  assumes "stopped sv" "service_step mon sv l sv'"
  shows "stopped sv' \<and> sv_store sv' = sv_store sv \<and> sv_events sv' = sv_events sv"
  using assms unfolding service_step_def
  by (elim disjE conjE worker_stepE client_stepE file_stepE monitor_stepE)
    (auto simp: stopped_def files_rest_def request_defs)

section \<open>What is saved\<close>

definition saves :: "Event list \<Rightarrow> string option list" where
  "saves evs = concat (map (\<lambda>ev. case ev of EvSave bytes \<Rightarrow> [bytes] | _ \<Rightarrow> []) evs)"

lemma saves_simps [simp]:
  "saves [] = []" "saves (EvSave bytes # evs) = bytes # saves evs" "saves (EvBusy b # evs) = saves evs"
  "saves (EvIndexChanged c # evs) = saves evs" "saves (EvFileOps r # evs) = saves evs"
  "saves (EvLiveChange # evs) = saves evs" "saves (evs @ evs') = saves evs @ saves evs'"
  by (simp_all add: saves_def)

lemma saves_fields [simp]:
  "saves (sv_events (ReportIndexChanged t k sv)) = saves (sv_events sv)"
  "saves (sv_events (begin_scan sv)) = saves (sv_events sv)"
  "saves (sv_events (EndBusy sv)) = saves (sv_events sv)"
  "saves (sv_events (finish_batch t r sv)) = saves (sv_events sv)"
  by (simp_all add: ReportIndexChanged_def begin_scan_def BeginBusy_def StopMonitoring_def EndBusy_def
      finish_batch_def Let_def)

text \<open>The service saves the index at the end of a scan or a removal of roots, and after it when
  file operations ran meanwhile, and at no other time: neither live changes nor the file
  operations that run outside of a scan reach the index file.\<close>

lemma saves_only_after_scans:
  assumes "service_step mon sv l sv'" "saves (sv_events sv') \<noteq> saves (sv_events sv)"
  shows "\<exists>c. (\<exists>nowNs. sv_worker sv = WSave c nowNs) \<or> sv_worker sv = WRemoving c True True []"
proof -
  have "saves (sv_events (after_finish mon t c completed any sv)) = saves (sv_events sv)"
    if "\<not> (any \<and> completed)" for t c completed any
    using that by (auto simp: after_finish_def Let_def StartMonitoring_def StopMonitoring_def)
  with assms show ?thesis
    unfolding service_step_def
    by (elim disjE conjE worker_stepE client_stepE file_stepE monitor_stepE)
      (auto simp: request_defs split: if_splits)
qed

end
