(* ===== verification/Live_Tracking.thy ===== *)
theory Live_Tracking
  imports Indexer_Core Inotify_Watcher Fanotify_Monitor
begin

text \<open>
  From the kernel to the index: the changes a monitor reports are applied by the indexer one after
  the other, each re-scanned when its turn comes (\<open>Indexer::StartLiveMonitoring\<close>'s callback). What
  the indexer relies on is the interface \<open>change_monitor\<close>, which both monitors provide; inside it
  the index is shown to end where the kernel events end, whatever the re-scans met on the way.
\<close>

section \<open>A stream of changes\<close>

text \<open>Each change with the scanner as its re-scan finds the file system.\<close>

fun apply_changes :: "(Scanner \<times> FileChangeEvent) list \<Rightarrow> IndexStore \<Rightarrow> IndexStore option" where
  "apply_changes [] s = Some s"
| "apply_changes ((scanner, ev) # rest) s =
     do { (t, notify) \<leftarrow> ApplyChangeEvent scanner ev s; apply_changes rest t }"

text \<open>The entries a stream adds to the pool.\<close>

definition added_by :: "Scanner \<Rightarrow> FileChangeEvent \<Rightarrow> FileEntry list" where
  "added_by scanner ev =
     (case fc_type ev of
        Removed \<Rightarrow> []
      | Renamed \<Rightarrow> [renamed_entry (fc_path ev)]
      | _ \<Rightarrow> (case Rescan scanner (fc_path ev) of None \<Rightarrow> [] | Some e \<Rightarrow> [e]))"

definition added_by_all :: "(Scanner \<times> FileChangeEvent) list \<Rightarrow> FileEntry list" where
  "added_by_all cs = concat (map (\<lambda>(scanner, ev). added_by scanner ev) cs)"

text \<open>A change that makes sense where it is reported.\<close>

definition change_ok :: "FileChangeEvent \<Rightarrow> string set \<Rightarrow> bool" where
  "change_ok ev ps \<longleftrightarrow>
     (case fc_type ev of
        Added \<Rightarrow> fc_path ev \<notin> ps
      | Removed \<Rightarrow> True
      | Renamed \<Rightarrow> fc_path ev \<notin> ps - {fc_oldPath ev}
      | Modified \<Rightarrow> fc_path ev \<in> ps)"

fun changes_ok :: "FileChangeEvent list \<Rightarrow> string set \<Rightarrow> bool" where
  "changes_ok [] ps \<longleftrightarrow> True"
| "changes_ok (ev # evs) ps \<longleftrightarrow> change_ok ev ps \<and> changes_ok evs (change_effect ev ps)"

lemma changes_effect_Cons [simp]:
  "changes_effect (ev # evs) ps = changes_effect evs (change_effect ev ps)"
  by (simp add: changes_effect_def)

lemma changes_effect_append:
  "changes_effect (evs @ fs) ps = changes_effect fs (changes_effect evs ps)"
  by (simp add: changes_effect_def)

lemma changes_ok_append [simp]:
  "changes_ok (evs @ fs) ps \<longleftrightarrow> changes_ok evs ps \<and> changes_ok fs (changes_effect evs ps)"
  by (induction evs arbitrary: ps) auto

text \<open>The paths that a stream takes away.\<close>

definition lost_paths :: "FileChangeEvent \<Rightarrow> string set" where
  "lost_paths ev =
     (case fc_type ev of Removed \<Rightarrow> {fc_path ev} | Renamed \<Rightarrow> {fc_oldPath ev} | _ \<Rightarrow> {})"

definition lost_later :: "(Scanner \<times> FileChangeEvent) list \<Rightarrow> string set" where
  "lost_later cs = (\<Union>(scanner, ev) \<in> set cs. lost_paths ev)"

text \<open>What is asked of the re-scans: one that finds something finds the path it was asked for, and one
  that finds nothing is explained by a change that is still to come.\<close>

definition rescan_ok :: "Scanner \<Rightarrow> FileChangeEvent \<Rightarrow> string set \<Rightarrow> bool" where
  "rescan_ok scanner ev later \<longleftrightarrow>
     fc_type ev \<in> {Added, Modified} \<longrightarrow>
     (case Rescan scanner (fc_path ev) of
        None \<Rightarrow> fc_path ev \<in> later
      | Some e \<Rightarrow> fe_path e = fc_path ev)"

fun rescans_ok :: "(Scanner \<times> FileChangeEvent) list \<Rightarrow> bool" where
  "rescans_ok [] \<longleftrightarrow> True"
| "rescans_ok ((scanner, ev) # rest) \<longleftrightarrow> rescan_ok scanner ev (lost_later rest) \<and> rescans_ok rest"

section \<open>Room in the pool\<close>

definition pool_sizes :: "IndexPool \<Rightarrow> nat \<times> nat \<times> nat" where
  "pool_sizes p = (length (ip_pathPool p), length (ip_nameLowerPool p), length (ip_nameTokenSpans p))"

lemma grow_fits_cong: "pool_sizes p = pool_sizes q \<Longrightarrow> grow_fits p es = grow_fits q es"
  by (simp add: grow_fits_def pool_sizes_def)

lemma entry_fits_cong: "pool_sizes p = pool_sizes q \<Longrightarrow> entry_fits p e = entry_fits q e"
  by (simp add: entry_fits_def pool_sizes_def)

lemma grow_fits_Cons:
  assumes "grow_fits p (e # es)"
  shows "entry_fits p e" "grow_fits (AddEntry p e) es"
proof -
  have "length (fe_name e) \<le> length (fe_path e)"
    using assms by (auto simp: grow_fits_def build_fits_def dest: suffix_length_le)
  with assms show "entry_fits p e" "grow_fits (AddEntry p e) es"
    by (simp_all add: grow_fits_def build_fits_def entry_fits_def AddEntry_sizes)
qed

lemma ApplyRemove_sizes: "ApplyRemove s p = Some t \<Longrightarrow> pool_sizes (is_pool t) = pool_sizes (is_pool s)"
  by (auto simp: ApplyRemove_def pool_sizes_def bind_eq_Some_conv
      split: option.splits dest!: MarkDeleted_shape)

lemma ApplyRename_sizes:
  "ApplyRename s old new = Some t \<Longrightarrow>
   pool_sizes (is_pool t) = pool_sizes (AddEntry (is_pool s) (renamed_entry new))"
  by (auto simp: ApplyRename_def pool_sizes_def renamed_entry_def bind_eq_Some_conv AddEntry_sizes
      split: option.splits dest!: MarkDeleted_shape)

lemma ApplyChangeEvent_sizes:
  assumes "ApplyChangeEvent scanner ev s = Some (t, b)"
  shows "pool_sizes (is_pool t) = pool_sizes (pool_of (added_by scanner ev) (is_pool s))"
proof (cases "fc_type ev")
  case Modified
  then obtain u where u: "ApplyRemove s (fc_path ev) = Some u"
    "t = (case Rescan scanner (fc_path ev) of None \<Rightarrow> u | Some e \<Rightarrow> ApplyAdd u e)"
    using assms by (auto simp: ApplyChangeEvent_def Let_def bind_eq_Some_conv)
  from ApplyRemove_sizes [OF u(1)] show ?thesis
    by (simp add: u(2) Modified added_by_def pool_of_def pool_sizes_def ApplyAdd_def AddEntry_sizes
        split: option.splits)
qed (use assms in \<open>auto simp: ApplyChangeEvent_def added_by_def pool_of_def ApplyAdd_def Let_def
      bind_eq_Some_conv dest!: ApplyRemove_sizes ApplyRename_sizes split: option.splits\<close>)

section \<open>One change\<close>

lemma event_ok_stream:
  assumes "change_ok ev ps" "rescan_ok scanner ev later" "set (store_paths s) \<subseteq> ps"
    and "grow_fits (is_pool s) (added_by scanner ev @ es)"
  shows "event_ok scanner ev s"
proof (cases "fc_type ev")
  case Removed
  then show ?thesis by (simp add: event_ok_def)
next
  case Renamed
  then have "entry_fits (is_pool s) (renamed_entry (fc_path ev))"
    using assms(4) by (auto simp: added_by_def dest: grow_fits_Cons)
  with Renamed assms(1,3) show ?thesis
    by (auto simp: event_ok_def change_ok_def store_fits_def)
next
  case Added
  then have "Rescan scanner (fc_path ev) = Some e \<Longrightarrow> entry_fits (is_pool s) e" for e
    using assms(4) by (auto simp: added_by_def dest: grow_fits_Cons)
  with Added assms(1-3) show ?thesis
    by (auto simp: event_ok_def change_ok_def rescan_ok_def store_fits_def)
next
  case Modified
  then have "Rescan scanner (fc_path ev) = Some e \<Longrightarrow> entry_fits (is_pool s) e" for e
    using assms(4) by (auto simp: added_by_def dest: grow_fits_Cons)
  with Modified assms(2) show ?thesis
    by (auto simp: event_ok_def rescan_ok_def store_fits_def)
qed

lemma grow_fits_rest: "grow_fits p (as @ es) \<Longrightarrow> grow_fits (pool_of as p) es"
  by (induction as arbitrary: p) (auto simp: pool_of_def dest: grow_fits_Cons)

text \<open>The index follows, up to the paths that are about to go.\<close>

lemma ApplyChangeEvent_follows:
  assumes s: "store_inv s" "distinct (store_paths s)"
    and ok: "change_ok ev ps" "rescan_ok scanner ev later"
    and near: "set (store_paths s) \<subseteq> ps" "ps - set (store_paths s) \<subseteq> lost_paths ev \<union> later"
    and fits: "grow_fits (is_pool s) (added_by scanner ev @ es)"
  shows "\<exists>t b. ApplyChangeEvent scanner ev s = Some (t, b) \<and> store_inv t \<and> distinct (store_paths t) \<and>
    set (store_paths t) \<subseteq> change_effect ev ps \<and> change_effect ev ps - set (store_paths t) \<subseteq> later \<and>
    grow_fits (is_pool t) es"
proof -
  have "event_ok scanner ev s" using ok near(1) fits by (rule event_ok_stream)
  from ApplyChangeEvent_step [OF s this] obtain t b where t: "ApplyChangeEvent scanner ev s = Some (t, b)"
    "store_inv t" "distinct (store_paths t)"
    "set (store_paths t) = paths_after ev (Rescan scanner (fc_path ev)) (set (store_paths s))"
    by blast
  have "grow_fits (is_pool t) es"
    using grow_fits_rest [OF fits] grow_fits_cong [OF ApplyChangeEvent_sizes [OF t(1)]] by blast
  moreover have "set (store_paths t) \<subseteq> change_effect ev ps"
    "change_effect ev ps - set (store_paths t) \<subseteq> later"
    using near ok unfolding t(4)
    by (cases "fc_type ev"; auto simp: paths_after_def change_effect_def lost_paths_def change_ok_def
        rescan_ok_def split: if_splits option.splits)+
  ultimately show ?thesis using t(1-3) by blast
qed

lemma apply_changes_follows:
  assumes "store_inv s" "distinct (store_paths s)" "changes_ok (map snd cs) ps" "rescans_ok cs"
    and "set (store_paths s) \<subseteq> ps" "ps - set (store_paths s) \<subseteq> lost_later cs"
    and "grow_fits (is_pool s) (added_by_all cs)"
  shows "\<exists>t. apply_changes cs s = Some t \<and> store_inv t \<and> distinct (store_paths t) \<and>
    set (store_paths t) = changes_effect (map snd cs) ps"
  using assms
proof (induction cs arbitrary: s ps)
  case Nil
  then show ?case by (auto simp: lost_later_def)
next
  case (Cons c cs)
  obtain scanner ev where c: "c = (scanner, ev)" by (cases c)
  have "\<exists>t b. ApplyChangeEvent scanner ev s = Some (t, b) \<and> store_inv t \<and> distinct (store_paths t) \<and>
      set (store_paths t) \<subseteq> change_effect ev ps \<and> change_effect ev ps - set (store_paths t) \<subseteq> lost_later cs \<and>
      grow_fits (is_pool t) (added_by_all cs)"
    by (rule ApplyChangeEvent_follows)
      (use Cons.prems in \<open>auto simp: c lost_later_def added_by_all_def\<close>)
  then obtain t b where t: "ApplyChangeEvent scanner ev s = Some (t, b)" "store_inv t" "distinct (store_paths t)"
      "set (store_paths t) \<subseteq> change_effect ev ps" "change_effect ev ps - set (store_paths t) \<subseteq> lost_later cs"
      "grow_fits (is_pool t) (added_by_all cs)"
    by blast
  have "changes_ok (map snd cs) (change_effect ev ps)" "rescans_ok cs"
    using Cons.prems(3,4) by (simp_all add: c)
  from Cons.IH [OF t(2,3) this t(4-6)] show ?case
    by (simp add: c t(1))
qed

section \<open>The interface of the monitors\<close>

text \<open>
  What the indexer relies on (\<open>IChangeMonitor\<close>): the changes reported for what the kernel delivered
  say what the kernel said, and each makes sense where it is reported.
\<close>

locale change_monitor =
  fixes reports :: "'k list \<Rightarrow> FileChangeEvent list"
    and kernel_paths :: "'k list \<Rightarrow> string set \<Rightarrow> string set"
    and sound :: "'k list \<Rightarrow> string set \<Rightarrow> bool"
  assumes reports_effect: "sound ks ps \<Longrightarrow> changes_effect (reports ks) ps = kernel_paths ks ps"
    and reports_ok: "sound ks ps \<Longrightarrow> changes_ok (reports ks) ps"
begin

lemma index_tracks:
  assumes "store_inv s" "distinct (store_paths s)" "sound ks (set (store_paths s))"
    and "map snd cs = reports ks" "rescans_ok cs" "grow_fits (is_pool s) (added_by_all cs)"
  shows "\<exists>t. apply_changes cs s = Some t \<and> store_inv t \<and> distinct (store_paths t) \<and>
    set (store_paths t) = kernel_paths ks (set (store_paths s))"
  using apply_changes_follows [OF assms(1,2), of cs "set (store_paths s)"] assms(3-6)
    reports_effect [OF assms(3)] reports_ok [OF assms(3)]
  by simp

end

section \<open>The inotify monitor\<close>

text \<open>The kernel reports what happened to a set of paths: what is created or comes in is new, and what is
  written exists.\<close>

definition event_fits :: "WatchTable \<Rightarrow> InotifyEvent \<Rightarrow> string set \<Rightarrow> bool" where
  "event_fits w ev ps \<longleftrightarrow>
     (ie_mask ev \<in> {IN_CREATE, IN_MOVED_TO} \<longrightarrow> event_path w ev \<notin> ps) \<and>
     (ie_mask ev \<in> {IN_MODIFY, IN_CLOSE_WRITE} \<longrightarrow> event_path w ev \<in> ps)"

fun events_fit :: "WatchTable \<Rightarrow> InotifyEvent list \<Rightarrow> string set \<Rightarrow> bool" where
  "events_fit w [] ps \<longleftrightarrow> True"
| "events_fit w (ev # evs) ps \<longleftrightarrow> event_fits w ev ps \<and> events_fit w evs (kernel_effect w ev ps)"

lemma HandleEvent_changes_ok:
  assumes "file_event w ev" "mo_watches (ba_monitor b) = w" "files_pending b"
    and "well_paired w (pending_paths b) (ev # evs)" "changes_ok (ba_changes b) s0"
    and "event_fits w ev (changes_effect (ba_changes b) s0 - ran (pending_paths b))"
  shows "changes_ok (ba_changes (HandleEvent env ev b)) s0"
proof -
  note h = HandleEvent_file [OF assms(1,2), of env]
  have inj: "\<And>c d p. pending_paths b c = Some p \<Longrightarrow> pending_paths b d = Some p \<Longrightarrow> c = d"
    using assms(3) by (auto simp: files_pending_def)
  consider "ie_mask ev = IN_MOVED_FROM" | (arrive) p where "ie_mask ev = IN_MOVED_TO"
      "ba_pendingMovedFrom b (ie_cookie ev) = Some p"
    | (come) "ie_mask ev = IN_MOVED_TO" "ba_pendingMovedFrom b (ie_cookie ev) = None"
    | (plain) "ie_mask ev \<noteq> IN_MOVED_FROM" "ie_mask ev \<noteq> IN_MOVED_TO" by fastforce
  then show ?thesis
  proof cases
    case 1
    then show ?thesis using assms(5) by (simp add: h)
  next
    case (arrive p)
    have p: "pending_paths b (ie_cookie ev) = Some (pm_path p)"
      using arrive(2) by (simp add: pending_paths_def)
    then have "event_path w ev \<notin> ran (pending_paths b) - {pm_path p}"
      using assms(4) arrive(1) ran_remove [of "pending_paths b", OF inj p] by simp
    with assms(5,6) arrive show ?thesis
      by (auto simp: h report_def change_ok_def event_fits_def)
  next
    case come
    then have "(pending_paths b)(ie_cookie ev := None) = pending_paths b"
      by (auto simp: pending_paths_def)
    with assms(4-6) come show ?thesis
      by (auto simp: h report_def change_ok_def event_fits_def added_event_def)
  next
    case plain
    with assms(4) have "event_path w ev \<notin> ran (pending_paths b)" by simp
    with assms(5,6) plain file_event_cases [OF assms(1)] show ?thesis
      by (auto simp: h report_def change_ok_def event_fits_def added_event_def removed_event_def)
  qed
qed

lemma HandleEvents_changes_ok:
  assumes "mo_watches (ba_monitor b) = w" "files_pending b" "well_paired w (pending_paths b) (map snd events)"
    and "changes_ok (ba_changes b) s0"
    and "events_fit w (map snd events) (changes_effect (ba_changes b) s0 - ran (pending_paths b))"
  shows "changes_ok (ba_changes (HandleEvents events b)) s0"
  using assms
proof (induction events arbitrary: b)
  case (Cons ee events)
  obtain env ev where ee: "ee = (env, ev)" by (cases ee)
  have ev: "file_event w ev" "well_paired w (pending_paths b) (ev # map snd events)"
    using Cons.prems(3) ee by simp_all
  note next_state = HandleEvent_tracks [OF ev(1) Cons.prems(1,2) ev(2) refl, of env]
  have "changes_ok (ba_changes (HandleEvent env ev b)) s0"
    by (rule HandleEvent_changes_ok [OF ev(1) Cons.prems(1,2) ev(2)]) (use Cons.prems ee in simp_all)
  with next_state(1-3) Cons.prems(5) show ?case
    using Cons.IH [of "HandleEvent env ev b"] by (simp add: ee next_state(4))
qed simp

definition batch_fits :: "Monitor \<Rightarrow> (WatchEnv \<times> InotifyEvent) list \<times> u32 list \<Rightarrow> string set \<Rightarrow> bool" where
  "batch_fits m b ps \<longleftrightarrow>
     well_paired (mo_watches m) Map.empty (map snd (fst b)) \<and>
     set (snd b) = dom (ba_pendingMovedFrom (HandleEvents (fst b) (begin_batch m))) \<and>
     events_fit (mo_watches m) (map snd (fst b)) ps"

lemma removed_changes_ok [simp]: "changes_ok (map (\<lambda>p. removed_event (pm_path p)) ms) ps"
  by (induction ms arbitrary: ps) (simp_all add: change_ok_def removed_event_def)

lemma RunBatch_changes_ok:
  assumes "batch_fits m b ps"
  shows "changes_ok (ba_changes (RunBatch (fst b) (snd b) m)) ps"
proof -
  let ?b = "HandleEvents (fst b) (begin_batch m)"
  let ?ms = "map (\<lambda>c. the (ba_pendingMovedFrom ?b c)) (snd b)"
  have p0: "pending_paths (begin_batch m) = Map.empty" "files_pending (begin_batch m)"
    by (simp_all add: pending_paths_def begin_batch_def files_pending_def)
  have "changes_ok (ba_changes ?b) ps"
    using assms p0 HandleEvents_changes_ok [of "begin_batch m" "mo_watches m" "fst b" ps]
    by (simp add: batch_fits_def begin_batch_def)
  moreover have "files_pending ?b"
    using HandleEvents_tracks [of "begin_batch m" "mo_watches m" "fst b" ps] assms p0
    by (simp add: batch_fits_def begin_batch_def)
  then have "\<forall>p \<in> set ?ms. \<not> pm_isDir p"
    using assms by (force simp: batch_fits_def files_pending_def ran_def dom_def)
  ultimately show ?thesis
    using FinishBatch_files [of ?ms ?b] by (simp add: RunBatch_def Let_def del: map_map)
qed

text \<open>A run of the monitor, batch after batch.\<close>

fun batches_fit :: "Monitor \<Rightarrow> ((WatchEnv \<times> InotifyEvent) list \<times> u32 list) list \<Rightarrow> string set \<Rightarrow> bool" where
  "batches_fit m [] ps \<longleftrightarrow> True"
| "batches_fit m (b # bs) ps \<longleftrightarrow>
     batch_fits m b ps \<and>
     batches_fit (ba_monitor (RunBatch (fst b) (snd b) m)) bs
       (fold (kernel_effect (mo_watches m)) (map snd (fst b)) ps)"

definition inotify_paths ::
  "Monitor \<Rightarrow> ((WatchEnv \<times> InotifyEvent) list \<times> u32 list) list \<Rightarrow> string set \<Rightarrow> string set" where
  "inotify_paths m bs ps = fold (kernel_effect (mo_watches m)) (map snd (concat (map fst bs))) ps"

lemma RunBatches_reports:
  assumes "batches_fit m bs ps"
  shows "changes_effect (snd (RunBatches bs m)) ps = inotify_paths m bs ps \<and>
    changes_ok (snd (RunBatches bs m)) ps"
  using assms
proof (induction bs arbitrary: m ps)
  case Nil
  then show ?case by (simp add: inotify_paths_def)
next
  case (Cons b bs)
  let ?r = "RunBatch (fst b) (snd b) m"
  let ?ps = "fold (kernel_effect (mo_watches m)) (map snd (fst b)) ps"
  have b: "batch_fits m b ps" "batches_fit (ba_monitor ?r) bs ?ps" using Cons.prems by simp_all
  have r: "changes_effect (ba_changes ?r) ps = ?ps" "mo_watches (ba_monitor ?r) = mo_watches m"
    using RunBatch_tracks [of m "fst b" "snd b" ps] b(1) by (simp_all add: batch_fits_def)
  show ?case
    using Cons.IH [OF b(2)] RunBatch_changes_ok [OF b(1)] r
    by (cases b) (simp add: Let_def split_beta changes_effect_append inotify_paths_def)
qed

interpretation inotify: change_monitor "\<lambda>bs. snd (RunBatches bs m)" "inotify_paths m" "batches_fit m" for m
  by unfold_locales (simp_all add: RunBatches_reports)

section \<open>The fanotify monitor\<close>

definition fan_path :: "HandleResolver \<Rightarrow> int \<Rightarrow> KernelEvent \<Rightarrow> string" where
  "fan_path resolver mountFd e = Fanotify_JoinPath (resolver mountFd (handle_bytes e)) (ke_name e)"

definition fan_effect :: "HandleResolver \<Rightarrow> int \<Rightarrow> KernelEvent \<Rightarrow> string set \<Rightarrow> string set" where
  "fan_effect resolver mountFd e ps =
     (if ke_mask e \<in> {FAN_CREATE, FAN_MOVED_TO} then insert (fan_path resolver mountFd e) ps
      else if ke_mask e \<in> {FAN_DELETE, FAN_MOVED_FROM} then ps - {fan_path resolver mountFd e}
      else ps)"

text \<open>Events of one kind each, in directories that are found.\<close>

definition fan_event_fits :: "HandleResolver \<Rightarrow> int \<Rightarrow> KernelEvent \<Rightarrow> string set \<Rightarrow> bool" where
  "fan_event_fits resolver mountFd e ps \<longleftrightarrow>
     ke_mask e \<in> {FAN_MODIFY, FAN_MOVED_FROM, FAN_MOVED_TO, FAN_CREATE, FAN_DELETE} \<and>
     resolver mountFd (handle_bytes e) \<noteq> [] \<and>
     (ke_mask e \<in> {FAN_CREATE, FAN_MOVED_TO} \<longrightarrow> fan_path resolver mountFd e \<notin> ps) \<and>
     (ke_mask e = FAN_MODIFY \<longrightarrow> fan_path resolver mountFd e \<in> ps)"

fun fan_events_fit :: "HandleResolver \<Rightarrow> int \<Rightarrow> KernelEvent list \<Rightarrow> string set \<Rightarrow> bool" where
  "fan_events_fit resolver mountFd [] ps \<longleftrightarrow> True"
| "fan_events_fit resolver mountFd (e # es) ps \<longleftrightarrow>
     fan_event_fits resolver mountFd e ps \<and>
     fan_events_fit resolver mountFd es (fan_effect resolver mountFd e ps)"

lemma reported_fits:
  assumes "fan_event_fits resolver mountFd e ps"
  shows "changes_effect (reported resolver mountFd e) ps = fan_effect resolver mountFd e ps"
    "changes_ok (reported resolver mountFd e) ps"
proof -
  have dir: "resolver mountFd (handle_bytes e) \<noteq> []"
    and kinds: "ke_mask e \<in> {FAN_MODIFY, FAN_MOVED_FROM, FAN_MOVED_TO, FAN_CREATE, FAN_DELETE}"
    using assms by (simp_all add: fan_event_fits_def)
  from kinds assms show "changes_effect (reported resolver mountFd e) ps = fan_effect resolver mountFd e ps"
    by (auto simp: reported_def ClassifyMask_def fan_bits dir change_effect_def fan_effect_def fan_path_def)
  from kinds assms show "changes_ok (reported resolver mountFd e) ps"
    by (auto simp: reported_def ClassifyMask_def fan_bits dir change_ok_def fan_event_fits_def fan_path_def)
qed

lemma fan_reports:
  assumes "fan_events_fit resolver mountFd es ps"
  shows "changes_effect (concat (map (reported resolver mountFd) es)) ps =
      fold (fan_effect resolver mountFd) es ps \<and>
    changes_ok (concat (map (reported resolver mountFd) es)) ps"
  using assms
proof (induction es arbitrary: ps)
  case (Cons e es)
  then show ?case
    using reported_fits [of resolver mountFd e ps] by (simp add: changes_effect_append)
qed simp

interpretation fanotify: change_monitor "\<lambda>es. concat (map (reported resolver mountFd) es)"
  "fold (fan_effect resolver mountFd)" "fan_events_fit resolver mountFd" for resolver mountFd
  by unfold_locales (simp_all add: fan_reports)

text \<open>The bytes of each read, as the kernel writes them.\<close>

definition kernel_turns :: "KernelEvent list list \<Rightarrow> MonitorTurn list" where
  "kernel_turns reads = map (\<lambda>es. ReadBytes (concat (map event_bytes es))) reads"

lemma Fanotify_loop_kernel:
  assumes "list_all wf_event (concat reads)"
  shows "Fanotify_loop (Some resolver) mountFd (kernel_turns reads) =
    Some (concat (map (reported resolver mountFd) (concat reads)))"
  using assms
  by (induction reads) (simp_all add: kernel_turns_def ReadEvents_kernel)

section \<open>Two monitors at a time\<close>

text \<open>Changes of paths in one part of the file system leave the rest alone.\<close>

definition within :: "string set \<Rightarrow> FileChangeEvent \<Rightarrow> bool" where
  "within A ev \<longleftrightarrow> fc_path ev \<in> A \<and> (fc_type ev = Renamed \<longrightarrow> fc_oldPath ev \<in> A)"

lemma change_within:
  assumes "within A ev"
  shows "change_effect ev ps \<inter> A = change_effect ev (ps \<inter> A)" "change_effect ev ps - A = ps - A"
    "change_ok ev ps \<longleftrightarrow> change_ok ev (ps \<inter> A)"
  using assms by (cases "fc_type ev"; auto simp: within_def change_effect_def change_ok_def)+

lemma changes_within:
  assumes "list_all (within A) evs"
  shows "changes_effect evs ps \<inter> A = changes_effect evs (ps \<inter> A)"
    "changes_effect evs ps - A = ps - A" "changes_ok evs ps \<longleftrightarrow> changes_ok evs (ps \<inter> A)"
proof -
  have "changes_effect evs ps \<inter> A = changes_effect evs (ps \<inter> A) \<and> changes_effect evs ps - A = ps - A \<and>
      changes_ok evs ps = changes_ok evs (ps \<inter> A)"
    using assms
  proof (induction evs arbitrary: ps)
    case (Cons ev evs)
    note ev = change_within [of A ev ps]
    have IH: "changes_effect evs (change_effect ev ps) \<inter> A = changes_effect evs (change_effect ev ps \<inter> A)"
      "changes_effect evs (change_effect ev ps) - A = change_effect ev ps - A"
      "changes_ok evs (change_effect ev ps) = changes_ok evs (change_effect ev ps \<inter> A)"
      using Cons.IH [of "change_effect ev ps"] Cons.prems by simp_all
    show ?case using ev IH Cons.prems by simp
  qed simp
  then show "changes_effect evs ps \<inter> A = changes_effect evs (ps \<inter> A)"
    "changes_effect evs ps - A = ps - A" "changes_ok evs ps \<longleftrightarrow> changes_ok evs (ps \<inter> A)" by blast+
qed

lemma interleaved_step:
  assumes "within A ev" "list_all (within (- A)) fs"
  shows "changes_ok fs (change_effect ev ps) \<longleftrightarrow> changes_ok fs ps"
    "changes_effect fs (change_effect ev ps) - A = changes_effect fs ps - A"
proof -
  have rest: "change_effect ev ps \<inter> - A = ps \<inter> - A"
    using change_within(2) [OF assms(1), of ps] by blast
  show "changes_ok fs (change_effect ev ps) \<longleftrightarrow> changes_ok fs ps"
    using changes_within(3) [OF assms(2)] rest by metis
  show "changes_effect fs (change_effect ev ps) - A = changes_effect fs ps - A"
    using changes_within(1) [OF assms(2)] rest by (metis Diff_eq)
qed

text \<open>Two streams, each within its part, taken in any order: each part ends as its own stream says.\<close>

lemma interleaved_changes:
  assumes "es \<in> shuffles evs fs" "list_all (within A) evs" "list_all (within (- A)) fs"
    and "changes_ok evs ps" "changes_ok fs ps"
  shows "changes_ok es ps \<and>
    changes_effect es ps = (changes_effect evs ps \<inter> A) \<union> (changes_effect fs ps - A)"
  using assms
proof (induction es arbitrary: evs fs ps)
  case Nil
  then show ?case by auto
next
  case (Cons e es)
  from Cons.prems(1) consider (left) xs where "evs = e # xs" "es \<in> shuffles xs fs"
    | (right) ys where "fs = e # ys" "es \<in> shuffles evs ys"
    by (auto simp: Cons_in_shuffles_iff neq_Nil_conv)
  then show ?case
  proof cases
    case left
    have e: "within A e" using Cons.prems(2) left(1) by simp
    note step = interleaved_step [OF e Cons.prems(3), of ps]
    show ?thesis
      using Cons.IH [OF left(2), of "change_effect e ps"] Cons.prems(2-5) left(1) step by simp
  next
    case right
    have e: "within (- A) e" "list_all (within (- (- A))) evs"
      using Cons.prems(2,3) right(1) by simp_all
    note step = interleaved_step [OF e, of ps]
    have "changes_effect evs (change_effect e ps) \<inter> A = changes_effect evs ps \<inter> A"
      using step(2) by (simp add: Diff_Compl)
    then show ?thesis
      using Cons.IH [OF right(2), of "change_effect e ps"] Cons.prems(2-5) right(1) step(1) by simp
  qed
qed

lemma lost_later_mono: "set cs \<subseteq> set ds \<Longrightarrow> lost_later cs \<subseteq> lost_later ds"
  by (auto simp: lost_later_def)

lemma rescan_ok_mono: "rescan_ok scanner ev later \<Longrightarrow> later \<subseteq> later' \<Longrightarrow> rescan_ok scanner ev later'"
  by (auto simp: rescan_ok_def split: option.splits)

lemma interleaved_rescans:
  "es \<in> shuffles cs ds \<Longrightarrow> rescans_ok cs \<Longrightarrow> rescans_ok ds \<Longrightarrow> rescans_ok es"
proof (induction es arbitrary: cs ds)
  case (Cons e es)
  obtain scanner ev where e: "e = (scanner, ev)" by (cases e)
  from Cons.prems(1) consider (left) xs where "cs = e # xs" "es \<in> shuffles xs ds"
    | (right) ys where "ds = e # ys" "es \<in> shuffles cs ys"
    by (auto simp: Cons_in_shuffles_iff neq_Nil_conv)
  then show ?case
  proof cases
    case left
    then have "lost_later xs \<subseteq> lost_later es"
      using set_shuffles by (intro lost_later_mono) blast
    with left Cons show ?thesis by (auto simp: e intro: rescan_ok_mono)
  next
    case right
    then have "lost_later ys \<subseteq> lost_later es"
      using set_shuffles by (intro lost_later_mono) blast
    with right Cons show ?thesis by (auto simp: e intro: rescan_ok_mono)
  qed
qed simp

lemma map_in_shuffles: "es \<in> shuffles cs ds \<Longrightarrow> map f es \<in> shuffles (map f cs) (map f ds)"
proof (induction es arbitrary: cs ds)
  case (Cons e es)
  from Cons.prems consider (left) xs where "cs = e # xs" "es \<in> shuffles xs ds"
    | (right) ys where "ds = e # ys" "es \<in> shuffles cs ys"
    by (auto simp: Cons_in_shuffles_iff neq_Nil_conv)
  then show ?case
    by cases (use Cons.IH in \<open>auto simp: Cons_in_shuffles_iff\<close>)
qed simp

text \<open>Two monitors whose threads take turns at the indexer.\<close>

locale monitor_pair =
  one: change_monitor reports kernel_paths sound +
  two: change_monitor reports' kernel_paths' sound'
  for reports :: "'k list \<Rightarrow> FileChangeEvent list"
    and kernel_paths :: "'k list \<Rightarrow> string set \<Rightarrow> string set"
    and sound :: "'k list \<Rightarrow> string set \<Rightarrow> bool"
    and reports' :: "'l list \<Rightarrow> FileChangeEvent list"
    and kernel_paths' :: "'l list \<Rightarrow> string set \<Rightarrow> string set"
    and sound' :: "'l list \<Rightarrow> string set \<Rightarrow> bool"
begin

lemma index_tracks_both:
  assumes s: "store_inv s" "distinct (store_paths s)"
    and sound: "sound ks (set (store_paths s))" "sound' ls (set (store_paths s))"
    and parts: "list_all (within A) (reports ks)" "list_all (within (- A)) (reports' ls)"
    and streams: "map snd cs = reports ks" "map snd ds = reports' ls" "es \<in> shuffles cs ds"
    and rescans: "rescans_ok cs" "rescans_ok ds"
    and fits: "grow_fits (is_pool s) (added_by_all es)"
  shows "\<exists>t. apply_changes es s = Some t \<and> store_inv t \<and> distinct (store_paths t) \<and>
    set (store_paths t) = (kernel_paths ks (set (store_paths s)) \<inter> A) \<union>
                          (kernel_paths' ls (set (store_paths s)) - A)"
proof -
  let ?ps = "set (store_paths s)"
  have "map snd es \<in> shuffles (reports ks) (reports' ls)"
    using map_in_shuffles [OF streams(3), of snd] streams(1,2) by simp
  from interleaved_changes [OF this parts one.reports_ok [OF sound(1)] two.reports_ok [OF sound(2)]]
  have "changes_ok (map snd es) ?ps" "changes_effect (map snd es) ?ps =
      (kernel_paths ks ?ps \<inter> A) \<union> (kernel_paths' ls ?ps - A)"
    using one.reports_effect [OF sound(1)] two.reports_effect [OF sound(2)] by simp_all
  with apply_changes_follows [OF s, of es ?ps] interleaved_rescans [OF streams(3) rescans] fits
  show ?thesis by simp
qed

end

interpretation inotify_pair: monitor_pair "\<lambda>bs. snd (RunBatches bs m)" "inotify_paths m" "batches_fit m"
    "\<lambda>bs. snd (RunBatches bs n)" "inotify_paths n" "batches_fit n" for m n
  by unfold_locales

interpretation mixed_pair: monitor_pair "\<lambda>es. concat (map (reported resolver mountFd) es)"
    "fold (fan_effect resolver mountFd)" "fan_events_fit resolver mountFd"
    "\<lambda>bs. snd (RunBatches bs m)" "inotify_paths m" "batches_fit m" for resolver mountFd m
  by unfold_locales

section \<open>Each monitor reports its own root\<close>

lemma slash_splits:
  assumes "a @ CHR ''/'' # r = b @ CHR ''/'' # q"
  shows "a = b \<or> (\<exists>x. a = b @ CHR ''/'' # x) \<or> (\<exists>x. b = a @ CHR ''/'' # x)"
proof -
  from assms consider us where "a = b @ us" "us @ CHR ''/'' # r = CHR ''/'' # q"
    | us where "b = a @ us" "CHR ''/'' # r = us @ CHR ''/'' # q"
    by (auto simp: append_eq_append_conv2)
  then show ?thesis
  proof cases
    case (1 us)
    then show ?thesis by (cases us) auto
  next
    case (2 us)
    then show ?thesis by (cases us) auto
  qed
qed

lemma slash_start: "a @ CHR ''/'' # r = CHR ''/'' # q \<Longrightarrow> a = [] \<or> a = ''/'' \<or> (\<exists>c x. a = CHR ''/'' # c # x)"
  by (cases a; cases "tl a") auto

lemma IsUnderOrEqual_both:
  assumes "IsUnderOrEqual p a" "IsUnderOrEqual p b" "a \<noteq> []" "b \<noteq> []"
  shows "IsUnderOrEqual a b \<or> IsUnderOrEqual b a"
proof -
  have tail: "IsUnderOrEqual a b \<or> IsUnderOrEqual b a" if "p = a @ CHR ''/'' # r" "p = b @ CHR ''/'' # q" for r q
    using slash_splits [of a r b q] that by (auto simp: IsUnderOrEqual_iff)
  have start: "IsUnderOrEqual x ''/''" if "p = x @ CHR ''/'' # r" "p = CHR ''/'' # c # q" "x \<noteq> []" for x r c q
    using slash_start [of x r "c # q"] that by (auto simp: IsUnderOrEqual_iff)
  show ?thesis
  proof (cases "p = a \<or> p = b")
    case True
    with assms(1,2) show ?thesis by blast
  next
    case False
    with assms(1,2) have "(\<exists>r. p = a @ CHR ''/'' # r) \<or> a = ''/'' \<and> (\<exists>c r. p = CHR ''/'' # c # r)"
      "(\<exists>r. p = b @ CHR ''/'' # r) \<or> b = ''/'' \<and> (\<exists>c r. p = CHR ''/'' # c # r)"
      unfolding IsUnderOrEqual_iff [of p] by blast+
    with assms(3,4) tail start show ?thesis by (elim disjE exE conjE) (blast, blast, blast, simp)
  qed
qed

definition watches_under :: "string \<Rightarrow> WatchTable \<Rightarrow> bool" where
  "watches_under root w \<longleftrightarrow> (\<forall>wd path. wt_wdToPath w wd = Some path \<longrightarrow> IsUnderOrEqual path root)"

lemma event_path_under:
  assumes "watches_under root w" "file_event w ev"
  shows "IsUnderOrEqual (event_path w ev) root"
proof -
  obtain parent where "wt_wdToPath w (ie_wd ev) = Some parent"
    using assms(2) by (auto simp: file_event_def PathFor_def split: option.splits)
  with assms(1) show ?thesis
    using IsUnderOrEqual_trans [OF IsUnderOrEqual_JoinChild, of "ie_name ev" parent root]
    by (auto simp: event_path_def PathFor_def watches_under_def)
qed

text \<open>What a walk of a directory finds is below it.\<close>

definition walk_below :: "WatchEnv \<Rightarrow> string \<Rightarrow> bool" where
  "walk_below env dir \<longleftrightarrow> list_all (\<lambda>(path, kind). IsUnderOrEqual path dir) (we_watchWalk env dir)"

lemma AddWatch_under:
  "watches_under root (mo_watches m) \<Longrightarrow> IsUnderOrEqual dir root \<Longrightarrow>
   watches_under root (mo_watches (fst (AddWatch env dir m)))"
  by (auto simp: AddWatch_def WatchTable_Add_def watches_under_def split: AddResult.splits)

lemma AddWatches_walk_under:
  "watches_under root (mo_watches m) \<Longrightarrow> list_all (\<lambda>(path, kind). IsUnderOrEqual path root) found \<Longrightarrow>
   watches_under root (mo_watches (AddWatches_walk env found m))"
  by (induction env found m rule: AddWatches_walk.induct) (auto simp: AddWatch_under)

definition initial_monitor :: "WatchEnv \<Rightarrow> string \<Rightarrow> Monitor" where
  "initial_monitor env root =
     AddWatchesRecursive env root \<lparr>mo_watches = empty_table, mo_limitExceeded = False\<rparr>"

lemma initial_monitor_under:
  assumes "walk_below env root"
  shows "watches_under root (mo_watches (initial_monitor env root))"
proof -
  have "watches_under root empty_table" by (simp add: watches_under_def empty_table_def)
  then show ?thesis
    using assms by (auto simp: initial_monitor_def AddWatchesRecursive_def walk_below_def
        intro!: AddWatches_walk_under AddWatch_under)
qed

lemma HandleEvent_within:
  assumes "file_event w ev" "mo_watches (ba_monitor b) = w" "event_path w ev \<in> A"
    and "list_all (within A) (ba_changes b)" "ran (pending_paths b) \<subseteq> A"
  shows "list_all (within A) (ba_changes (HandleEvent env ev b)) \<and>
    ran (pending_paths (HandleEvent env ev b)) \<subseteq> A \<and> mo_watches (ba_monitor (HandleEvent env ev b)) = w"
proof -
  have pending: "ba_pendingMovedFrom b c = Some q \<Longrightarrow> pm_path q \<in> A" for c q
    using assms(5) by (auto simp: pending_paths_def ran_def)
  show ?thesis
    using assms(2-4) pending
    unfolding HandleEvent_file [OF assms(1,2)]
    by (auto simp: report_def within_def pending_paths_def ran_def added_event_def removed_event_def
        split: option.splits if_splits)
qed

lemma HandleEvents_within:
  assumes "list_all (\<lambda>e. file_event w (snd e) \<and> event_path w (snd e) \<in> A) events"
    and "mo_watches (ba_monitor b) = w" "list_all (within A) (ba_changes b)" "ran (pending_paths b) \<subseteq> A"
  shows "list_all (within A) (ba_changes (HandleEvents events b)) \<and>
    ran (pending_paths (HandleEvents events b)) \<subseteq> A"
  using assms
proof (induction events arbitrary: b)
  case (Cons e events)
  then show ?case
    using HandleEvent_within [of w "snd e" b A "fst e"] by (cases e) simp
qed simp

lemma well_paired_files: "well_paired w P evs \<Longrightarrow> list_all (file_event w) evs"
  by (induction evs arbitrary: P) (auto split: if_splits)

lemma RunBatches_within:
  assumes "batches_fit m bs ps" "watches_under root (mo_watches m)"
  shows "list_all (within {p. IsUnderOrEqual p root}) (snd (RunBatches bs m))"
  using assms
proof (induction bs arbitrary: m ps)
  case (Cons b bs)
  let ?A = "{p. IsUnderOrEqual p root}" and ?b = "HandleEvents (fst b) (begin_batch m)"
  let ?r = "RunBatch (fst b) (snd b) m"
  let ?ms = "map (\<lambda>c. the (ba_pendingMovedFrom ?b c)) (snd b)"
  have b: "batch_fits m b ps" using Cons.prems(1) by simp
  then have paired: "well_paired (mo_watches m) Map.empty (map snd (fst b))"
    and order: "set (snd b) = dom (ba_pendingMovedFrom ?b)"
    by (simp_all add: batch_fits_def)
  have p0: "pending_paths (begin_batch m) = Map.empty" "files_pending (begin_batch m)"
    by (simp_all add: pending_paths_def begin_batch_def files_pending_def)
  have "list_all (\<lambda>e. file_event (mo_watches m) (snd e) \<and> event_path (mo_watches m) (snd e) \<in> ?A) (fst b)"
    using well_paired_files [OF paired] event_path_under [OF Cons.prems(2)]
    by (auto simp: list_all_iff)
  from HandleEvents_within [OF this, of "begin_batch m"] p0
  have changes: "list_all (within ?A) (ba_changes ?b)" and pend: "ran (pending_paths ?b) \<subseteq> ?A"
    by (simp_all add: begin_batch_def)
  have "files_pending ?b"
    using HandleEvents_tracks [of "begin_batch m" "mo_watches m" "fst b" ps] paired p0
    by (simp add: begin_batch_def)
  then have files: "\<forall>p \<in> set ?ms. \<not> pm_isDir p"
    using order by (force simp: files_pending_def ran_def dom_def)
  have "\<forall>q \<in> set ?ms. pm_path q \<in> ?A"
    using order pend by (force simp: pending_paths_def ran_def dom_def)
  then have "list_all (within ?A) (map (\<lambda>q. removed_event (pm_path q)) ?ms)"
    by (auto simp: list_all_iff within_def removed_event_def)
  with changes have "list_all (within ?A) (ba_changes ?r)"
    using FinishBatch_files [OF files, of ?b] by (simp add: RunBatch_def Let_def del: map_map)
  moreover have "mo_watches (ba_monitor ?r) = mo_watches m"
    using RunBatch_tracks [OF paired order, of ps] by simp
  ultimately show ?case
    using Cons.IH [of "ba_monitor ?r"] Cons.prems by (cases b) (auto simp: Let_def split_beta)
qed simp

section \<open>Properties\<close>


definition root_env :: WatchEnv where
  "root_env = \<lparr>we_add = (\<lambda>p. if p = ''/d'' then Wd 1 else AddFailed), we_watchWalk = (\<lambda>p. []), we_emitWalk = (\<lambda>p. [])\<rparr>"

definition sample_batch :: "(WatchEnv \<times> InotifyEvent) list" where
  "sample_batch = [Inotify_Watcher.sample_event IN_MOVED_FROM 7 ''Cat.txt'', Inotify_Watcher.sample_event IN_CREATE 0 ''tmp'',
     Inotify_Watcher.sample_event IN_MOVED_TO 7 ''Dog'', Inotify_Watcher.sample_event IN_DELETE 0 ''tmp'']"

definition sample_changes :: "FileChangeEvent list" where
  "sample_changes = [added_event ''/d/tmp'', \<lparr>fc_type = Renamed, fc_path = ''/d/Dog'', fc_oldPath = ''/d/Cat.txt''\<rparr>,
     removed_event ''/d/tmp'']"

definition no_scanner :: Scanner where
  "no_scanner options = []"

lemma sample_initial: "initial_monitor root_env ''/d'' =
    \<lparr>mo_watches = WatchTable_Add 1 ''/d'' empty_table, mo_limitExceeded = False\<rparr>"
  by (simp add: initial_monitor_def root_env_def AddWatchesRecursive_def AddWatch_def)

lemma sample_in_root: "event_path (mo_watches (initial_monitor root_env ''/d'')) (snd (Inotify_Watcher.sample_event msk c name)) =
    (if name = [] then ''/d'' else ''/d/'' @ name)"
  "file_event (mo_watches (initial_monitor root_env ''/d'')) (snd (Inotify_Watcher.sample_event msk c name)) \<longleftrightarrow>
     msk \<in> {IN_MODIFY, IN_CLOSE_WRITE, IN_MOVED_FROM, IN_MOVED_TO, IN_CREATE, IN_DELETE}"
  by (simp_all add: sample_initial event_path_def Inotify_Watcher.sample_event_def PathFor_def
      WatchTable_Add_def JoinChild_def file_event_def)

lemma sample_events_handled: "HandleEvents sample_batch (begin_batch (initial_monitor root_env ''/d'')) =
    (begin_batch (initial_monitor root_env ''/d''))\<lparr>ba_changes := sample_changes\<rparr>"
  by (simp add: sample_batch_def sample_initial Inotify_Watcher.sample_event_def HandleEvent_def begin_batch_def
      PathFor_def WatchTable_Add_def watch_new_def report_def Let_def JoinChild_def sample_changes_def)

lemma sample_batch_fits:
  "batches_fit (initial_monitor root_env ''/d'') [(sample_batch, [])] (set (store_paths sample_store))"
proof -
  let ?w = "mo_watches (initial_monitor root_env ''/d'')"
  have "well_paired ?w Map.empty (map snd sample_batch)"
    using sample_in_root by (simp add: sample_batch_def Inotify_Watcher.sample_path(3))
  moreover have "events_fit ?w (map snd sample_batch) {''/d/a b'', ''/d/Cat.txt''}"
    using sample_in_root
    by (simp add: sample_batch_def event_fits_def kernel_effect_file Inotify_Watcher.sample_path(3))
  moreover have "dom (ba_pendingMovedFrom (HandleEvents sample_batch (begin_batch (initial_monitor root_env ''/d'')))) = {}"
    unfolding sample_events_handled by (simp add: begin_batch_def)
  ultimately show ?thesis by (simp add: batch_fits_def sample_store_paths)
qed

lemma sample_monitoring: "Inotify_StartMonitoring True True root_env ''/d'' [(sample_batch, [])] =
    Some (1, initial_monitor root_env ''/d'', sample_changes)"
proof -
  have "RunBatch sample_batch [] (initial_monitor root_env ''/d'') =
      (begin_batch (initial_monitor root_env ''/d''))\<lparr>ba_changes := sample_changes\<rparr>"
    by (simp add: RunBatch_def sample_events_handled)
  moreover have "WatchTable_Size (mo_watches (initial_monitor root_env ''/d'')) = 1"
    by (simp add: sample_initial WatchTable_Size_def WatchTable_Add_def empty_table_def)
  ultimately show ?thesis
    by (simp add: Inotify_StartMonitoring_def initial_monitor_def Let_def begin_batch_def)
qed

lemma sample_stream:
  "rescans_ok (map (Pair no_scanner) sample_changes)"
  "added_by_all (map (Pair no_scanner) sample_changes) = [renamed_entry ''/d/Dog'']"
  by (simp_all add: sample_changes_def rescan_ok_def lost_later_def lost_paths_def added_by_all_def
      added_by_def added_event_def removed_event_def Rescan_last no_scanner_def scan_entries_def)

lemma sample_room: "grow_fits (is_pool sample_store) [renamed_entry ''/d/Dog'']"
  by (simp add: grow_fits_def build_fits_def renamed_entry_def sample_store_def ApplyAdd_def empty_store_def
      sample_file_def empty_pool_def AddEntry_sizes TokenizeToSpans_def IsSeparator_def suffix_def
      basename_def)



definition other_env :: WatchEnv where
  "other_env = \<lparr>we_add = (\<lambda>p. if p = ''/e'' then Wd 1 else AddFailed), we_watchWalk = (\<lambda>p. []), we_emitWalk = (\<lambda>p. [])\<rparr>"

definition other_batch :: "(WatchEnv \<times> InotifyEvent) list" where
  "other_batch = [Inotify_Watcher.sample_event IN_CREATE 0 ''x'']"

definition other_scanner :: Scanner where
  "other_scanner options = [OnEntry (sample_file ''/e/'' ''x'')]"

lemma other_initial: "initial_monitor other_env ''/e'' =
    \<lparr>mo_watches = WatchTable_Add 1 ''/e'' empty_table, mo_limitExceeded = False\<rparr>"
  by (simp add: initial_monitor_def other_env_def AddWatchesRecursive_def AddWatch_def)

lemma other_event: "event_path (mo_watches (initial_monitor other_env ''/e'')) (snd (hd other_batch)) = ''/e/x''"
  "file_event (mo_watches (initial_monitor other_env ''/e'')) (snd (hd other_batch))"
  "ie_mask (snd (hd other_batch)) = IN_CREATE" "map snd other_batch = [snd (hd other_batch)]"
  by (simp_all add: other_initial other_batch_def event_path_def Inotify_Watcher.sample_event_def PathFor_def
      WatchTable_Add_def JoinChild_def file_event_def)

lemma other_handled: "HandleEvents other_batch (begin_batch (initial_monitor other_env ''/e'')) =
    (begin_batch (initial_monitor other_env ''/e''))\<lparr>ba_changes := [added_event ''/e/x'']\<rparr>"
  by (simp add: other_batch_def other_initial Inotify_Watcher.sample_event_def HandleEvent_def begin_batch_def
      PathFor_def WatchTable_Add_def watch_new_def report_def Let_def JoinChild_def)

lemma other_batch_fits:
  "batches_fit (initial_monitor other_env ''/e'') [(other_batch, [])] (set (store_paths sample_store))"
  unfolding batches_fit.simps batch_fits_def fst_conv snd_conv other_event(4) other_handled
  by (simp add: other_event sample_store_paths event_fits_def begin_batch_def)

lemma other_monitoring: "Inotify_StartMonitoring True True other_env ''/e'' [(other_batch, [])] =
    Some (1, initial_monitor other_env ''/e'', [added_event ''/e/x''])"
proof -
  have "RunBatch other_batch [] (initial_monitor other_env ''/e'') =
      (begin_batch (initial_monitor other_env ''/e''))\<lparr>ba_changes := [added_event ''/e/x'']\<rparr>"
    by (simp add: RunBatch_def other_handled)
  moreover have "WatchTable_Size (mo_watches (initial_monitor other_env ''/e'')) = 1"
    by (simp add: other_initial WatchTable_Size_def WatchTable_Add_def empty_table_def)
  ultimately show ?thesis
    by (simp add: Inotify_StartMonitoring_def initial_monitor_def Let_def begin_batch_def)
qed

definition mixed_stream :: "(Scanner \<times> FileChangeEvent) list" where
  "mixed_stream = (case map (Pair no_scanner) sample_changes of
     c # cs \<Rightarrow> c # (other_scanner, added_event ''/e/x'') # cs)"

lemma mixed_stream_facts:
  "mixed_stream \<in> shuffles (map (Pair no_scanner) sample_changes) [(other_scanner, added_event ''/e/x'')]"
  "rescans_ok [(other_scanner, added_event ''/e/x'')]"
  "added_by_all mixed_stream = [sample_file ''/e/'' ''x'', renamed_entry ''/d/Dog'']"
  by (simp_all add: mixed_stream_def sample_changes_def Cons_in_shuffles_iff rescan_ok_def Rescan_last
      other_scanner_def no_scanner_def scan_entries_def added_event_def removed_event_def added_by_all_def
      added_by_def) (simp add: sample_file_def)

lemma mixed_room: "grow_fits (is_pool sample_store) [sample_file ''/e/'' ''x'', renamed_entry ''/d/Dog'']"
  by (simp add: grow_fits_def build_fits_def renamed_entry_def sample_store_def ApplyAdd_def empty_store_def
      sample_file_def empty_pool_def AddEntry_sizes TokenizeToSpans_def IsSeparator_def suffix_def
      basename_def)

lemma sample_end: "inotify_paths (initial_monitor root_env ''/d'') [(sample_batch, [])]
    (set (store_paths sample_store)) = {''/d/a b'', ''/d/Dog''}"
  using sample_in_root
  by (auto simp: inotify_paths_def sample_batch_def kernel_effect_file Inotify_Watcher.sample_path(3)
      sample_store_paths)

lemma other_end: "inotify_paths (initial_monitor other_env ''/e'') [(other_batch, [])]
    (set (store_paths sample_store)) = {''/e/x'', ''/d/a b'', ''/d/Cat.txt''}"
  unfolding inotify_paths_def by (simp add: other_event kernel_effect_file sample_store_paths)

lemma sample_parts:
  "{''/d/a b'', ''/d/Dog''} \<inter> {p. IsUnderOrEqual p ''/d''} = {''/d/a b'', ''/d/Dog''}"
  "{''/e/x'', ''/d/a b'', ''/d/Cat.txt''} - {p. IsUnderOrEqual p ''/d''} = {''/e/x''}"
  "{''/d/a b'', ''/d/Dog''} \<union> {''/e/x''} = {''/d/a b'', ''/d/Dog'', ''/e/x''}"
proof -
  have "IsUnderOrEqual ''/d/a b'' ''/d''" "IsUnderOrEqual ''/d/Dog'' ''/d''" "IsUnderOrEqual ''/d/Cat.txt'' ''/d''"
    "\<not> IsUnderOrEqual ''/e/x'' ''/d''"
    by (simp_all add: IsUnderOrEqual_def)
  then show "{''/d/a b'', ''/d/Dog''} \<inter> {p. IsUnderOrEqual p ''/d''} = {''/d/a b'', ''/d/Dog''}"
    "{''/e/x'', ''/d/a b'', ''/d/Cat.txt''} - {p. IsUnderOrEqual p ''/d''} = {''/e/x''}"
    by (simp_all only: Int_insert_left insert_Diff_if mem_Collect_eq if_True if_False Int_empty_left empty_Diff
        simp_thms)
  show "{''/d/a b'', ''/d/Dog''} \<union> {''/e/x''} = {''/d/a b'', ''/d/Dog'', ''/e/x''}" by blast
qed



definition dog_scanner :: Scanner where
  "dog_scanner options = [OnEntry (sample_file ''/d/'' ''Dog'')]"

definition fan_sample :: "KernelEvent list list" where
  "fan_sample = [[Fanotify_Monitor.sample_event FAN_MOVED_FROM ''Cat.txt'', Fanotify_Monitor.sample_event FAN_MOVED_TO ''Dog''],
     [Fanotify_Monitor.sample_event FAN_MODIFY ''Dog'']]"

definition fan_stream :: "(Scanner \<times> FileChangeEvent) list" where
  "fan_stream = map (Pair dog_scanner) [removed_event ''/d/Cat.txt'', added_event ''/d/Dog'',
     \<lparr>fc_type = Modified, fc_path = ''/d/Dog'', fc_oldPath = []\<rparr>]"

lemma fan_sample_path: "fan_path (\<lambda>fd h. ''/d'') 3 (Fanotify_Monitor.sample_event msk name) = ''/d/'' @ name"
  by (simp add: fan_path_def Fanotify_JoinPath_def Fanotify_Monitor.sample_event_def)

lemma fan_sample_mask: "ke_mask (Fanotify_Monitor.sample_event msk name) = msk"
  by (simp add: Fanotify_Monitor.sample_event_def)

lemma fan_distinct [simp]:
  "FAN_MODIFY \<noteq> FAN_MOVED_FROM" "FAN_MODIFY \<noteq> FAN_MOVED_TO" "FAN_MODIFY \<noteq> FAN_CREATE" "FAN_MODIFY \<noteq> FAN_DELETE"
  "FAN_MOVED_FROM \<noteq> FAN_MOVED_TO" "FAN_MOVED_FROM \<noteq> FAN_CREATE" "FAN_MOVED_TO \<noteq> FAN_MODIFY"
  "FAN_MOVED_FROM \<noteq> FAN_MODIFY"
  by (simp_all add: fan_bits)

lemma fan_sample_facts:
  "list_all wf_event (concat fan_sample)"
  "fan_events_fit (\<lambda>fd h. ''/d'') 3 (concat fan_sample) (set (store_paths sample_store))"
  "fold (fan_effect (\<lambda>fd h. ''/d'') 3) (concat fan_sample) (set (store_paths sample_store)) = {''/d/a b'', ''/d/Dog''}"
  by (simp_all add: fan_sample_def wf_sample_event fan_event_fits_def fan_effect_def fan_sample_path fan_sample_mask
      sample_store_paths) blast

lemma fan_sample_reports:
  "Some (map snd fan_stream) = Fanotify_StartMonitoring (Some (\<lambda>fd h. ''/d'')) 0 0 3 (kernel_turns fan_sample)"
proof -
  have "reported (\<lambda>fd h. ''/d'') 3 (Fanotify_Monitor.sample_event FAN_MOVED_FROM ''Cat.txt'') = [removed_event ''/d/Cat.txt'']"
    "reported (\<lambda>fd h. ''/d'') 3 (Fanotify_Monitor.sample_event FAN_MOVED_TO ''Dog'') = [added_event ''/d/Dog'']"
    "reported (\<lambda>fd h. ''/d'') 3 (Fanotify_Monitor.sample_event FAN_MODIFY ''Dog'') =
       [\<lparr>fc_type = Modified, fc_path = ''/d/Dog'', fc_oldPath = []\<rparr>]"
    by (simp_all add: reported_def Fanotify_Monitor.sample_event_def ClassifyMask_def fan_bits
        Fanotify_JoinPath_def removed_event_def added_event_def)
  then have "concat (map (reported (\<lambda>fd h. ''/d'') 3) (concat fan_sample)) = map snd fan_stream"
    by (simp add: fan_sample_def fan_stream_def)
  then show ?thesis
    using Fanotify_loop_kernel [OF fan_sample_facts(1), of "\<lambda>fd h. ''/d''" 3]
    by (simp add: Fanotify_StartMonitoring_def)
qed

lemma fan_stream_facts:
  "rescans_ok fan_stream"
  "added_by_all fan_stream = [sample_file ''/d/'' ''Dog'', sample_file ''/d/'' ''Dog'']"
  by (simp_all add: fan_stream_def rescan_ok_def added_by_all_def added_by_def added_event_def
      removed_event_def Rescan_last dog_scanner_def scan_entries_def) (simp add: sample_file_def)

lemma fan_room: "grow_fits (is_pool sample_store) [sample_file ''/d/'' ''Dog'', sample_file ''/d/'' ''Dog'']"
  by (simp add: grow_fits_def build_fits_def sample_store_def ApplyAdd_def empty_store_def
      sample_file_def empty_pool_def AddEntry_sizes TokenizeToSpans_def IsSeparator_def suffix_def)


section \<open>Where the index goes astray\<close>

text \<open>A file renamed over another, as editors save: the kernel reports the two halves of the move and
  nothing for the file that was there, whose entry stays beside the new one.\<close>

lemma rename_over_keeps_both:
  "\<exists>t. ApplyChangeEvent no_scanner \<lparr>fc_type = Renamed, fc_path = ''/d/a b'', fc_oldPath = ''/d/Cat.txt''\<rparr> sample_store =
      Some (t, True) \<and> store_paths t = [''/d/a b'', ''/d/a b'']"
proof -
  have "store_fits sample_store (renamed_entry ''/d/a b'')"
    by (simp add: renamed_entry_def store_fits_def sample_store_def ApplyAdd_def empty_store_def entry_fits_def
        basename_def sample_file_def empty_pool_def AddEntry_def Let_def TokenizeToSpans_def IsSeparator_def
        CaseFoldAscii_def fold_char_def suffix_def)
  then obtain t where t: "ApplyRename sample_store ''/d/Cat.txt'' ''/d/a b'' = Some t"
    "store_abs t = spec_remove ''/d/Cat.txt'' (store_abs sample_store) @ [(renamed_entry ''/d/a b'', False)]"
    using ApplyRename_refines [OF sample_store_inv, of "''/d/a b''" "''/d/Cat.txt''"]
    by (auto simp: renamed_entry_def)
  have "store_live t = drop_first (\<lambda>e. fe_path e = ''/d/Cat.txt'') (store_live sample_store) @ [renamed_entry ''/d/a b'']"
    using t(2) by (simp add: store_live_abs live_of_spec_remove)
  then have "store_paths t = [''/d/a b'', ''/d/a b'']"
    by (simp add: store_paths_def sample_store_live) (simp add: sample_file_def renamed_entry_def)
  with t(1) show ?thesis by (simp add: ApplyChangeEvent_def)
qed

text \<open>A directory is moved out of the tree: one removal is reported, of the directory itself, and all
  entries below it stay.\<close>

lemma moved_directory_keeps_children:
  "ba_changes (RunBatch [Inotify_Watcher.sample_event (IN_MOVED_FROM OR IN_ISDIR) 7 ''d''] [7] nested_monitor) =
     [removed_event ''/r/d'']"
  "\<exists>t. ApplyChangeEvent no_scanner (removed_event ''/d'') sample_store = Some (t, True) \<and>
     store_paths t = [''/d/a b'', ''/d/Cat.txt'']"
proof -
  show "ba_changes (RunBatch [Inotify_Watcher.sample_event (IN_MOVED_FROM OR IN_ISDIR) 7 ''d''] [7] nested_monitor) =
     [removed_event ''/r/d'']"
    by (simp add: RunBatch_def Inotify_Watcher.sample_event_def HandleEvent_def begin_batch_def nested_monitor_def
        PathFor_def WatchTable_Add_def watch_new_def report_def Let_def JoinChild_def WdFor_def has_bit_def
        in_bits)
  obtain t where "ApplyRemove sample_store ''/d'' = Some t" using store.remove_total [OF sample_store_inv] by blast
  with store.remove_paths [OF sample_store_inv this]
  show "\<exists>t. ApplyChangeEvent no_scanner (removed_event ''/d'') sample_store = Some (t, True) \<and>
     store_paths t = [''/d/a b'', ''/d/Cat.txt'']"
    by (simp add: ApplyChangeEvent_def removed_event_def sample_store_paths)
qed

text \<open>A scan leaves out what is excluded; the re-scan of a live change asks for nothing to be left out.\<close>

definition excluding_scanner :: Scanner where
  "excluding_scanner options =
     map OnEntry (filter (\<lambda>e. \<not> IsPathExcluded (fe_path e) (so_excludedPaths options)) [sample_file ''/c/'' ''tmp''])"

lemma excluded_path_enters_live:
  "scan_entries (excluding_scanner \<lparr>so_rootPaths = [''/c''], so_excludedPaths = [''/c'']\<rparr>) = []"
  "\<exists>t. ApplyChangeEvent excluding_scanner (added_event ''/c/tmp'') sample_store = Some (t, True) \<and>
     ''/c/tmp'' \<in> set (store_paths t)"
proof -
  show "scan_entries (excluding_scanner \<lparr>so_rootPaths = [''/c''], so_excludedPaths = [''/c'']\<rparr>) = []"
    by (simp add: excluding_scanner_def IsPathExcluded_def IsPathUnderOrEqual_def sample_file_def scan_entries_def)
  have "store_fits sample_store (sample_file ''/c/'' ''tmp'')"
    by (simp add: store_fits_def sample_store_def ApplyAdd_def empty_store_def entry_fits_def
        sample_file_def empty_pool_def AddEntry_def Let_def TokenizeToSpans_def IsSeparator_def
        CaseFoldAscii_def fold_char_def suffix_def)
  moreover have "Rescan excluding_scanner ''/c/tmp'' = Some (sample_file ''/c/'' ''tmp'')"
    by (simp add: Rescan_last excluding_scanner_def IsPathExcluded_def scan_entries_def)
  ultimately show "\<exists>t. ApplyChangeEvent excluding_scanner (added_event ''/c/tmp'') sample_store = Some (t, True) \<and>
     ''/c/tmp'' \<in> set (store_paths t)"
    by (simp add: ApplyChangeEvent_def added_event_def store.add_paths [OF sample_store_inv])
      (simp add: sample_file_def)
qed

text \<open>A fanotify mark covers the whole file system a root is on, and nothing compares what is reported with
  the root: changes elsewhere enter the index, and two roots on one file system report each twice.\<close>

lemma outside_root_reported:
  "Fanotify_StartMonitoring (Some (\<lambda>fd h. ''/etc'')) 0 0 3
     (kernel_turns [[Fanotify_Monitor.sample_event FAN_CREATE ''x'']]) = Some [added_event ''/etc/x'']"
proof -
  have "reported (\<lambda>fd h. ''/etc'') 3 (Fanotify_Monitor.sample_event FAN_CREATE ''x'') = [added_event ''/etc/x'']"
    by (simp add: reported_def Fanotify_Monitor.sample_event_def ClassifyMask_def fan_bits
        Fanotify_JoinPath_def added_event_def)
  then show ?thesis
    using Fanotify_loop_kernel [of "[[Fanotify_Monitor.sample_event FAN_CREATE ''x'']]" "\<lambda>fd h. ''/etc''" 3]
    by (simp add: Fanotify_StartMonitoring_def wf_sample_event)
qed

lemma shared_filesystem_duplicates:
  "\<exists>t. apply_changes [(dog_scanner, added_event ''/d/Dog''), (dog_scanner, added_event ''/d/Dog'')] sample_store =
      Some t \<and> store_paths t = [''/d/a b'', ''/d/Cat.txt'', ''/d/Dog'', ''/d/Dog'']"
proof -
  let ?dog = "sample_file ''/d/'' ''Dog''"
  have found: "Rescan dog_scanner path = Some ?dog" for path
    by (simp add: Rescan_last dog_scanner_def scan_entries_def)
  have step: "ApplyChangeEvent dog_scanner (added_event ''/d/Dog'') s = Some (ApplyAdd s ?dog, True)" for s
    by (simp add: ApplyChangeEvent_def added_event_def found)
  note room = grow_fits_Cons [OF fan_room]
  have fits: "store_fits sample_store ?dog" "store_fits (ApplyAdd sample_store ?dog) ?dog"
    using room(1) grow_fits_Cons(1) [OF room(2)] by (simp_all add: store_fits_def ApplyAdd_def)
  have "store_inv (ApplyAdd sample_store ?dog)" by (rule store.add_inv [OF sample_store_inv fits(1)])
  from store.add_paths [OF this fits(2)] store.add_paths [OF sample_store_inv fits(1)]
  show ?thesis by (simp add: step sample_store_paths) (simp add: sample_file_def)
qed

text \<open>The helper saves the index by renaming a temporary file, which is itself a change on the monitored
  file system: its removal counts as a mutation whatever the index holds, so each save asks for
  the next.\<close>

lemma own_save_is_a_change:
  "store_inv s \<Longrightarrow> \<exists>t. ApplyChangeEvent scanner (removed_event path) s = Some (t, True)"
  using store.remove_total [of s path] by (auto simp: ApplyChangeEvent_def removed_event_def)

end
