(* ===== verification/Helper_Process.thy ===== *)
theory Helper_Process
  imports Elevation Settings_Store Indexer_Core Save_Throttle
begin

text \<open>
  The root helper (\<open>helper/main_helper.cpp\<close>, \<open>settings/HelperSettings.cpp\<close>): how it opens its log,
  reads the settings and the index through the hardened operations, and its main process, a
  step relation of the main loop, the signal handler and the monitor threads. The scanner, the
  clock, the changes the monitors see and the outcome of each hardened operation are chosen
  freely at each step; the helper is taken to be the only writer of the index file while it runs.
\<close>

section \<open>Files of the target user\<close>

definition ElevationErrorName :: "ElevationError \<Rightarrow> string" where
  "ElevationErrorName error =
     (case error of
        kNone \<Rightarrow> ''none''
      | kPathNotUnderBase \<Rightarrow> ''path not under base directory''
      | kSymlinkInPath \<Rightarrow> ''symlink in path''
      | kOwnershipMismatch \<Rightarrow> ''ownership mismatch''
      | kStatFailed \<Rightarrow> ''stat failed (missing directory?)''
      | kOpenFailed \<Rightarrow> ''open failed''
      | kWriteFailed \<Rightarrow> ''write, sync or rename failed''
      | kNotRegularFile \<Rightarrow> ''not a regular file owned by the target user'')"

definition RootWriteGuard :: "Kernel \<Rightarrow> string \<Rightarrow> u32 \<Rightarrow> u32 \<Rightarrow> u32 \<Rightarrow> (ElevationError + nat) prog" where
  "RootWriteGuard k path targetUid flags perm =
     OpenForRootWrite k path targetUid (parent_path path) flags perm"

definition FdPath :: "nat \<Rightarrow> string" where
  "FdPath fd = ''/proc/self/fd/'' @ to_string fd"

text \<open>The log: a file an older version created as root is removed and made again.\<close>

definition OpenLog :: "Kernel \<Rightarrow> string \<Rightarrow> u32 \<Rightarrow> (ElevationError + nat) prog" where
  "OpenLog k logPath uid = do {
     guard \<leftarrow> RootWriteGuard k logPath uid (O_WRONLY OR O_CREAT) 384;
     if guard = Inl kNotRegularFile then do {
       removed \<leftarrow> RemoveFileForRootWrite k logPath uid (parent_path logPath);
       if removed = kNone then RootWriteGuard k logPath uid (O_WRONLY OR O_CREAT) 384
       else ret guard }
     else ret guard }"

text \<open>Reading the whole of an open file.\<close>

definition read_fd :: "Kernel \<Rightarrow> nat \<Rightarrow> (Errno + string) prog" where
  "read_fd k fd = syscall k (\<lambda>fs. case fs fd of None \<Rightarrow> (Inl EOther, fs, []) | Some nd \<Rightarrow> (Inr (nd_data nd), fs, []))"

definition LoadSettingsForRoot ::
  "Kernel \<Rightarrow> (string \<Rightarrow> string option) \<Rightarrow> string \<Rightarrow> TargetUser \<Rightarrow> Settings \<Rightarrow> (ElevationError \<times> Settings) prog"
where
  "LoadSettingsForRoot k realpath configPath user out = do {
     r \<leftarrow> OpenRegularFileForRootRead k configPath (tu_uid user) (parent_path configPath);
     case r of
       Inl e \<Rightarrow> ret (e, out)
     | Inr fd \<Rightarrow> do {
         bytes \<leftarrow> read_fd k fd;
         let (loaded, viaFd) = Settings_Load realpath
               (case bytes of Inl e \<Rightarrow> FileUnreadable | Inr text' \<Rightarrow> FileText text')
               (new_Settings (FdPath fd) (tu_homeDir user));
         close_fd fd;
         ret (if loaded then (kNone, viaFd) else (kOpenFailed, out)) } }"

text \<open>The hooks the indexer saves and loads the index with; the text is what is logged.\<close>

definition SaveHook ::
  "Kernel \<Rightarrow> TargetUser \<Rightarrow> string \<Rightarrow> string \<Rightarrow> string \<Rightarrow> (bool \<times> string option) prog" where
  "SaveHook k user indexBaseDir idxFilePath bytes = do {
     error \<leftarrow> ReplaceFileForRootWrite k idxFilePath (tu_uid user) (tu_gid user) indexBaseDir bytes kSynced;
     ret (if error \<noteq> kNone then (False, Some (''failed to save index: '' @ ElevationErrorName error))
          else (True, None)) }"

definition LoadHook ::
  "Kernel \<Rightarrow> TargetUser \<Rightarrow> string \<Rightarrow> string \<Rightarrow> (LoadResult option \<times> string option) prog" where
  "LoadHook k user indexBaseDir idxFilePath = do {
     r \<leftarrow> OpenRegularFileForRootRead k idxFilePath (tu_uid user) indexBaseDir;
     case r of
       Inl error \<Rightarrow> ret (Some load_failed,
         if error \<noteq> kOpenFailed then Some (''refusing to load index: '' @ ElevationErrorName error) else None)
     | Inr fd \<Rightarrow> do {
         bytes \<leftarrow> read_fd k fd;
         close_fd fd;
         ret (Load (case bytes of Inl e \<Rightarrow> None | Inr b \<Rightarrow> Some b), None) } }"

text \<open>Scan progress is written at most every 100 ms; times are those of the steady clock.\<close>

definition status_due :: "int \<Rightarrow> IndexerStatus \<Rightarrow> int \<Rightarrow> bool \<times> int" where
  "status_due now status lastScanStatus =
     (if ix_state status = Scanning then
        if now - lastScanStatus < 100000000 then (False, lastScanStatus) else (True, now)
      else (True, lastScanStatus))"

definition WriteStatus ::
  "Kernel \<Rightarrow> TargetUser \<Rightarrow> string \<Rightarrow> int \<Rightarrow> IndexerStatus \<Rightarrow> int \<Rightarrow> int prog" where
  "WriteStatus k user statusPath now status lastScanStatus =
     (let text' = SerializeStatus status; (due, lastScanStatus') = status_due now status lastScanStatus
      in if \<not> due then ret lastScanStatus'
         else do {
           ReplaceFileForRootWrite k statusPath (tu_uid user) (tu_gid user) (parent_path statusPath) text'
             kUnsynced;
           ret lastScanStatus' })"

datatype MonitorChoice = UseFanotify | UseInotify

definition ChooseMonitor :: "(string \<Rightarrow> bool) \<Rightarrow> (string \<Rightarrow> bool) \<Rightarrow> string \<Rightarrow> MonitorChoice option" where
  "ChooseMonitor fanotifyAvailable inotifyAvailable root =
     (if fanotifyAvailable root then Some UseFanotify
      else if inotifyAvailable root then Some UseInotify
      else None)"

text \<open>Reading the settings and the index as root: only checked files are read, the descriptor is
  closed again, and settings that cannot be read are kept as they were.\<close>

lemma wp_read_fd [wps]: "(\<And>r. Q r A P) \<Longrightarrow> wp (read_fd k fd) Q A P"
  unfolding read_fd_def by (intro wp_syscall) (auto split: option.splits)

lemma LoadSettingsForRoot_safe:
  "case run (LoadSettingsForRoot k realpath path user out) fs of ((e, s), A, P) \<Rightarrow>
     P = {#} \<and> (e \<noteq> kNone \<longrightarrow> s = out) \<and> all_permitted (tu_uid user) contents synced A"
proof -
  have "wp (LoadSettingsForRoot k realpath path user out)
    (\<lambda>(e, s) A P. P = {#} \<and> (e \<noteq> kNone \<longrightarrow> s = out) \<and> all_permitted (tu_uid user) contents synced A) [] {#}"
    unfolding LoadSettingsForRoot_def OpenRegularFileForRootRead_def Let_def
    by (intro wp_bind wp_OpenForRootWrite [where c = contents and y = synced] wp_read_fd)
      (auto intro!: wps split: prod.splits)
  from run_wp [OF this, of fs] show ?thesis by (auto split: prod.splits)
qed

lemma LoadHook_safe:
  "case run (LoadHook k user dir path) fs of (r, A, P) \<Rightarrow>
     P = {#} \<and> all_permitted (tu_uid user) contents synced A"
  unfolding LoadHook_def OpenRegularFileForRootRead_def
  by (intro run_wp wp_bind wp_OpenForRootWrite [where c = contents and y = synced])
    (auto intro!: wps split: prod.splits)

lemma OpenLog_safe:
  "case run (OpenLog k path uid) fs of (r, A, P) \<Rightarrow> all_permitted uid contents synced A \<and>
     (case r of Inl e \<Rightarrow> P = {#} | Inr fd \<Rightarrow> P = {#fd#} \<and> users_file uid A fd)"
  unfolding OpenLog_def RootWriteGuard_def
  by (intro run_wp wp_bind wp_OpenForRootWrite [where c = contents and y = synced])
    (auto intro!: wps wp_OpenForRootWrite [where c = contents and y = synced]
      wp_RemoveFileForRootWrite [where c = contents and y = synced])

section \<open>The main loop\<close>

text \<open>
  Where the main thread is. \<open>HJoin\<close> and \<open>HRebuild\<close> are the stop of the monitor and the forced
  build, for a reload (\<open>True\<close>) or a reindex request; \<open>HSerialize\<close> and \<open>HWrite\<close> are the two halves
  of saving live changes, with the time the save began.
\<close>

datatype HelperPc =
    HBoot
  | HTop
  | HCheckReload
  | HJoin bool
  | HRebuild bool
  | HCheckReindex
  | HCheckSave
  | HSerialize u64
  | HWrite u64 string
  | HSleep
  | HStopJoin
  | HFinalSave
  | HExited

datatype Signal = SIGTERM | SIGHUP | SIGUSR1 | OtherSignal

text \<open>
  \<open>hp_file\<close> is the index file, \<open>hp_monitoring\<close> the roots of the running monitor threads,
  \<open>hp_marks\<close> the changes they have applied and not yet notified. \<open>hp_saveFailed\<close> remembers that
  the save of a build, or the last save, failed.
\<close>

record Helper =
  hp_pc :: HelperPc
  hp_stop :: bool
  hp_reload :: bool
  hp_reindex :: bool
  hp_settings :: Settings
  hp_store :: IndexStore
  hp_file :: "string option"
  hp_monitoring :: "string list option"
  hp_marks :: nat
  hp_throttle :: SaveThrottle
  hp_log :: "(string \<times> LogLevel) list"
  hp_saveFailed :: bool

definition HandleSignal :: "Signal \<Rightarrow> Helper \<Rightarrow> Helper" where
  "HandleSignal sig h =
     (case sig of
        SIGTERM \<Rightarrow> h\<lparr>hp_stop := True\<rparr>
      | SIGHUP \<Rightarrow> h\<lparr>hp_reload := True\<rparr>
      | SIGUSR1 \<Rightarrow> h\<lparr>hp_reindex := True\<rparr>
      | OtherSignal \<Rightarrow> h)"

text \<open>What a step of the main thread is given: two readings of the clock, what the settings file
  gave, the scanner, whether the index file could be opened, and how a replacement of it ended.\<close>

record HelperInput =
  hi_nowNs :: u64
  hi_laterNs :: u64
  hi_settings :: "ElevationError + Settings"
  hi_scanner :: Scanner
  hi_readable :: bool
  hi_saved :: ElevationError

definition log_line :: "string \<Rightarrow> LogLevel \<Rightarrow> Helper \<Rightarrow> Helper" where
  "log_line message level h = h\<lparr>hp_log := hp_log h @ [(message, level)]\<rparr>"

definition currentOptions :: "Settings \<Rightarrow> ScanOptions" where
  "currentOptions s = \<lparr>so_rootPaths = st_selectedRoots s, so_excludedPaths = st_excludedPaths s\<rparr>"

definition staleThresholdSeconds :: "Settings \<Rightarrow> u64" where
  "staleThresholdSeconds s = word_of_int (st_reindexIntervalHours s) * 3600"

definition kLiveSaveIntervalNs :: u64 where
  "kLiveSaveIntervalNs = 2000000000"

text \<open>A save of the index file by the hook: the outcome and the message.\<close>

definition put_file :: "ElevationError \<Rightarrow> string \<Rightarrow> Helper \<Rightarrow> Helper" where
  "put_file saved bytes h =
     (if saved = kNone then h\<lparr>hp_file := Some bytes\<rparr>
      else log_line (''failed to save index: '' @ ElevationErrorName saved) LevelError h)"

definition load_file :: "bool \<Rightarrow> Helper \<Rightarrow> LoadResult option" where
  "load_file readable h = (if readable then Load (hp_file h) else Some load_failed)"

text \<open>\<open>StartIndexing\<close>, \<open>MarkSaved\<close>, and the start of the monitor thread.\<close>

definition build_index :: "bool \<Rightarrow> HelperInput \<Rightarrow> Helper \<Rightarrow> Helper option" where
  "build_index force inp h = do {
     loaded \<leftarrow> (if force then Some load_failed else load_file (hi_readable inp) h);
     r \<leftarrow> StartIndexing force (currentOptions (hp_settings h)) (hi_nowNs inp)
           (staleThresholdSeconds (hp_settings h)) loaded (hi_scanner inp) False (hp_store h);
     let h' = (case ir_saved r of
                 None \<Rightarrow> h
               | Some bytes \<Rightarrow> put_file (hi_saved inp) bytes (h\<lparr>hp_saveFailed := hi_saved inp \<noteq> kNone\<rparr>));
     Some (h'\<lparr>hp_store := ir_store r, hp_throttle := MarkSaved (hi_laterNs inp) (hp_throttle h),
              hp_monitoring := Some (so_rootPaths (currentOptions (hp_settings h)))\<rparr>) }"

definition reload_settings :: "ElevationError + Settings \<Rightarrow> Helper \<Rightarrow> Helper" where
  "reload_settings r h =
     (let h = (case r of
                 Inr s \<Rightarrow> h\<lparr>hp_settings := s\<rparr>
               | Inl e \<Rightarrow>
                   if e \<noteq> kNone \<and> e \<noteq> kOpenFailed then
                     log_line (''refusing to read settings, keeping previous: '' @ ElevationErrorName e)
                       LevelWarning h
                   else h)
      in log_line ''settings reloaded, rebuilding index'' LevelInfo h)"

text \<open>One step of the main thread. \<open>None\<close>: it has ended, waits in \<open>join\<close>, or the index faults.\<close>

definition main_step :: "HelperInput \<Rightarrow> Helper \<Rightarrow> Helper option" where
  "main_step inp h =
     (case hp_pc h of
        HBoot \<Rightarrow> do {
          h' \<leftarrow> build_index False inp h;
          Some (log_line ''initial indexing complete, starting live monitoring'' LevelInfo
                  (h'\<lparr>hp_pc := HTop\<rparr>)) }
      | HTop \<Rightarrow>
          if hp_stop h then
            Some (log_line ''SIGTERM received, stopping monitoring and exiting'' LevelWarning
                    (h\<lparr>hp_pc := HStopJoin\<rparr>))
          else Some (h\<lparr>hp_pc := HCheckReload\<rparr>)
      | HCheckReload \<Rightarrow>
          if hp_reload h then
            Some (reload_settings (hi_settings inp) (h\<lparr>hp_reload := False, hp_pc := HJoin True\<rparr>))
          else Some (h\<lparr>hp_pc := HCheckReindex\<rparr>)
      | HJoin reload \<Rightarrow>
          if hp_marks h = 0 then Some (h\<lparr>hp_monitoring := None, hp_pc := HRebuild reload\<rparr>) else None
      | HRebuild reload \<Rightarrow> do {
          h' \<leftarrow> build_index True inp h;
          Some (h'\<lparr>hp_pc := (if reload then HCheckReindex else HCheckSave)\<rparr>) }
      | HCheckReindex \<Rightarrow>
          if hp_reindex h then
            Some (log_line ''reindex requested'' LevelInfo (h\<lparr>hp_reindex := False, hp_pc := HJoin False\<rparr>))
          else Some (h\<lparr>hp_pc := HCheckSave\<rparr>)
      | HCheckSave \<Rightarrow>
          (case ShouldSave (hi_nowNs inp) (hp_throttle h) of (due, t) \<Rightarrow>
             Some (h\<lparr>hp_throttle := t, hp_pc := (if due then HSerialize (hi_laterNs inp) else HSleep)\<rparr>))
      | HSerialize saveStartNs \<Rightarrow> do {
          bytes \<leftarrow> PersistLiveChanges (hp_store h);
          Some (h\<lparr>hp_pc := HWrite saveStartNs bytes\<rparr>) }
      | HWrite saveStartNs bytes \<Rightarrow>
          let h' = put_file (hi_saved inp) bytes h;
              t = (if hi_saved inp = kNone then hp_throttle h else MarkDirty (hp_throttle h))
          in Some (h'\<lparr>hp_throttle := RecordSaveDuration (hi_nowNs inp - saveStartNs) t,
                      hp_saveFailed := hp_saveFailed h \<and> hi_saved inp \<noteq> kNone, hp_pc := HSleep\<rparr>)
      | HSleep \<Rightarrow> Some (h\<lparr>hp_pc := HTop\<rparr>)
      | HStopJoin \<Rightarrow>
          if hp_marks h = 0 then Some (h\<lparr>hp_monitoring := None, hp_pc := HFinalSave\<rparr>) else None
      | HFinalSave \<Rightarrow>
          if HasPendingChanges (hp_throttle h) then do {
            bytes \<leftarrow> PersistLiveChanges (hp_store h);
            Some (put_file (hi_saved inp) bytes
                    (h\<lparr>hp_saveFailed := hi_saved inp \<noteq> kNone, hp_pc := HExited\<rparr>)) }
          else Some (h\<lparr>hp_pc := HExited\<rparr>)
      | HExited \<Rightarrow> None)"

section \<open>The helper as a transition system\<close>

text \<open>What the environment keeps to: scans and re-scans that fit the index, a loaded index that is
  well formed and fits.\<close>

definition pool_ok :: "IndexPool \<Rightarrow> bool" where
  "pool_ok p \<longleftrightarrow> pool_inv p \<and> image_fits (live_entries p)"

definition main_guard :: "HelperInput \<Rightarrow> Helper \<Rightarrow> bool" where
  "main_guard inp h \<longleftrightarrow>
     build_fits (scan_entries (hi_scanner inp (currentOptions (hp_settings h)))) \<and>
     (hp_pc h = HBoot \<longrightarrow> (\<exists>r. load_file (hi_readable inp) h = Some r \<and> pool_ok (lr_pool r)))"

definition event_fits :: "Scanner \<Rightarrow> FileChangeEvent \<Rightarrow> IndexStore \<Rightarrow> bool" where
  "event_fits scanner ev s \<longleftrightarrow>
     (\<forall>e. Rescan scanner (fc_path ev) = Some e \<longrightarrow> store_fits s e) \<and>
     (fc_type ev = Renamed \<longrightarrow> store_fits s (renamed_entry (fc_path ev)))"

inductive helper_step :: "Helper \<Rightarrow> Helper \<Rightarrow> bool" where
  main: "main_guard inp h \<Longrightarrow> main_step inp h = Some h' \<Longrightarrow> helper_step h h'"
| signal: "helper_step h (HandleSignal sig h)"
| change: "hp_monitoring h \<noteq> None \<Longrightarrow> event_fits scanner ev (hp_store h) \<Longrightarrow>
    ApplyChangeEvent scanner ev (hp_store h) = Some (s', notify) \<Longrightarrow> image_fits (store_live s') \<Longrightarrow>
    helper_step h (h\<lparr>hp_store := s', hp_marks := hp_marks h + (if notify then 1 else 0)\<rparr>)"
| mark: "hp_marks h > 0 \<Longrightarrow>
    helper_step h (h\<lparr>hp_throttle := MarkDirty (hp_throttle h), hp_marks := hp_marks h - 1\<rparr>)"

definition helper_start :: "Settings \<Rightarrow> string option \<Rightarrow> u64 \<Rightarrow> string \<Rightarrow> Helper" where
  "helper_start settings file' nowNs username =
     \<lparr>hp_pc = HBoot, hp_stop = False, hp_reload = False, hp_reindex = False, hp_settings = settings,
      hp_store = empty_store, hp_file = file', hp_monitoring = None, hp_marks = 0,
      hp_throttle = new_SaveThrottle kLiveSaveIntervalNs nowNs,
      hp_log = [(''indexed-helper starting, target user '' @ username, LevelWarning)],
      hp_saveFailed = False\<rparr>"

inductive helper_reachable :: "Helper \<Rightarrow> bool" where
  start: "helper_reachable (helper_start settings file' nowNs username)"
| step: "helper_reachable h \<Longrightarrow> helper_step h h' \<Longrightarrow> helper_reachable h'"

inductive_cases helper_stepE: "helper_step h h'"

section \<open>Start-up\<close>

text \<open>The paths come from the home directory of the target user alone.\<close>

definition helper_dirs :: "(string \<Rightarrow> bool) \<Rightarrow> string \<Rightarrow> TargetUser \<Rightarrow> DataDirs" where
  "helper_dirs exists executableDir user =
     ResolveDataDirs exists executableDir
       \<lparr>xe_home = tu_homeDir user, xe_xdgConfigHome = [], xe_xdgCacheHome = [], xe_xdgStateHome = []\<rparr>"

definition helper_statusPath :: "DataDirs \<Rightarrow> string" where
  "helper_statusPath dirs = path_join (parent_path (dd_indexPath dirs)) ''indexed.status''"

definition initial_settings ::
  "Kernel \<Rightarrow> (string \<Rightarrow> string option) \<Rightarrow> string \<Rightarrow> TargetUser \<Rightarrow> (ElevationError \<times> Settings) prog" where
  "initial_settings k realpath configPath user =
     LoadSettingsForRoot k realpath configPath user
       (SetExcludedPaths (new_Settings configPath (tu_homeDir user))
          (DefaultExcludedPaths (tu_homeDir user)))"

text \<open>The exit code of a refused start, or the helper before its first build and its log.\<close>

definition helper_startup ::
  "Kernel \<Rightarrow> string option \<Rightarrow> (u32 \<Rightarrow> (u32 \<times> string option \<times> string option) option) \<Rightarrow> (string \<Rightarrow> bool) \<Rightarrow>
   string \<Rightarrow> (string \<Rightarrow> string option) \<Rightarrow> u64 \<Rightarrow> string option \<Rightarrow> (int + Helper \<times> Logger) prog" where
  "helper_startup k pkexecUid getpwuid exists executableDir realpath nowNs indexFile =
     (case ResolveTargetUser pkexecUid getpwuid of
        None \<Rightarrow> ret (Inl 1)
      | Some user \<Rightarrow> do {
          let dirs = helper_dirs exists executableDir user;
          guard \<leftarrow> OpenLog k (dd_logPath dirs) (tu_uid user);
          case guard of
            Inl e \<Rightarrow> ret (Inl 1)
          | Inr fd \<Rightarrow> do {
              (error, settings) \<leftarrow> initial_settings k realpath (dd_configPath dirs) user;
              ret (Inr (helper_start settings indexFile nowNs (tu_username user),
                        \<lparr>lg_logPath = FdPath fd, lg_level = st_logLevel settings\<rparr>)) } })"

section \<open>What the index file holds\<close>

definition holds :: "string option \<Rightarrow> IndexStore \<Rightarrow> bool" where
  "holds file' s \<longleftrightarrow>
     (\<exists>r. Load file' = Some r \<and> lr_success r \<and> live_entries (lr_pool r) = store_live s)"

definition store_ok :: "IndexStore \<Rightarrow> bool" where
  "store_ok s \<longleftrightarrow> store_inv s \<and> image_fits (store_live s)"

lemma persist_holds:
  assumes "store_ok s"
  shows "\<exists>bytes. PersistLiveChanges s = Some bytes \<and> holds (Some bytes) s"
proof -
  have "pool_inv (is_pool s)" "image_fits (live_entries (is_pool s))"
    using assms by (simp_all add: store_ok_def store_inv_def store_live_def)
  from Load_Serialize_image [OF pool_inv_safe [OF this(1)] this(2),
      of "is_buildTimestampNs s" "is_lastMonitorStopNs s"]
  show ?thesis
    by (auto simp: PersistLiveChanges_def SaveIndex_def holds_def store_live_def live_entries_abs)
qed

lemma pool_ok_empty [simp]: "pool_ok empty_pool"
  by (simp add: pool_ok_def image_fits_def live_entries_abs)

lemma store_ok_empty [simp]: "store_ok empty_store"
  by (simp add: store_ok_def image_fits_def store_live_def live_entries_abs empty_store_def store_inv_def)

text \<open>What a build leaves of the rest of the state.\<close>

lemma build_index_frame:
  assumes "build_index force inp h = Some h'"
  shows "hp_pc h' = hp_pc h" "hp_settings h' = hp_settings h" "hp_marks h' = hp_marks h"
    "hp_monitoring h' = Some (st_selectedRoots (hp_settings h))"
  using assms
  by (auto simp: build_index_def put_file_def log_line_def currentOptions_def elim!: bind_SomeE
      split: option.splits if_splits)

lemma build_index_ok:
  assumes "store_ok (hp_store h)" "\<not> force \<Longrightarrow> hp_pc h = HBoot" "main_guard inp h"
  shows "\<exists>h'. build_index force inp h = Some h' \<and> store_ok (hp_store h') \<and>
    (hp_saveFailed h' \<or> holds (hp_file h') (hp_store h'))"
proof -
  let ?opts = "currentOptions (hp_settings h)" and ?sc = "hi_scanner inp"
  let ?stale = "staleThresholdSeconds (hp_settings h)"
  obtain r where r: "(if force then Some load_failed else load_file (hi_readable inp) h) = Some r"
    "pool_ok (lr_pool r)"
    using assms(2,3)
    by (cases force) (auto simp: main_guard_def load_failed_def)
  have fits: "build_fits (scan_entries (?sc ?opts))"
    using assms(3) by (simp add: main_guard_def)
  have run: "build_index force inp h = Some ((case ir_saved res of
        None \<Rightarrow> h
      | Some bytes \<Rightarrow> put_file (hi_saved inp) bytes (h\<lparr>hp_saveFailed := hi_saved inp \<noteq> kNone\<rparr>))
      \<lparr>hp_store := ir_store res, hp_throttle := MarkSaved (hi_laterNs inp) (hp_throttle h),
       hp_monitoring := Some (so_rootPaths ?opts)\<rparr>)"
    if "StartIndexing force ?opts (hi_nowNs inp) ?stale r ?sc False (hp_store h) = Some res" for res
    unfolding build_index_def r(1) using that by simp
  show ?thesis
  proof (cases "force \<or> \<not> lr_success r \<or> ?stale < age_seconds (hi_nowNs inp) (lr_buildTimestampNs r)")
    case True
    from StartIndexing_scan [where scanner = "hi_scanner inp" and options = ?opts, OF this fits,
        of "hp_store h"]
    obtain res bytes q where res:
      "StartIndexing force ?opts (hi_nowNs inp) ?stale r ?sc False (hp_store h) = Some res"
      "pool_inv (is_pool (ir_store res))" "store_live (ir_store res) = scan_entries (?sc ?opts)"
      "is_stagingPool (ir_store res) = empty_pool" "ir_saved res = Some bytes"
      "Load (Some bytes) = Some \<lparr>lr_success = True, lr_pool = q, lr_buildTimestampNs = hi_nowNs inp,
        lr_lastMonitorStopNs = is_lastMonitorStopNs (hp_store h)\<rparr>"
      "live_entries q = scan_entries (?sc ?opts)"
      by blast
    have "image_fits (scan_entries (?sc ?opts))"
      using fits by (simp add: build_fits_def image_fits_def)
    with res have "store_ok (ir_store res)" "holds (Some bytes) (ir_store res)"
      by (auto simp: store_ok_def store_inv_def holds_def)
    with run [OF res(1)] res(5) show ?thesis
      by (auto simp: put_file_def log_line_def)
  next
    case False
    then have f: "\<not> force" "lr_success r" "age_seconds (hi_nowNs inp) (lr_buildTimestampNs r) \<le> ?stale"
      by (auto simp: not_less)
    moreover from this r(1) have "Load (hp_file h) = Some r"
      by (auto simp: load_file_def load_failed_def split: if_splits)
    moreover obtain res where res:
      "StartIndexing force ?opts (hi_nowNs inp) ?stale r ?sc False (hp_store h) = Some res"
      "ir_saved res = None"
      "ir_store res = LoadPool (hp_store h) (lr_pool r) (lr_buildTimestampNs r) (lr_lastMonitorStopNs r)"
      using f by (simp add: StartIndexing_def Let_def)
    ultimately show ?thesis
      using run [OF res(1)] r(2) assms(1)
      by (auto simp: LoadPool_def store_ok_def store_inv_def store_live_def pool_ok_def holds_def)
  qed
qed

section \<open>Live changes keep the index well formed\<close>

lemma ApplyChangeEvent_inv:
  assumes "store_inv s" "event_fits scanner ev s"
  shows "\<exists>t notify. ApplyChangeEvent scanner ev s = Some (t, notify) \<and> store_inv t \<and> (\<not> notify \<longrightarrow> t = s)"
proof -
  have add: "store_inv (case Rescan scanner (fc_path ev) of None \<Rightarrow> u | Some e \<Rightarrow> ApplyAdd u e)"
    if "store_inv u" "\<And>e. store_fits u e = store_fits s e" for u
    using that assms(2) by (auto simp: event_fits_def ApplyAdd_refines(1) split: option.splits)
  obtain u where u: "ApplyRemove s (fc_path ev) = Some u" "store_inv u"
    using store.remove_total [OF assms(1)] by blast
  show ?thesis
  proof (cases "fc_type ev")
    case Added
    then show ?thesis using add [OF assms(1)] by (auto simp: ApplyChangeEvent_def split: option.splits)
  next
    case Removed
    then show ?thesis using u by (auto simp: ApplyChangeEvent_def intro: exI [of _ True])
  next
    case Renamed
    then show ?thesis
      using ApplyRename_refines [OF assms(1), of "fc_path ev" "fc_oldPath ev"] assms(2)
      by (auto simp: ApplyChangeEvent_def event_fits_def renamed_entry_def)
  next
    case Modified
    then show ?thesis
      using u add [OF u(2) ApplyRemove_fits [OF u(1)]]
      by (auto simp: ApplyChangeEvent_def intro: exI [of _ True])
  qed
qed

section \<open>The invariant\<close>

text \<open>Nothing is lost: unless a save failed, the file holds the index, or a change is still marked
  as pending, or about to be, or the bytes being written hold it.\<close>

definition saved_or_pending :: "Helper \<Rightarrow> bool" where
  "saved_or_pending h \<longleftrightarrow>
     (case hp_pc h of
        HBoot \<Rightarrow> True
      | HSerialize t \<Rightarrow> True
      | HWrite t bytes \<Rightarrow>
          th_dirty (hp_throttle h) \<or> hp_marks h > 0 \<or> holds (Some bytes) (hp_store h)
      | HExited \<Rightarrow> hp_saveFailed h \<or> holds (hp_file h) (hp_store h)
      | _ \<Rightarrow> hp_saveFailed h \<or> th_dirty (hp_throttle h) \<or> hp_marks h > 0 \<or>
             holds (hp_file h) (hp_store h))"

definition monitors_right :: "Helper \<Rightarrow> bool" where
  "monitors_right h \<longleftrightarrow>
     (case hp_pc h of
        HBoot \<Rightarrow> hp_monitoring h = None \<and> hp_marks h = 0
      | HRebuild r \<Rightarrow> hp_monitoring h = None \<and> hp_marks h = 0
      | HFinalSave \<Rightarrow> hp_monitoring h = None \<and> hp_marks h = 0
      | HExited \<Rightarrow> hp_monitoring h = None \<and> hp_marks h = 0
      | HJoin r \<Rightarrow> hp_monitoring h \<noteq> None
      | _ \<Rightarrow> hp_monitoring h = Some (st_selectedRoots (hp_settings h)))"

definition helper_inv :: "Helper \<Rightarrow> bool" where
  "helper_inv h \<longleftrightarrow> store_ok (hp_store h) \<and> saved_or_pending h \<and> monitors_right h"

lemma helper_inv_start: "helper_inv (helper_start settings file' nowNs username)"
  by (simp add: helper_inv_def helper_start_def saved_or_pending_def monitors_right_def)

lemma helper_inv_signal: "helper_inv h \<Longrightarrow> helper_inv (HandleSignal sig h)"
  by (cases sig; cases "hp_pc h")
    (auto simp: HandleSignal_def helper_inv_def saved_or_pending_def monitors_right_def)

lemma helper_inv_mark:
  "helper_inv h \<Longrightarrow> hp_marks h > 0 \<Longrightarrow>
   helper_inv (h\<lparr>hp_throttle := MarkDirty (hp_throttle h), hp_marks := hp_marks h - 1\<rparr>)"
  by (cases "hp_pc h")
    (auto simp: helper_inv_def saved_or_pending_def monitors_right_def MarkDirty_def)

lemma helper_inv_change:
  assumes "helper_inv h" "hp_monitoring h \<noteq> None" "event_fits scanner ev (hp_store h)"
    and "ApplyChangeEvent scanner ev (hp_store h) = Some (s', notify)" "image_fits (store_live s')"
  shows "helper_inv (h\<lparr>hp_store := s', hp_marks := hp_marks h + (if notify then 1 else 0)\<rparr>)"
proof -
  have "store_inv (hp_store h)" using assms(1) by (simp add: helper_inv_def store_ok_def)
  from ApplyChangeEvent_inv [OF this assms(3)] assms(4)
  have "store_inv s'" "\<not> notify \<longrightarrow> s' = hp_store h" by auto
  with assms(1,2,5) show ?thesis
    by (cases "hp_pc h")
      (auto simp: helper_inv_def saved_or_pending_def monitors_right_def store_ok_def)
qed

lemma helper_inv_main:
  assumes "helper_inv h" "main_guard inp h" "main_step inp h = Some h'"
  shows "helper_inv h'"
proof (cases "hp_pc h")
  case HBoot
  then obtain g where g: "build_index False inp h = Some g"
    and h': "h' = log_line ''initial indexing complete, starting live monitoring'' LevelInfo (g\<lparr>hp_pc := HTop\<rparr>)"
    using assms(3) by (auto simp: main_step_def elim!: bind_SomeE)
  with build_index_ok [of h False inp] assms(1,2) HBoot
  have "store_ok (hp_store g)" "hp_saveFailed g \<or> holds (hp_file g) (hp_store g)"
    by (auto simp: helper_inv_def)
  then show ?thesis
    using build_index_frame [OF g]
    by (auto simp: h' helper_inv_def saved_or_pending_def monitors_right_def log_line_def)
next
  case (HRebuild r)
  then obtain g where g: "build_index True inp h = Some g"
    and h': "h' = g\<lparr>hp_pc := (if r then HCheckReindex else HCheckSave)\<rparr>"
    using assms(3) by (auto simp: main_step_def elim!: bind_SomeE)
  with build_index_ok [of h True inp] assms(1,2)
  have "store_ok (hp_store g)" "hp_saveFailed g \<or> holds (hp_file g) (hp_store g)"
    by (auto simp: helper_inv_def)
  then show ?thesis
    using build_index_frame [OF g]
    by (auto simp: h' helper_inv_def saved_or_pending_def monitors_right_def log_line_def)
next
  case (HSerialize t)
  then show ?thesis
    using assms(1,3) persist_holds [of "hp_store h"]
    by (auto simp: main_step_def helper_inv_def saved_or_pending_def monitors_right_def elim!: bind_SomeE)
next
  case HFinalSave
  then show ?thesis
    using assms(1,3) persist_holds [of "hp_store h"]
    by (auto simp: main_step_def helper_inv_def saved_or_pending_def monitors_right_def put_file_def
        log_line_def HasPendingChanges_def elim!: bind_SomeE split: if_splits)
next
  case (HWrite t bytes)
  then show ?thesis
    using assms(1,3)
    by (auto simp: main_step_def helper_inv_def saved_or_pending_def monitors_right_def put_file_def
        log_line_def Let_def MarkDirty_def RecordSaveDuration_def split: if_splits)
next
  case HCheckReload
  then show ?thesis
    using assms(1,3)
    by (auto simp: main_step_def helper_inv_def saved_or_pending_def monitors_right_def
        reload_settings_def log_line_def Let_def split: if_splits sum.splits)
qed (use assms(1,3) in \<open>auto simp: main_step_def helper_inv_def saved_or_pending_def
  monitors_right_def log_line_def ShouldSave_def split: if_splits\<close>)

lemma helper_inv_reachable: "helper_reachable h \<Longrightarrow> helper_inv h"
proof (induction rule: helper_reachable.induct)
  case start
  then show ?case by (rule helper_inv_start)
next
  case (step h h')
  from step.hyps(2) show ?case
  proof (cases rule: helper_step.cases)
    case main
    then show ?thesis using step.IH by (blast intro: helper_inv_main)
  next
    case signal
    then show ?thesis using step.IH by (simp add: helper_inv_signal)
  next
    case change
    then show ?thesis using step.IH helper_inv_change by metis
  next
    case mark
    then show ?thesis using step.IH helper_inv_mark by metis
  qed
qed

section \<open>Properties of the helper\<close>

text \<open>C27: Whatever signals arrive, whatever changes the monitor threads apply and whenever, the index
  file holds exactly the live entries of the index when the helper has exited, and at every
  idle point without a pending change, unless the save of a build or the last save failed.\<close>

theorem helper_keeps_file_current:
  assumes "helper_reachable h" "\<not> hp_saveFailed h"
    and "hp_pc h = HExited \<or>
      hp_pc h \<in> {HTop, HSleep} \<and> \<not> HasPendingChanges (hp_throttle h) \<and> hp_marks h = 0"
  shows "\<exists>r. Load (hp_file h) = Some r \<and> lr_success r \<and>
    live_entries (lr_pool r) = store_live (hp_store h)"
  using helper_inv_reachable [OF assms(1)] assms(2,3)
  by (auto simp: helper_inv_def saved_or_pending_def HasPendingChanges_def holds_def)

text \<open>Between two builds the monitor threads watch exactly the configured roots, and none runs
  during a build or the final save.\<close>

lemma helper_monitors_configured_roots:
  assumes "helper_reachable h"
  shows "(hp_pc h \<in> {HTop, HCheckReload, HCheckReindex, HCheckSave, HSleep} \<longrightarrow>
      hp_monitoring h = Some (so_rootPaths (currentOptions (hp_settings h)))) \<and>
    (hp_pc h \<in> {HBoot, HRebuild True, HRebuild False, HFinalSave, HExited} \<longrightarrow>
      hp_monitoring h = None \<and> hp_marks h = 0)"
  using helper_inv_reachable [OF assms]
  by (auto simp: helper_inv_def monitors_right_def currentOptions_def)

text \<open>How many steps of the main thread are left once the stop flag is set.\<close>

definition steps_to_exit :: "HelperPc \<Rightarrow> nat" where
  "steps_to_exit pc =
     (case pc of
        HBoot \<Rightarrow> 14 | HCheckReload \<Rightarrow> 13 | HJoin reload \<Rightarrow> if reload then 12 else 9
      | HRebuild reload \<Rightarrow> if reload then 11 else 8 | HCheckReindex \<Rightarrow> 10 | HCheckSave \<Rightarrow> 7
      | HSerialize t \<Rightarrow> 6 | HWrite t bytes \<Rightarrow> 5 | HSleep \<Rightarrow> 4 | HTop \<Rightarrow> 3
      | HStopJoin \<Rightarrow> 2 | HFinalSave \<Rightarrow> 1 | HExited \<Rightarrow> 0)"

lemma build_index_stop: "build_index force inp h = Some h' \<Longrightarrow> hp_stop h' = hp_stop h"
  by (auto simp: build_index_def put_file_def log_line_def elim!: bind_SomeE
      split: option.splits if_splits)

lemma main_step_total:
  assumes "store_ok (hp_store h)" "hp_pc h \<noteq> HExited" "hp_marks h = 0" "main_guard inp h"
  shows "\<exists>h'. main_step inp h = Some h'"
proof (cases "hp_pc h")
  case HBoot
  then show ?thesis using build_index_ok [OF assms(1) _ assms(4), of False] by (auto simp: main_step_def)
next
  case (HRebuild r)
  then show ?thesis using build_index_ok [OF assms(1) _ assms(4), of True] by (auto simp: main_step_def)
qed (use assms persist_holds [OF assms(1)] in \<open>auto simp: main_step_def Let_def split: prod.splits\<close>)

lemma main_step_closer:
  assumes "main_step inp h = Some h'" "hp_stop h"
  shows "hp_stop h' \<and> steps_to_exit (hp_pc h') < steps_to_exit (hp_pc h)"
  using assms
  by (cases "hp_pc h")
    (auto simp: main_step_def steps_to_exit_def log_line_def reload_settings_def put_file_def Let_def
      build_index_stop elim!: bind_SomeE split: if_splits sum.splits prod.splits)


section \<open>A run\<close>

definition sample_settings :: Settings where
  "sample_settings = (new_Settings ''/c'' ''/home/u'')\<lparr>st_selectedRoots := [''/d'']\<rparr>"

definition sample_input :: HelperInput where
  "sample_input = \<lparr>hi_nowNs = 5, hi_laterNs = 6, hi_settings = Inl kOpenFailed,
     hi_scanner = sample_scanner, hi_readable = False, hi_saved = kNone\<rparr>"

definition sample_start :: Helper where
  "sample_start = helper_start sample_settings None 1 ''u''"

lemma sample_guard: "main_guard sample_input h"
  by (simp add: main_guard_def sample_input_def sample_scan sample_files_fit load_file_def load_failed_def)

lemma helper_main:
  "helper_reachable h \<Longrightarrow> main_step sample_input h = Some h' \<Longrightarrow> helper_reachable h'"
  using helper_reachable.step helper_step.main [OF sample_guard] by blast

lemma sample_boot:
  "\<exists>h. helper_reachable h \<and> hp_pc h = HTop \<and> hp_stop h = False \<and> hp_marks h = 0 \<and>
     \<not> hp_saveFailed h \<and> \<not> HasPendingChanges (hp_throttle h)"
proof -
  have start: "helper_reachable sample_start" "hp_pc sample_start = HBoot" "store_ok (hp_store sample_start)"
    unfolding sample_start_def by (rule helper_reachable.start) (simp_all add: helper_start_def)
  from build_index_ok [OF start(3) start(2) sample_guard]
  obtain g where g: "build_index False sample_input sample_start = Some g" by blast
  then have "\<not> hp_saveFailed g" "\<not> HasPendingChanges (hp_throttle g)" "hp_stop g = False" "hp_marks g = 0"
    by (auto simp: build_index_def put_file_def sample_input_def sample_start_def helper_start_def
        MarkSaved_def HasPendingChanges_def elim!: bind_SomeE split: option.splits)
  moreover have "helper_reachable (log_line ''initial indexing complete, starting live monitoring''
      LevelInfo (g\<lparr>hp_pc := HTop\<rparr>))"
    by (rule helper_main [OF start(1)]) (simp add: main_step_def start(2) g)
  ultimately show ?thesis
    by (intro exI [of _ "log_line ''initial indexing complete, starting live monitoring''
        LevelInfo (g\<lparr>hp_pc := HTop\<rparr>)"]) (simp add: log_line_def)
qed

lemma sample_exit: "\<exists>h. helper_reachable h \<and> hp_pc h = HExited \<and> \<not> hp_saveFailed h"
proof -
  obtain h where h: "helper_reachable h" "hp_pc h = HTop" "hp_marks h = 0" "\<not> hp_saveFailed h"
    "\<not> HasPendingChanges (hp_throttle h)"
    using sample_boot by blast
  let ?a = "HandleSignal SIGTERM h"
  let ?b = "log_line ''SIGTERM received, stopping monitoring and exiting'' LevelWarning
    (?a\<lparr>hp_pc := HStopJoin\<rparr>)"
  let ?c = "?b\<lparr>hp_monitoring := None, hp_pc := HFinalSave\<rparr>"
  let ?d = "?c\<lparr>hp_pc := HExited\<rparr>"
  have "helper_reachable ?a" by (rule helper_reachable.step [OF h(1) helper_step.signal])
  then have "helper_reachable ?b"
    by (rule helper_main) (simp add: main_step_def HandleSignal_def h)
  then have "helper_reachable ?c"
    by (rule helper_main) (simp add: main_step_def HandleSignal_def log_line_def h)
  then have "helper_reachable ?d"
    by (rule helper_main) (simp add: main_step_def HandleSignal_def log_line_def h)
  then show ?thesis
    by (intro exI [of _ ?d]) (simp add: HandleSignal_def log_line_def h)
qed

lemma helper_keeps_file_current_witness:
  "\<exists>h. helper_reachable h \<and> hp_pc h = HExited \<and>
     (\<exists>r. Load (hp_file h) = Some r \<and> lr_success r \<and> live_entries (lr_pool r) = store_live (hp_store h))"
  using sample_exit helper_keeps_file_current by blast

lemma helper_monitors_configured_roots_witness:
  "\<exists>h. helper_reachable h \<and> hp_pc h = HTop \<and>
     hp_monitoring h = Some (so_rootPaths (currentOptions (hp_settings h)))"
  using sample_boot helper_monitors_configured_roots by blast


text \<open>
  The result of the save of a build is dropped and the pending flag cleared, so a build whose save
  fails is not saved again, while a failed save of live changes is.
\<close>

lemma failed_build_save_forgotten:
  assumes "build_index True inp h = Some h'" "hi_saved inp \<noteq> kNone"
  shows "hp_file h' = hp_file h" "\<not> HasPendingChanges (hp_throttle h')"
  using assms
  by (auto simp: build_index_def put_file_def log_line_def MarkSaved_def HasPendingChanges_def
      elim!: bind_SomeE split: option.splits)

end
