(* ===== verification/Built_Search.thy ===== *)
theory Built_Search
  imports Walk_Scanner Indexer_Core Search_Engine
begin

text \<open>
  The walker, the indexer, the index file and the search engine together: what a search finds
  after a rebuild is what the file system holds. The interface between the walker and the
  indexer (\<open>IFileSystemScanner\<close>) is a locale whose law the walker provides.
\<close>

section \<open>Scanners\<close>

text \<open>\<open>reports options es\<close>: a scan that was not cancelled may report the entries \<open>es\<close>; \<open>tree options\<close>
  is what there is to report.\<close>

locale file_scanner =
  fixes reports :: "ScanOptions \<Rightarrow> FileEntry list \<Rightarrow> bool"
    and tree :: "ScanOptions \<Rightarrow> FileEntry multiset"
  assumes exact: "reports options es \<Longrightarrow> mset es = tree options"
begin

lemma built_index:
  assumes "reports options (scan_entries (scanner options))" "build_fits (scan_entries (scanner options))"
  shows "\<exists>r bytes q. StartIndexing True options nowNs stale loaded scanner False s = Some r \<and>
    ir_completed r \<and> ir_saved r = Some bytes \<and> pool_inv (is_pool (ir_store r)) \<and>
    Load (Some bytes) = Some \<lparr>lr_success = True, lr_pool = q, lr_buildTimestampNs = nowNs,
      lr_lastMonitorStopNs = is_lastMonitorStopNs s\<rparr> \<and> pool_inv q \<and>
    live_entries q = live_entries (is_pool (ir_store r)) \<and>
    mset (live_entries (is_pool (ir_store r))) = tree options"
  using StartIndexing_scan [of True loaded stale nowNs scanner options s] assms(2) exact [OF assms(1)]
  by (auto simp: store_live_def)

end

section \<open>What a search finds\<close>

definition found :: "IndexPool \<Rightarrow> SearchResult list \<Rightarrow> FileEntry list" where
  "found p rs = map (\<lambda>r. fst (pool_abs p ! sr_entryIndex r)) rs"

lemma filter_by_index: "map ((!) xs) (filter (\<lambda>i. Q (xs ! i)) [0..<length xs]) = filter Q xs"
proof -
  have "filter Q (map ((!) xs) [0..<length xs]) = map ((!) xs) (filter (\<lambda>i. Q (xs ! i)) [0..<length xs])"
    by (simp only: filter_map o_def)
  then show ?thesis by (simp only: map_nth)
qed

lemma live_filter:
  "map (\<lambda>i. fst (pool_abs p ! i)) (filter (\<lambda>i. live_at p i P) [0..<Count p]) = filter P (live_entries p)"
proof -
  have "filter P (live_entries p) = map fst (filter (\<lambda>x. \<not> snd x \<and> P (fst x)) (pool_abs p))"
    by (simp add: live_entries_def filter_map o_def conj_commute)
  also have "\<dots> = map fst (map ((!) (pool_abs p))
      (filter (\<lambda>i. \<not> snd (pool_abs p ! i) \<and> P (fst (pool_abs p ! i))) [0..<Count p]))"
    using filter_by_index [of "pool_abs p" "\<lambda>x. \<not> snd x \<and> P (fst x)"] by simp
  finally show ?thesis by (simp add: live_at_def)
qed

lemma Search_found:
  assumes "pool_inv p"
  shows "\<exists>rs. Search lib tier (\<lambda>i. False) p query default_options = Some rs \<and>
    found p rs = take kMaxSearchResults (filter (name_matches query) (live_entries p))"
proof -
  obtain rs where rs: "Search lib tier (\<lambda>i. False) p query default_options = Some rs"
    "map sr_entryIndex rs =
       take kMaxSearchResults (filter (\<lambda>i. live_at p i (name_matches query)) [0..<Count p])"
    using Search_indices [OF assms] by blast
  have "found p rs = map (\<lambda>i. fst (pool_abs p ! i)) (map sr_entryIndex rs)"
    by (simp add: found_def o_def)
  then show ?thesis
    unfolding rs(2) live_filter [symmetric] take_map using rs(1) by blast
qed

text \<open>Out of everything that matches, a search shows all, or as much as the cap allows.\<close>

definition shows_all :: "FileEntry list \<Rightarrow> FileEntry multiset \<Rightarrow> bool" where
  "shows_all es matching \<longleftrightarrow>
     mset es \<subseteq># matching \<and> length es = min kMaxSearchResults (size matching)"

lemma shows_all_complete: "shows_all es m \<Longrightarrow> size m \<le> kMaxSearchResults \<Longrightarrow> mset es = m"
proof -
  assume "shows_all es m" "size m \<le> kMaxSearchResults"
  then have "mset es \<subseteq># m" "size (mset es) = size m" by (simp_all add: shows_all_def)
  then show "mset es = m" by (metis mset_subset_size nless_le subset_mset.nless_le)
qed

lemma shows_all_take:
  "mset es = m \<Longrightarrow> shows_all (take kMaxSearchResults (filter P es)) (filter_mset P m)"
proof -
  assume m: "mset es = m"
  have "mset (take k xs) \<subseteq># mset xs" for k and xs :: "FileEntry list"
    by (metis append_take_drop_id mset_append mset_subset_eq_add_left)
  with m show ?thesis
    by (auto simp: shows_all_def min.commute simp flip: mset_filter)
qed

context file_scanner
begin

lemma built_search:
  assumes "reports options (scan_entries (scanner options))" "build_fits (scan_entries (scanner options))"
  shows "\<exists>r bytes disk rs rs'.
    StartIndexing True options nowNs stale loaded scanner False s = Some r \<and> ir_completed r \<and>
    ir_saved r = Some bytes \<and> Load (Some bytes) = Some disk \<and> lr_success disk \<and>
    Search lib tier (\<lambda>i. False) (is_pool (ir_store r)) query default_options = Some rs \<and>
    shows_all (found (is_pool (ir_store r)) rs) (filter_mset (name_matches query) (tree options)) \<and>
    Search lib tier (\<lambda>i. False) (lr_pool disk) query default_options = Some rs' \<and>
    found (lr_pool disk) rs' = found (is_pool (ir_store r)) rs"
proof -
  obtain r bytes q where r: "StartIndexing True options nowNs stale loaded scanner False s = Some r"
    "ir_completed r" "ir_saved r = Some bytes" "pool_inv (is_pool (ir_store r))"
    "Load (Some bytes) = Some \<lparr>lr_success = True, lr_pool = q, lr_buildTimestampNs = nowNs,
      lr_lastMonitorStopNs = is_lastMonitorStopNs s\<rparr>" "pool_inv q"
    "live_entries q = live_entries (is_pool (ir_store r))"
    "mset (live_entries (is_pool (ir_store r))) = tree options"
    using built_index [of options scanner, OF assms] by blast
  obtain rs where rs: "Search lib tier (\<lambda>i. False) (is_pool (ir_store r)) query default_options = Some rs"
    "found (is_pool (ir_store r)) rs =
       take kMaxSearchResults (filter (name_matches query) (live_entries (is_pool (ir_store r))))"
    using Search_found [OF r(4)] by blast
  obtain rs' where rs': "Search lib tier (\<lambda>i. False) q query default_options = Some rs'"
    "found q rs' = take kMaxSearchResults (filter (name_matches query) (live_entries q))"
    using Search_found [OF r(6)] by blast
  show ?thesis
    using r rs rs' shows_all_take [OF r(8), of "name_matches query"]
    by (intro exI conjI) (assumption | simp)+
qed

end

section \<open>The walker as a scanner\<close>

definition walker_reports ::
  "FileSystem \<Rightarrow> (string \<Rightarrow> string option) \<Rightarrow> (DirJob \<Rightarrow> nat) \<Rightarrow> ScanOptions \<Rightarrow> FileEntry list \<Rightarrow> bool" where
  "walker_reports fs realpath W options es \<longleftrightarrow>
     finite_tree (Scan_setup fs realpath options) W \<and>
     (\<exists>k n s. scan_run (Scan_setup fs realpath options) (Scan_start (Scan_setup fs realpath options) k False) n s \<and>
        scan_ended s \<and> \<not> sc_cancelled s \<and> es = sc_emitted s)"

definition walker_tree ::
  "FileSystem \<Rightarrow> (string \<Rightarrow> string option) \<Rightarrow> (DirJob \<Rightarrow> nat) \<Rightarrow> ScanOptions \<Rightarrow> FileEntry multiset" where
  "walker_tree fs realpath W options =
     (let wk = Scan_setup fs realpath options; (es, jobs) = Scan_roots wk (wk_roots wk)
      in mset es + (\<Sum>job \<leftarrow> jobs. traverse wk (W job) job))"

interpretation walker: file_scanner "walker_reports fs realpath W" "walker_tree fs realpath W"
  for fs realpath W
proof
  fix options es assume "walker_reports fs realpath W options es"
  then obtain k n s where w: "finite_tree (Scan_setup fs realpath options) W"
    "scan_run (Scan_setup fs realpath options) (Scan_start (Scan_setup fs realpath options) k False) n s"
    "scan_ended s" "\<not> sc_cancelled s" "es = sc_emitted s"
    by (auto simp: walker_reports_def)
  then show "mset es = walker_tree fs realpath W options"
    using Scan_ended_tree [OF w(1,2) _ w(3,4)]
    by (auto simp: walker_tree_def Let_def split: prod.splits)
qed

section \<open>Properties\<close>


definition tree_options :: ScanOptions where
  "tree_options = \<lparr>so_rootPaths = [''/m''], so_excludedPaths = []\<rparr>"

definition tree_file :: FileEntry where
  "tree_file = EmitFileEntry ''/m/f'' file_stat"

lemma sample_setup: "Scan_setup sample_fs (\<lambda>p. None) tree_options = sample_walk [''/m'']"
  by (simp add: sample_walk_def tree_options_def)

lemma sample_tree: "walker_tree sample_fs (\<lambda>p. None) sample_cost tree_options = {#tree_file#}"
  by (simp add: walker_tree_def sample_setup sample_walk_m sample_start sample_traverse tree_file_def
      del: Scan_roots.simps)

lemma sample_reports: "walker_reports sample_fs (\<lambda>p. None) sample_cost tree_options [tree_file]"
proof -
  obtain n s where s: "scan_run (sample_walk [''/m'']) (Scan_start (sample_walk [''/m'']) 4 False) n s"
    "scan_ended s" "\<not> sc_cancelled s"
    using sample_scan_run by blast
  have "mset (sc_emitted s) = {#tree_file#}"
    using Scan_ended_tree [OF sample_finite s(1) _ s(2,3), of "[]" "[sample_root]"]
    by (simp add: sample_walk_m sample_start sample_traverse tree_file_def del: Scan_roots.simps)
  then have "[tree_file] = sc_emitted s" by (cases "sc_emitted s") auto
  with s show ?thesis by (auto simp: walker_reports_def sample_setup sample_finite)
qed

lemma tree_file_fields: "fe_name tree_file = ''f''" "fe_path tree_file = ''/m/f''"
  by (code_simp | simp add: tree_file_def EmitFileEntry_def Let_def)+


end
