(* ===== verification/Result_Table.thy ===== *)
theory Result_Table
  imports Search_Engine Path_Utils "HOL-Library.Multiset"
begin

text \<open>
  The result list (\<open>ui/DisplayEntry.cpp\<close>, \<open>ui/DisplayFormat.cpp\<close>, \<open>ui/ResultModel.cpp\<close>,
  \<open>ui/StatusText.cpp\<close>): the rows built from search results, the text of sizes with the rounding
  of \<open>double\<close> and \<open>printf\<close>, the table model with its sorting, and the texts of the status bar.
  A Qt string is the bytes it was made from; \<open>strftime\<close> of the local time is a parameter.
\<close>

section \<open>Sizes and dates\<close>

definition round_half_even :: "nat \<Rightarrow> nat \<Rightarrow> nat" where
  "round_half_even n d =
     (let q = n div d; r = n mod d
      in if 2 * r < d then q else if 2 * r > d then q + 1 else if even q then q else q + 1)"

fun bit_length :: "nat \<Rightarrow> nat" where
  "bit_length n = (if n = 0 then 0 else Suc (bit_length (n div 2)))"

declare bit_length.simps [simp del]

text \<open>The conversion to \<open>double\<close>: 53 significant bits, ties to even.\<close>

definition to_double :: "nat \<Rightarrow> nat" where
  "to_double n =
     (if n < 2 ^ 53 then n
      else let e = bit_length n - 53 in round_half_even n (2 ^ e) * 2 ^ e)"

text \<open>\<open>%.2f\<close> of \<open>m / d\<close>; the divisions by 1024 are exact.\<close>

definition print_2f :: "nat \<Rightarrow> nat \<Rightarrow> string" where
  "print_2f m d =
     (let n = round_half_even (100 * m) d
      in to_string (n div 100) @ ''.'' @ [digit (n mod 100 div 10), digit (n mod 10)])"

definition FormatFileSize :: "u64 \<Rightarrow> string" where
  "FormatFileSize bytes =
     (if bytes < 1024 then to_string (unat bytes) @ '' B''
      else let m = to_double (unat bytes)
      in if m < 1024 ^ 2 then print_2f m 1024 @ '' KB''
         else if m < 1024 ^ 3 then print_2f m (1024 ^ 2) @ '' MB''
         else print_2f m (1024 ^ 3) @ '' GB'')"

definition FormatDateTime :: "(int \<Rightarrow> string) \<Rightarrow> u64 \<Rightarrow> string" where
  "FormatDateTime strftime nsSinceEpoch = strftime (uint (nsSinceEpoch div 1000000000))"

section \<open>Rows\<close>

record DisplayEntry =
  de_name :: string
  de_parentDir :: string
  de_sizeText :: string
  de_dateText :: string
  de_sizeBytes :: u64
  de_lastModifiedNs :: u64
  de_sourceIndex :: nat

definition ParentDirOf :: "string \<Rightarrow> string" where
  "ParentDirOf path =
     (case str_rfind (CHR ''/'') path of
        None \<Rightarrow> []
      | Some lastSlash \<Rightarrow> if lastSlash = 0 then ''/'' else take lastSlash path)"

fun BuildDisplayEntries_loop ::
  "(int \<Rightarrow> string) \<Rightarrow> IndexPool \<Rightarrow> SearchResult list \<Rightarrow> nat \<Rightarrow> DisplayEntry list option" where
  "BuildDisplayEntries_loop strftime pool [] i = Some []"
| "BuildDisplayEntries_loop strftime pool (r # rs) i = do {
     view \<leftarrow> GetEntry pool (sr_entryIndex r);
     let entry = \<lparr>de_name = ev_name view, de_parentDir = ParentDirOf (ev_path view),
       de_sizeText = FormatFileSize (ev_size view),
       de_dateText = FormatDateTime strftime (ev_lastModified view),
       de_sizeBytes = ev_size view, de_lastModifiedNs = ev_lastModified view, de_sourceIndex = i\<rparr>;
     rows \<leftarrow> BuildDisplayEntries_loop strftime pool rs (i + 1);
     Some (entry # rows) }"

definition BuildDisplayEntries ::
  "(int \<Rightarrow> string) \<Rightarrow> IndexPool \<Rightarrow> SearchResult list \<Rightarrow> DisplayEntry list option" where
  "BuildDisplayEntries strftime pool results = BuildDisplayEntries_loop strftime pool results 0"

section \<open>The table model\<close>

record ResultModel =
  rm_entries :: "DisplayEntry list"
  rm_pendingPaths :: "string set"

datatype Column = kName | kPath | kSize | kDateModified

definition column_of :: "int \<Rightarrow> Column option" where
  "column_of c =
     (if c = 0 then Some kName else if c = 1 then Some kPath else if c = 2 then Some kSize
      else if c = 3 then Some kDateModified else None)"

text \<open>An index of the model: invalid, or a row and a column.\<close>

type_synonym ModelIndex = "(int \<times> int) option"

datatype Role = DisplayRole | ForegroundRole | ToolTipRole | TextAlignmentRole | OtherRole

datatype Variant = NoVariant | TextVariant string | GrayColor | PendingToolTip | RightAligned

definition rowCount :: "ModelIndex \<Rightarrow> ResultModel \<Rightarrow> int" where
  "rowCount parent m = (if parent \<noteq> None then 0 else int (length (rm_entries m)))"

definition columnCount :: "ModelIndex \<Rightarrow> int" where
  "columnCount parent = (if parent \<noteq> None then 0 else 4)"

text \<open>\<open>at\<close> throws out of range.\<close>

definition EntryAt :: "int \<Rightarrow> ResultModel \<Rightarrow> DisplayEntry option" where
  "EntryAt row m = (if row < 0 then None else nth_opt (rm_entries m) (nat row))"

definition entry_path :: "DisplayEntry \<Rightarrow> string" where
  "entry_path entry =
     (if de_parentDir entry = ''/'' then ''/'' @ de_name entry
      else de_parentDir entry @ ''/'' @ de_name entry)"

definition FullPath :: "int \<Rightarrow> ResultModel \<Rightarrow> string option" where
  "FullPath row m = do { entry \<leftarrow> EntryAt row m; Some (entry_path entry) }"

definition SetEntries :: "DisplayEntry list \<Rightarrow> ResultModel \<Rightarrow> ResultModel" where
  "SetEntries entries m = m\<lparr>rm_entries := entries\<rparr>"

definition SetPendingPaths :: "string set \<Rightarrow> ResultModel \<Rightarrow> ResultModel" where
  "SetPendingPaths paths m = m\<lparr>rm_pendingPaths := paths\<rparr>"

definition IsPending :: "int \<Rightarrow> ResultModel \<Rightarrow> bool option" where
  "IsPending row m =
     (if rm_pendingPaths m = {} then Some False
      else do { path \<leftarrow> FullPath row m; Some (path \<in> rm_pendingPaths m) })"

definition model_data :: "ModelIndex \<Rightarrow> Role \<Rightarrow> ResultModel \<Rightarrow> Variant option" where
  "model_data index role m =
     (case index of
        None \<Rightarrow> Some NoVariant
      | Some (row, column) \<Rightarrow>
          if row < 0 \<or> row \<ge> int (length (rm_entries m)) then Some NoVariant
          else do {
            entry \<leftarrow> nth_opt (rm_entries m) (nat row);
            if role = DisplayRole then
              Some (case column_of column of
                 Some kName \<Rightarrow> TextVariant (de_name entry)
               | Some kPath \<Rightarrow> TextVariant (de_parentDir entry)
               | Some kSize \<Rightarrow> TextVariant (de_sizeText entry)
               | Some kDateModified \<Rightarrow> TextVariant (de_dateText entry)
               | None \<Rightarrow> NoVariant)
            else do {
              pending \<leftarrow> IsPending row m;
              Some (if pending \<and> role = ForegroundRole then GrayColor
                    else if pending \<and> role = ToolTipRole then PendingToolTip
                    else if role = TextAlignmentRole \<and> column = 2 then RightAligned
                    else NoVariant) } })"

definition headerData :: "int \<Rightarrow> string option" where
  "headerData section' =
     (case column_of section' of
        Some kName \<Rightarrow> Some ''Name'' | Some kPath \<Rightarrow> Some ''Path'' | Some kSize \<Rightarrow> Some ''Size''
      | Some kDateModified \<Rightarrow> Some ''Date Modified'' | None \<Rightarrow> None)"

datatype ItemFlag = ItemIsSelectable | ItemIsEnabled | ItemIsDragEnabled

definition flags :: "ModelIndex \<Rightarrow> ItemFlag set" where
  "flags index = (if index = None then {} else {ItemIsSelectable, ItemIsEnabled, ItemIsDragEnabled})"

section \<open>Sorting\<close>

text \<open>\<open>tolower\<close> keeps the bytes that are not ASCII, as it does in the C locale and in UTF-8 ones.\<close>

fun LessCaseInsensitive :: "string \<Rightarrow> string \<Rightarrow> bool" where
  "LessCaseInsensitive (a # as) (b # bs) =
     (let ca = (of_char (fold_char a) :: u8); cb = of_char (fold_char b)
      in if ca \<noteq> cb then ca < cb else LessCaseInsensitive as bs)"
| "LessCaseInsensitive as bs = (length as < length bs)"

definition column_less :: "Column \<Rightarrow> DisplayEntry \<Rightarrow> DisplayEntry \<Rightarrow> bool" where
  "column_less c a b =
     (case c of
        kName \<Rightarrow> LessCaseInsensitive (de_name a) (de_name b)
      | kPath \<Rightarrow> LessCaseInsensitive (de_parentDir a) (de_parentDir b)
      | kSize \<Rightarrow> de_sizeBytes a < de_sizeBytes b
      | kDateModified \<Rightarrow> de_lastModifiedNs a < de_lastModifiedNs b)"

text \<open>\<open>std::sort\<close> with a comparison: insertion gives one of the orders it may give.\<close>

fun insert_by :: "('a \<Rightarrow> 'a \<Rightarrow> bool) \<Rightarrow> 'a \<Rightarrow> 'a list \<Rightarrow> 'a list" where
  "insert_by lt x [] = [x]"
| "insert_by lt x (y # ys) = (if lt y x then y # insert_by lt x ys else x # y # ys)"

fun std_sort :: "('a \<Rightarrow> 'a \<Rightarrow> bool) \<Rightarrow> 'a list \<Rightarrow> 'a list" where
  "std_sort lt [] = []"
| "std_sort lt (x # xs) = insert_by lt x (std_sort lt xs)"

definition model_sort :: "int \<Rightarrow> bool \<Rightarrow> ResultModel \<Rightarrow> ResultModel" where
  "model_sort column ascending m =
     (case column_of column of
        None \<Rightarrow> m
      | Some c \<Rightarrow>
          m\<lparr>rm_entries := std_sort (\<lambda>a b. if ascending then column_less c a b else column_less c b a)
                            (rm_entries m)\<rparr>)"

section \<open>Status texts\<close>

definition ellipsis :: string where
  "ellipsis = [CHR 0xE2, CHR 0x80, CHR 0xA6]"

definition ResultCountText :: "u64 \<Rightarrow> bool \<Rightarrow> string" where
  "ResultCountText found capped =
     FormatFileCount found @ '' result(s)'' @
     (if capped then '' -- showing first 10,000. Refine your search'' @ ellipsis else [])"

definition IndexSummaryText :: "u64 \<Rightarrow> string list \<Rightarrow> u64 \<Rightarrow> string" where
  "IndexSummaryText fileCount locations ageSeconds =
     FormatFileCount fileCount @ '' files | '' @ FormatLocationList locations @ '' | '' @
     FormatAge ageSeconds"

definition OnOff :: "bool \<Rightarrow> string" where
  "OnOff value = (if value then ''ON'' else ''OFF'')"

definition SearchOptionsText :: "SearchOptions \<Rightarrow> string" where
  "SearchOptionsText options =
     ''Regex: '' @ OnOff (so_useRegex options) @ '' | Case: '' @ OnOff (so_caseSensitive options) @
     '' | Whole Word: '' @ OnOff (so_wholeWord options) @
     '' | Match Path: '' @ OnOff (so_matchPath options) @
     '' | Diacritics: '' @ OnOff (so_ignoreDiacritics options)"

section \<open>What sorting gives\<close>

lemma mset_insert_by [simp]: "mset (insert_by lt x ys) = add_mset x (mset ys)"
  by (induction ys) auto

lemma mset_std_sort [simp]: "mset (std_sort lt xs) = mset xs"
  by (induction xs) auto

lemma set_insert_by [simp]: "set (insert_by lt x ys) = insert x (set ys)"
  by (induction ys) auto

text \<open>What \<open>std::sort\<close> asks of a comparison.\<close>

locale strict_weak_order =
  fixes lt :: "'a \<Rightarrow> 'a \<Rightarrow> bool"
  assumes asym: "lt a b \<Longrightarrow> \<not> lt b a"
    and neg_trans: "\<not> lt b a \<Longrightarrow> \<not> lt c b \<Longrightarrow> \<not> lt c a"
begin

lemma insert_by_sorted:
  "sorted_wrt (\<lambda>a b. \<not> lt b a) ys \<Longrightarrow> sorted_wrt (\<lambda>a b. \<not> lt b a) (insert_by lt x ys)"
proof (induction ys)
  case Nil
  then show ?case by simp
next
  case (Cons y ys)
  show ?case
  proof (cases "lt y x")
    case True
    then show ?thesis using Cons asym [OF True] by simp
  next
    case False
    then show ?thesis using Cons.prems neg_trans [OF False] by auto
  qed
qed

lemma std_sort_sorted: "sorted_wrt (\<lambda>a b. \<not> lt b a) (std_sort lt xs)"
  by (induction xs) (simp_all add: insert_by_sorted)

lemma converse: "strict_weak_order (\<lambda>a b. lt b a)"
  using asym neg_trans by unfold_locales blast+

end

definition fold_key :: "char \<Rightarrow> u8" where
  "fold_key c = of_char (fold_char c)"

lemma LessCaseInsensitive_lexordp:
  "LessCaseInsensitive as bs \<longleftrightarrow> ord_class.lexordp (map fold_key as) (map fold_key bs)"
  by (induction as bs rule: LessCaseInsensitive.induct) (auto simp: fold_key_def Let_def)

lemma LessCaseInsensitive_order: "strict_weak_order (\<lambda>a b. LessCaseInsensitive (f a) (f b))"
proof
  fix a b c
  show "LessCaseInsensitive (f a) (f b) \<Longrightarrow> \<not> LessCaseInsensitive (f b) (f a)"
    unfolding LessCaseInsensitive_lexordp using lexordp_antisym by blast
  show "\<not> LessCaseInsensitive (f b) (f a) \<Longrightarrow> \<not> LessCaseInsensitive (f c) (f b) \<Longrightarrow>
      \<not> LessCaseInsensitive (f c) (f a)"
    unfolding LessCaseInsensitive_lexordp
    by (metis lexordp_irreflexive' lexordp_linear lexordp_trans)
qed

lemma column_less_order: "strict_weak_order (column_less c)"
proof (cases c)
  case kName
  then have "column_less c = (\<lambda>a b. LessCaseInsensitive (de_name a) (de_name b))"
    by (simp add: column_less_def fun_eq_iff)
  then show ?thesis by (simp add: LessCaseInsensitive_order)
next
  case kPath
  then have "column_less c = (\<lambda>a b. LessCaseInsensitive (de_parentDir a) (de_parentDir b))"
    by (simp add: column_less_def fun_eq_iff)
  then show ?thesis by (simp add: LessCaseInsensitive_order)
qed (unfold_locales, auto simp: column_less_def)+

definition row_less :: "Column \<Rightarrow> bool \<Rightarrow> DisplayEntry \<Rightarrow> DisplayEntry \<Rightarrow> bool" where
  "row_less c ascending a b \<longleftrightarrow> (if ascending then column_less c a b else column_less c b a)"

interpretation rows: strict_weak_order "row_less c ascending"
proof -
  have "row_less c ascending = (if ascending then column_less c else (\<lambda>a b. column_less c b a))"
    by (simp add: row_less_def fun_eq_iff)
  then show "strict_weak_order (row_less c ascending)"
    using column_less_order strict_weak_order.converse [OF column_less_order] by simp
qed

lemma model_sort_rows:
  "column_of column = Some c \<Longrightarrow>
   model_sort column ascending m = m\<lparr>rm_entries := std_sort (row_less c ascending) (rm_entries m)\<rparr>"
proof -
  have "row_less c ascending = (\<lambda>a b. if ascending then column_less c a b else column_less c b a)"
    by (simp add: row_less_def fun_eq_iff)
  then show "column_of column = Some c \<Longrightarrow> ?thesis" by (simp add: model_sort_def)
qed

text \<open>Sorting by any column, in either direction, keeps exactly the rows and puts them in the
  order of that column: numeric for sizes and dates, by the case-folded bytes for names and
  paths; any other column leaves the table as it is.\<close>

lemma model_sort_orders:
  "mset (rm_entries (model_sort column ascending m)) = mset (rm_entries m) \<and>
   rm_pendingPaths (model_sort column ascending m) = rm_pendingPaths m \<and>
   (case column_of column of
      None \<Rightarrow> model_sort column ascending m = m
    | Some c \<Rightarrow> sorted_wrt (\<lambda>a b. \<not> (if ascending then column_less c b a else column_less c a b))
                  (rm_entries (model_sort column ascending m)))"
proof (cases "column_of column")
  case None
  then show ?thesis by (simp add: model_sort_def)
next
  case (Some c)
  have "(\<lambda>a b. \<not> (if ascending then column_less c b a else column_less c a b)) =
      (\<lambda>a b. \<not> row_less c ascending b a)"
    by (simp add: row_less_def fun_eq_iff)
  then show ?thesis
    using rows.std_sort_sorted [of c ascending "rm_entries m"] Some
    by (simp only: model_sort_rows [OF Some]) simp
qed

section \<open>Rows lead back to their files\<close>

lemma parent_and_basename:
  assumes "CHR ''/'' \<in> set path" "\<not> prefix ''//'' path"
  shows "(if ParentDirOf path = ''/'' then ''/'' @ basename path
          else ParentDirOf path @ ''/'' @ basename path) = path"
proof -
  obtain i where i: "str_rfind (CHR ''/'') path = Some i"
    using assms(1) str_rfind_None_iff by fastforce
  obtain xs ys where split: "path = xs @ CHR ''/'' # ys" "CHR ''/'' \<notin> set ys"
    using assms(1) split_list_last by metis
  then have len: "i = length xs" using i str_rfind_split by fastforce
  have "xs \<noteq> ''/''" using assms(2) split(1) by (auto simp: prefix_def)
  then show ?thesis
    using i split len by (auto simp: ParentDirOf_def basename_def)
qed

definition plain_path_entry :: "FileEntry \<Rightarrow> bool" where
  "plain_path_entry e \<longleftrightarrow>
     fe_name e = basename (fe_path e) \<and> CHR ''/'' \<in> set (fe_path e) \<and> \<not> prefix ''//'' (fe_path e)"

lemma BuildDisplayEntries_loop_rows:
  assumes "pool_inv p" "\<forall>r \<in> set rs. sr_entryIndex r < Count p"
  shows "\<exists>rows. BuildDisplayEntries_loop strftime p rs i = Some rows \<and>
    map de_sourceIndex rows = [i..<i + length rs] \<and>
    map (\<lambda>row. (de_name row, de_parentDir row, de_sizeBytes row, de_lastModifiedNs row)) rows =
    map (\<lambda>r. let e = fst (pool_abs p ! sr_entryIndex r)
             in (fe_name e, ParentDirOf (fe_path e), fe_size e, fe_lastModified e)) rs"
  using assms(2)
proof (induction rs arbitrary: i)
  case Nil
  then show ?case by simp
next
  case (Cons r rs)
  then have "\<forall>r \<in> set rs. sr_entryIndex r < Count p" by simp
  from Cons.IH [OF this, of "i + 1"]
  obtain rows where "BuildDisplayEntries_loop strftime p rs (i + 1) = Some rows"
    "map de_sourceIndex rows = [i + 1..<i + 1 + length rs]"
    "map (\<lambda>row. (de_name row, de_parentDir row, de_sizeBytes row, de_lastModifiedNs row)) rows =
     map (\<lambda>r. let e = fst (pool_abs p ! sr_entryIndex r)
             in (fe_name e, ParentDirOf (fe_path e), fe_size e, fe_lastModified e)) rs"
    by blast
  moreover have "GetEntry p (sr_entryIndex r) = Some (view_of (fst (pool_abs p ! sr_entryIndex r)))"
    using Cons.prems by (intro GetEntry_inv [OF assms(1)]) simp
  ultimately show ?case
    by (simp add: Let_def view_of_def upt_rec)
qed

text \<open>The rows built from search results are one for each result, in order, and the full path
  that a row stands for (to open, reveal or delete the file) is the path of the indexed file.\<close>

lemma rows_lead_back:
  assumes "pool_inv p" "\<forall>r \<in> set results. sr_entryIndex r < Count p"
    and "\<forall>r \<in> set results. plain_path_entry (fst (pool_abs p ! sr_entryIndex r))"
  shows "\<exists>rows. BuildDisplayEntries strftime p results = Some rows \<and>
    map de_sourceIndex rows = [0..<length results] \<and>
    (\<forall>i < length results. FullPath (int i) (SetEntries rows m) =
       Some (fe_path (fst (pool_abs p ! sr_entryIndex (results ! i)))))"
proof -
  obtain rows where rows: "BuildDisplayEntries_loop strftime p results 0 = Some rows"
    "map de_sourceIndex rows = [0..<0 + length results]"
    "map (\<lambda>row. (de_name row, de_parentDir row, de_sizeBytes row, de_lastModifiedNs row)) rows =
     map (\<lambda>r. let e = fst (pool_abs p ! sr_entryIndex r)
             in (fe_name e, ParentDirOf (fe_path e), fe_size e, fe_lastModified e)) results"
    using BuildDisplayEntries_loop_rows [OF assms(1,2), of strftime 0] by blast
  have len: "length rows = length results" using rows(3) map_eq_imp_length_eq by blast
  have "FullPath (int i) (SetEntries rows m) = Some (fe_path (fst (pool_abs p ! sr_entryIndex (results ! i))))"
    if i: "i < length results" for i
  proof -
    let ?e = "fst (pool_abs p ! sr_entryIndex (results ! i))"
    have "de_name (rows ! i) = fe_name ?e" "de_parentDir (rows ! i) = ParentDirOf (fe_path ?e)"
      using arg_cong [OF rows(3), of "\<lambda>xs. xs ! i"] i len by (simp_all add: Let_def)
    moreover have "plain_path_entry ?e" using assms(3) i by simp
    ultimately have "entry_path (rows ! i) = fe_path ?e"
      using parent_and_basename [of "fe_path ?e"] by (auto simp: entry_path_def plain_path_entry_def split: if_splits)
    then show ?thesis
      using i len by (simp add: FullPath_def EntryAt_def SetEntries_def)
  qed
  then show ?thesis
    using rows by (auto simp: BuildDisplayEntries_def)
qed

lemma rows_lead_back_witness:
  "\<exists>rows. BuildDisplayEntries (\<lambda>t. []) sample_cats [mk_result 1 0 0, mk_result 0 0 0] = Some rows \<and>
    FullPath 0 (SetEntries rows \<lparr>rm_entries = [], rm_pendingPaths = {}\<rparr>) =
      Some (fe_path (fst (pool_abs sample_cats ! 1)))"
proof -
  have "\<forall>r \<in> set [mk_result 1 0 0, mk_result 0 0 0]. sr_entryIndex r < Count sample_cats"
    by (simp add: sample_cats_Count mk_result_def)
  moreover have "\<forall>r \<in> set [mk_result 1 0 0, mk_result 0 0 0].
      plain_path_entry (fst (pool_abs sample_cats ! sr_entryIndex r))"
    by (simp add: sample_cats_abs mk_result_def plain_path_entry_def sample_file_def basename_def prefix_def)
  ultimately show ?thesis
    using rows_lead_back [OF sample_cats_inv, of "[mk_result 1 0 0, mk_result 0 0 0]"
        "\<lambda>t. []" "\<lparr>rm_entries = [], rm_pendingPaths = {}\<rparr>"]
    by (fastforce simp: mk_result_def)
qed

lemma FormatFileSize_samples:
  "FormatFileSize 1023 = ''1023 B''" "FormatFileSize 1536 = ''1.50 KB''"
  "FormatFileSize 1048575 = ''1024.00 KB''"
  by (simp_all add: FormatFileSize_def to_double_def print_2f_def round_half_even_def digit_chars
      to_string.simps Let_def)

end
