(* ===== verification/Dialogs.thy ===== *)
theory Dialogs
  imports Settings_Store Mount_Enumerator
begin

text \<open>
  The settings dialog (\<open>ui/SettingsDialog.cpp\<close>), the first-run dialog (\<open>ui/FirstRunDialog.cpp\<close>)
  and the start of the program that uses the second (\<open>ui/main.cpp\<close>). A dialog's state is what its
  widgets hold. The conversions of Qt strings are parameters, since a path that is not valid UTF-8
  does not survive them. The theory shows that opening the settings and accepting them unchanged
  changes nothing, where that holds, and which mounts the first run preselects.
\<close>

section \<open>Qt strings\<close>

text \<open>\<open>fromStdString\<close>, \<open>toStdString\<close>, \<open>number\<close>, \<open>toInt\<close>.\<close>

record Qt =
  qt_from :: "string \<Rightarrow> QString"
  qt_to :: "QString \<Rightarrow> string"
  qt_number :: "int \<Rightarrow> QString"
  qt_toInt :: "QString \<Rightarrow> int option"

definition fits_int :: "int \<Rightarrow> bool" where
  "fits_int i \<longleftrightarrow> - (2 ^ 31) \<le> i \<and> i < 2 ^ 31"

text \<open>As documented, \<open>toInt\<close> reads what \<open>number\<close> wrote, and gives a 32-bit number or fails.\<close>

definition Qt_numbers :: "Qt \<Rightarrow> bool" where
  "Qt_numbers qt \<longleftrightarrow>
     (\<forall>i. fits_int i \<longrightarrow> qt_toInt qt (qt_number qt i) = Some i) \<and>
     (\<forall>s i. qt_toInt qt s = Some i \<longrightarrow> fits_int i)"

text \<open>The paths that survive the conversion to a Qt string and back.\<close>

definition survives :: "Qt \<Rightarrow> string \<Rightarrow> bool" where
  "survives qt path \<longleftrightarrow> qt_to qt (qt_from qt path) = path"

section \<open>The settings dialog\<close>

definition kDefaultReindexHours :: int where "kDefaultReindexHours = 48"

record DialogValues =
  dv_selectedRoots :: "string list"
  dv_excludedPaths :: "string list"
  dv_reindexIntervalHours :: int

record SettingsDialog =
  sd_pathList :: "QString list"
  sd_excludedList :: "QString list"
  sd_manualOnly :: bool
  sd_interval :: QString
  sd_unit :: nat
  sd_intervalEnabled :: bool
  sd_unitEnabled :: bool

definition ListWidgetItems :: "Qt \<Rightarrow> QString list \<Rightarrow> string list" where
  "ListWidgetItems qt items = map (qt_to qt) items"

definition interval_fields :: "Qt \<Rightarrow> int \<Rightarrow> QString \<times> nat" where
  "interval_fields qt hours =
     (if hours = 0 then (qt_number qt kDefaultReindexHours, 0)
      else if hours mod 24 = 0 \<and> hours \<ge> 24 then (qt_number qt (hours div 24), 1)
      else (qt_number qt hours, 0))"

definition SettingsDialog_open :: "Qt \<Rightarrow> DialogValues \<Rightarrow> SettingsDialog" where
  "SettingsDialog_open qt initial =
     (let manualOnly = dv_reindexIntervalHours initial = 0;
          (interval, unit) = interval_fields qt (dv_reindexIntervalHours initial)
      in \<lparr>sd_pathList = map (qt_from qt) (dv_selectedRoots initial),
          sd_excludedList = map (qt_from qt) (dv_excludedPaths initial),
          sd_manualOnly = manualOnly, sd_interval = interval, sd_unit = unit,
          sd_intervalEnabled = \<not> manualOnly, sd_unitEnabled = \<not> manualOnly\<rparr>)"

text \<open>The hours of an accepted dialog; \<open>None\<close> is the overflow of the signed product.\<close>

definition accept_hours :: "Qt \<Rightarrow> SettingsDialog \<Rightarrow> int option" where
  "accept_hours qt d =
     (if sd_manualOnly d then Some 0
      else let value = (case qt_toInt qt (sd_interval d) of
                          None \<Rightarrow> kDefaultReindexHours
                        | Some v \<Rightarrow> if v \<le> 0 then kDefaultReindexHours else v);
               hours = (if sd_unit d = 1 then value * 24 else value)
      in if fits_int hours then Some hours else None)"

definition accept :: "Qt \<Rightarrow> (string \<Rightarrow> string option) \<Rightarrow> SettingsDialog \<Rightarrow> DialogValues option" where
  "accept qt realpath d = do {
     hours \<leftarrow> accept_hours qt d;
     Some \<lparr>dv_selectedRoots = CollapseRedundantRoots realpath (ListWidgetItems qt (sd_pathList d)),
       dv_excludedPaths = ListWidgetItems qt (sd_excludedList d),
       dv_reindexIntervalHours = hours\<rparr> }"

definition OnAddPath :: "QString \<Rightarrow> SettingsDialog \<Rightarrow> SettingsDialog" where
  "OnAddPath folder d =
     (if folder = [] then d
      else if folder \<in> set (sd_pathList d) then d
      else d\<lparr>sd_pathList := sd_pathList d @ [folder]\<rparr>)"

definition take_item :: "int \<Rightarrow> 'a list \<Rightarrow> 'a list" where
  "take_item row items = take (nat row) items @ drop (nat row + 1) items"

text \<open>\<open>row\<close> is the current row of the list, negative for none.\<close>

definition OnRemovePath :: "int \<Rightarrow> SettingsDialog \<Rightarrow> SettingsDialog" where
  "OnRemovePath row d = (if row \<ge> 0 then d\<lparr>sd_pathList := take_item row (sd_pathList d)\<rparr> else d)"

definition OnAddExcluded :: "QString \<Rightarrow> SettingsDialog \<Rightarrow> SettingsDialog" where
  "OnAddExcluded folder d =
     (if folder = [] then d else d\<lparr>sd_excludedList := sd_excludedList d @ [folder]\<rparr>)"

definition OnRemoveExcluded :: "int \<Rightarrow> SettingsDialog \<Rightarrow> SettingsDialog" where
  "OnRemoveExcluded row d =
     (if row \<ge> 0 then d\<lparr>sd_excludedList := take_item row (sd_excludedList d)\<rparr> else d)"

definition OnManualOnlyToggled :: "bool \<Rightarrow> SettingsDialog \<Rightarrow> SettingsDialog" where
  "OnManualOnlyToggled checked d =
     d\<lparr>sd_manualOnly := checked, sd_intervalEnabled := \<not> checked, sd_unitEnabled := \<not> checked\<rparr>"

text \<open>What the user can do before the dialog is accepted: the connections of the buttons, and the fields.
  A folder is what the picker gave, a row the current one.\<close>

datatype DialogAction =
    AddPathClicked QString
  | RemovePathClicked int
  | AddExcludedClicked QString
  | RemoveExcludedClicked int
  | ManualOnlyToggled bool
  | IntervalEdited QString
  | UnitChosen nat

definition on_dialog_action :: "DialogAction \<Rightarrow> SettingsDialog \<Rightarrow> SettingsDialog" where
  "on_dialog_action a d =
     (case a of
        AddPathClicked folder \<Rightarrow> OnAddPath folder d
      | RemovePathClicked row \<Rightarrow> OnRemovePath row d
      | AddExcludedClicked folder \<Rightarrow> OnAddExcluded folder d
      | RemoveExcludedClicked row \<Rightarrow> OnRemoveExcluded row d
      | ManualOnlyToggled checked \<Rightarrow> OnManualOnlyToggled checked d
      | IntervalEdited text' \<Rightarrow> (if sd_intervalEnabled d then d\<lparr>sd_interval := text'\<rparr> else d)
      | UnitChosen i \<Rightarrow> (if sd_unitEnabled d \<and> i < 2 then d\<lparr>sd_unit := i\<rparr> else d))"

section \<open>The first-run dialog\<close>

text \<open>An item shows the mount point and its label, and carries the mount point.\<close>

record MountItem =
  it_text :: QString
  it_checked :: bool
  it_mountPoint :: QString

record FirstRunDialog =
  fd_mountList :: "MountItem list"
  fd_manualOnly :: bool
  fd_intervalSpin :: int
  fd_unit :: nat
  fd_intervalEnabled :: bool
  fd_excludedList :: "QString list"

definition mount_item :: "Qt \<Rightarrow> MountInfo \<Rightarrow> MountItem" where
  "mount_item qt mount =
     \<lparr>it_text = qt_from qt (mi_mountPoint mount) @
        (if mi_label mount \<noteq> [] then qt_from qt '' ('' @ qt_from qt (mi_label mount) @ qt_from qt '')'' else []),
      it_checked = False, it_mountPoint = qt_from qt (mi_mountPoint mount)\<rparr>"

definition PopulateMountList :: "Qt \<Rightarrow> MountInfo list \<Rightarrow> MountItem list" where
  "PopulateMountList qt mounts = map (mount_item qt) mounts"

definition holds_home :: "string \<Rightarrow> string \<Rightarrow> bool" where
  "holds_home homeDir mountPoint \<longleftrightarrow>
     (if mountPoint = ''/'' then True
      else if homeDir = mountPoint then True
      else length homeDir > length mountPoint \<and> take (length mountPoint) homeDir = mountPoint \<and>
           homeDir ! length mountPoint = CHR ''/'')"

fun best_prefix :: "string \<Rightarrow> MountInfo list \<Rightarrow> string \<Rightarrow> string" where
  "best_prefix homeDir [] bestPrefix = bestPrefix"
| "best_prefix homeDir (mount # mounts) bestPrefix =
     best_prefix homeDir mounts
       (if holds_home homeDir (mi_mountPoint mount) \<and> length (mi_mountPoint mount) > length bestPrefix
        then mi_mountPoint mount else bestPrefix)"

definition PreselectMounts :: "Qt \<Rightarrow> string \<Rightarrow> MountInfo list \<Rightarrow> MountItem list \<Rightarrow> MountItem list" where
  "PreselectMounts qt homeDir mounts items =
     (let bestPrefix = best_prefix homeDir mounts []
      in map (\<lambda>item. if qt_to qt (it_mountPoint item) = bestPrefix then item\<lparr>it_checked := True\<rparr> else item)
           items)"

definition FirstRunDialog_open :: "Qt \<Rightarrow> MountInfo list \<Rightarrow> string \<Rightarrow> string list \<Rightarrow> FirstRunDialog" where
  "FirstRunDialog_open qt mounts homeDir defaultExcludedPaths =
     \<lparr>fd_mountList = PreselectMounts qt homeDir mounts (PopulateMountList qt mounts),
      fd_manualOnly = False, fd_intervalSpin = 48, fd_unit = 0, fd_intervalEnabled = True,
      fd_excludedList = map (qt_from qt) defaultExcludedPaths\<rparr>"

definition FirstRun_Result :: "Qt \<Rightarrow> FirstRunDialog \<Rightarrow> DialogValues" where
  "FirstRun_Result qt d =
     \<lparr>dv_selectedRoots = map (\<lambda>item. qt_to qt (it_mountPoint item)) (filter it_checked (fd_mountList d)),
      dv_excludedPaths = map (qt_to qt) (fd_excludedList d),
      dv_reindexIntervalHours =
        (if fd_manualOnly d then 0
         else if fd_unit d = 1 then fd_intervalSpin d * 24 else fd_intervalSpin d)\<rparr>"

definition FirstRun_OnManualOnlyToggled :: "bool \<Rightarrow> FirstRunDialog \<Rightarrow> FirstRunDialog" where
  "FirstRun_OnManualOnlyToggled checked d =
     d\<lparr>fd_manualOnly := checked, fd_intervalEnabled := \<not> checked\<rparr>"

definition OnAddExcludedFolder :: "QString \<Rightarrow> FirstRunDialog \<Rightarrow> FirstRunDialog" where
  "OnAddExcludedFolder dir d =
     (if dir \<noteq> [] then d\<lparr>fd_excludedList := fd_excludedList d @ [dir]\<rparr> else d)"

definition OnRemoveExcludedFolder :: "int \<Rightarrow> FirstRunDialog \<Rightarrow> FirstRunDialog" where
  "OnRemoveExcludedFolder row d =
     (if row \<ge> 0 then d\<lparr>fd_excludedList := take_item row (fd_excludedList d)\<rparr> else d)"

section \<open>The start of the program\<close>

text \<open>\<open>home\<close> is \<open>HOME\<close>, \<open>pw_dir\<close> the home of the user's password entry.\<close>

definition HomeDir :: "string option \<Rightarrow> string option \<Rightarrow> string" where
  "HomeDir home pw_dir =
     (case home of
        Some h \<Rightarrow> if h \<noteq> [] then h else (case pw_dir of Some d \<Rightarrow> d | None \<Rightarrow> ''/'')
      | None \<Rightarrow> (case pw_dir of Some d \<Rightarrow> d | None \<Rightarrow> ''/''))"

text \<open>The settings the program goes on with, and whether it goes on: \<open>run\<close> is what the user makes
  of the first-run dialog, \<open>None\<close> when it is declined; \<open>save\<close> is \<open>Settings::Save\<close>.\<close>

definition first_run_setup ::
  "Qt \<Rightarrow> (string \<Rightarrow> string option) \<Rightarrow> MountInfo list \<Rightarrow> string \<Rightarrow>
   (FirstRunDialog \<Rightarrow> FirstRunDialog option) \<Rightarrow> (Settings \<Rightarrow> Settings) \<Rightarrow> Settings \<Rightarrow> Settings option" where
  "first_run_setup qt realpath mounts home run save s =
     (if st_firstRunComplete s then Some s
      else case run (FirstRunDialog_open qt mounts home (DefaultExcludedPaths home)) of
             None \<Rightarrow> None
           | Some d \<Rightarrow>
               let result = FirstRun_Result qt d;
                   s = SetSelectedRoots realpath s (dv_selectedRoots result);
                   s = SetExcludedPaths s (dv_excludedPaths result);
                   s = SetReindexIntervalHours s (dv_reindexIntervalHours result);
                   s = SetFirstRunComplete s True
               in Some (save s))"

section \<open>Settings accepted unchanged\<close>

lemma accept_hours_open:
  assumes "Qt_numbers qt" "fits_int (dv_reindexIntervalHours v)" "dv_reindexIntervalHours v \<ge> 0"
  shows "accept_hours qt (SettingsDialog_open qt v) = Some (dv_reindexIntervalHours v)"
proof -
  let ?h = "dv_reindexIntervalHours v"
  have fits: "fits_int (?h div 24)" using assms(2,3) by (auto simp: fits_int_def)
  have read: "qt_toInt qt (qt_number qt i) = Some i" if "fits_int i" for i
    using assms(1) that by (simp add: Qt_numbers_def)
  consider "?h = 0" | "?h mod 24 = 0" "?h \<ge> 24" | "?h > 0" "\<not> (?h mod 24 = 0 \<and> ?h \<ge> 24)"
    using assms(3) by linarith
  then show ?thesis
  proof cases
    case 2
    then have "?h div 24 * 24 = ?h" "?h div 24 > 0" by auto
    with 2 fits read show ?thesis
      using assms(2) by (simp add: accept_hours_def SettingsDialog_open_def interval_fields_def Let_def)
  next
    case 3
    then have "interval_fields qt ?h = (qt_number qt ?h, 0)"
      by (auto simp: interval_fields_def)
    with 3(1) show ?thesis
      using assms(2) read by (simp add: accept_hours_def SettingsDialog_open_def Let_def)
  qed (simp add: accept_hours_def SettingsDialog_open_def interval_fields_def Let_def)
qed

lemma ListWidgetItems_survive:
  "\<forall>p \<in> set ps. survives qt p \<Longrightarrow> ListWidgetItems qt (map (qt_from qt) ps) = ps"
  by (induction ps) (auto simp: ListWidgetItems_def survives_def)

text \<open>C33: Opening the settings and accepting them unchanged gives back the exclusions and the
  interval, whatever unit it is shown in, and the roots up to the collapsing of redundant ones;
  paths must survive the conversion to a Qt string, and the interval must not be negative.\<close>

theorem settings_accepted_unchanged:
  assumes "Qt_numbers qt"
    and "\<forall>p \<in> set (dv_selectedRoots v) \<union> set (dv_excludedPaths v). survives qt p"
    and "fits_int (dv_reindexIntervalHours v)" "dv_reindexIntervalHours v \<ge> 0"
  shows "accept qt realpath (SettingsDialog_open qt v) =
    Some (v\<lparr>dv_selectedRoots := CollapseRedundantRoots realpath (dv_selectedRoots v)\<rparr>)"
proof -
  have "ListWidgetItems qt (sd_pathList (SettingsDialog_open qt v)) = dv_selectedRoots v"
    "ListWidgetItems qt (sd_excludedList (SettingsDialog_open qt v)) = dv_excludedPaths v"
    using assms(2) by (simp_all add: SettingsDialog_open_def Let_def ListWidgetItems_survive split: prod.splits)
  then show ?thesis
    using accept_hours_open [OF assms(1,3,4)] by (simp add: accept_def)
qed

text \<open>Whatever the user does in the dialog, the fields of the interval are enabled exactly when the
  reindexing is not manual only, the unit is one of the two, and no location is listed twice.\<close>

definition dialog_ok :: "SettingsDialog \<Rightarrow> bool" where
  "dialog_ok d \<longleftrightarrow>
     (sd_intervalEnabled d \<longleftrightarrow> \<not> sd_manualOnly d) \<and> (sd_unitEnabled d \<longleftrightarrow> \<not> sd_manualOnly d) \<and>
     sd_unit d < 2 \<and> distinct (sd_pathList d)"

lemma distinct_take_item: "distinct xs \<Longrightarrow> distinct (take_item row xs)"
proof -
  assume d: "distinct xs"
  have "set (take n xs) \<inter> set (drop (n + 1) xs) = {}" for n
    using d by (intro set_take_disj_set_drop_if_distinct) simp_all
  with d show ?thesis by (simp add: take_item_def distinct_take distinct_drop)
qed

lemma dialog_ok_action: "dialog_ok d \<Longrightarrow> dialog_ok (on_dialog_action a d)"
  by (cases a)
    (auto simp: on_dialog_action_def dialog_ok_def OnAddPath_def OnRemovePath_def OnAddExcluded_def
      OnRemoveExcluded_def OnManualOnlyToggled_def distinct_take_item)

lemma dialog_session:
  assumes "distinct (dv_selectedRoots v)" "\<forall>p \<in> set (dv_selectedRoots v). survives qt p"
  shows "dialog_ok (fold on_dialog_action actions (SettingsDialog_open qt v))"
proof -
  have "inj_on (qt_from qt) (set (dv_selectedRoots v))"
    using assms(2) by (intro inj_on_inverseI [where g = "qt_to qt"]) (simp add: survives_def)
  then have "dialog_ok (SettingsDialog_open qt v)"
    using assms(1)
    by (auto simp: dialog_ok_def SettingsDialog_open_def interval_fields_def Let_def distinct_map)
  then show ?thesis
    by (induction actions rule: rev_induct) (simp_all add: dialog_ok_action)
qed

text \<open>A manual-only dialog stores 0 hours whatever the fields hold, and every other one a positive number.\<close>

lemma accepted_hours:
  "sd_manualOnly d \<Longrightarrow> accept_hours qt d = Some 0"
  "\<not> sd_manualOnly d \<Longrightarrow> accept_hours qt d = Some h \<Longrightarrow> h > 0"
  by (auto simp: accept_hours_def Let_def kDefaultReindexHours_def split: option.splits if_splits)

text \<open>A negative interval in the file becomes 48 hours, and a number of days can overflow.\<close>

lemma negative_interval_becomes_default:
  assumes "Qt_numbers qt" "fits_int (dv_reindexIntervalHours v)" "dv_reindexIntervalHours v < 0"
  shows "accept_hours qt (SettingsDialog_open qt v) = Some kDefaultReindexHours"
proof -
  have "qt_toInt qt (qt_number qt (dv_reindexIntervalHours v)) = Some (dv_reindexIntervalHours v)"
    using assms(1,2) by (simp add: Qt_numbers_def)
  then show ?thesis
    using assms(3)
    by (simp add: accept_hours_def SettingsDialog_open_def interval_fields_def Let_def
        kDefaultReindexHours_def fits_int_def)
qed

lemma days_overflow:
  assumes "Qt_numbers qt" "\<not> sd_manualOnly d"
  shows "accept_hours qt d = None \<longleftrightarrow>
    sd_unit d = 1 \<and> (\<exists>v. qt_toInt qt (sd_interval d) = Some v \<and> v > 89478485)"
proof -
  have "fits_int v" if "qt_toInt qt (sd_interval d) = Some v" for v
    using assms(1) that by (auto simp: Qt_numbers_def)
  then show ?thesis
    using assms(2)
    by (cases "qt_toInt qt (sd_interval d)")
      (auto simp: accept_hours_def Let_def kDefaultReindexHours_def fits_int_def)
qed

section \<open>The mounts preselected\<close>

lemma holds_home_iff: "hd homeDir = CHR ''/'' \<Longrightarrow> homeDir \<noteq> [] \<Longrightarrow> holds_home homeDir m = IsUnderOrEqual homeDir m"
  by (cases homeDir) (auto simp: holds_home_def IsUnderOrEqual_def)

lemma best_prefix_longest:
  assumes "\<forall>p. best0 = p \<longrightarrow> p = [] \<or> holds_home h p"
  shows "(best_prefix h ms best0 = best0 \<or> best_prefix h ms best0 \<in> mi_mountPoint ` set ms) \<and>
    length best0 \<le> length (best_prefix h ms best0) \<and>
    (best_prefix h ms best0 = [] \<or> holds_home h (best_prefix h ms best0)) \<and>
    (\<forall>m \<in> set ms. holds_home h (mi_mountPoint m) \<longrightarrow>
       length (mi_mountPoint m) \<le> length (best_prefix h ms best0))"
  using assms
proof (induction ms arbitrary: best0)
  case (Cons m ms)
  let ?b = "if holds_home h (mi_mountPoint m) \<and> length (mi_mountPoint m) > length best0
    then mi_mountPoint m else best0"
  have "\<forall>p. ?b = p \<longrightarrow> p = [] \<or> holds_home h p" using Cons.prems by auto
  from Cons.IH [OF this] show ?case by (auto split: if_splits)
qed simp

lemma same_length_holders:
  assumes "hd h = CHR ''/''" "h \<noteq> []" "holds_home h p" "holds_home h q" "length p = length q"
  shows "p = q"
proof -
  have pre: "take (length r) h = r" if "holds_home h r" for r
    using that assms(1,2) by (cases h) (auto simp: holds_home_def split: if_splits)
  show ?thesis using pre [OF assms(3)] pre [OF assms(4)] assms(5) by metis
qed

lemma map_filter_preselected:
  assumes "\<forall>m \<in> set ms. survives qt (mi_mountPoint m)"
  shows "map (\<lambda>item. qt_to qt (it_mountPoint item))
      (filter it_checked (map (\<lambda>item. if qt_to qt (it_mountPoint item) = b then item\<lparr>it_checked := True\<rparr> else item)
        (PopulateMountList qt ms))) =
    filter (\<lambda>p. p = b) (map mi_mountPoint ms)"
  using assms by (induction ms) (auto simp: PopulateMountList_def mount_item_def survives_def)

text \<open>The roots the first-run dialog proposes are exactly the mount points that hold the home
  directory and have no mount point inside them that holds it too: the innermost ones.\<close>

lemma first_run_proposes_home:
  assumes "\<forall>m \<in> set mounts. survives qt (mi_mountPoint m) \<and> mi_mountPoint m \<noteq> []"
    and "homeDir \<noteq> []" "hd homeDir = CHR ''/''"
  shows "set (dv_selectedRoots (FirstRun_Result qt (FirstRunDialog_open qt mounts homeDir excluded))) =
    {p \<in> mi_mountPoint ` set mounts. IsUnderOrEqual homeDir p \<and>
       (\<forall>q \<in> mi_mountPoint ` set mounts. IsUnderOrEqual homeDir q \<longrightarrow> length q \<le> length p)}"
proof -
  let ?b = "best_prefix homeDir mounts []"
  have "dv_selectedRoots (FirstRun_Result qt (FirstRunDialog_open qt mounts homeDir excluded)) =
      filter (\<lambda>p. p = ?b) (map mi_mountPoint mounts)"
    using assms(1)
    by (simp add: FirstRun_Result_def FirstRunDialog_open_def PreselectMounts_def Let_def map_filter_preselected)
  then have roots: "set (dv_selectedRoots (FirstRun_Result qt (FirstRunDialog_open qt mounts homeDir excluded))) =
      {p \<in> mi_mountPoint ` set mounts. p = ?b}" by auto
  have best: "?b = [] \<or> holds_home homeDir ?b"
    "\<forall>m \<in> set mounts. holds_home homeDir (mi_mountPoint m) \<longrightarrow> length (mi_mountPoint m) \<le> length ?b"
    using best_prefix_longest [of "[]" homeDir mounts] by simp_all
  have "(p = ?b) = (holds_home homeDir p \<and>
      (\<forall>q \<in> mi_mountPoint ` set mounts. holds_home homeDir q \<longrightarrow> length q \<le> length p))"
    if p: "p \<in> mi_mountPoint ` set mounts" for p
  proof
    assume "p = ?b"
    with p assms(1) best show "holds_home homeDir p \<and>
      (\<forall>q \<in> mi_mountPoint ` set mounts. holds_home homeDir q \<longrightarrow> length q \<le> length p)" by auto
  next
    assume r: "holds_home homeDir p \<and>
      (\<forall>q \<in> mi_mountPoint ` set mounts. holds_home homeDir q \<longrightarrow> length q \<le> length p)"
    then have le: "length p \<le> length ?b" using p best(2) by auto
    then have "?b \<noteq> []" using p assms(1) by auto
    then have b: "holds_home homeDir ?b" "?b \<in> mi_mountPoint ` set mounts"
      using best(1) best_prefix_longest [of "[]" homeDir mounts] by auto
    with r le have "length p = length ?b" by (meson le_antisym)
    then show "p = ?b" using same_length_holders [OF assms(3,2)] r b(1) by blast
  qed
  then show ?thesis unfolding roots holds_home_iff [OF assms(3,2), symmetric] by blast
qed

section \<open>Witnesses\<close>

definition sample_qt :: Qt where
  "sample_qt = \<lparr>qt_from = map (\<lambda>c. of_nat (of_char c)), qt_to = map (\<lambda>u. char_of (unat u)),
     qt_number = (\<lambda>i. map (\<lambda>c. of_nat (of_char c)) (int_to_string i)),
     qt_toInt = (\<lambda>s. stoi (map (\<lambda>u. char_of (unat u)) s))\<rparr>"

lemma sample_char: "char_of (unat (of_nat (of_char c) :: u16)) = c"
proof -
  have "(of_char c :: nat) < 65536"
    using nat_of_char_less_256 [of c] by linarith
  then have "unat (of_nat (of_char c) :: u16) = of_char c" by (simp add: unat_of_nat)
  then show ?thesis by simp
qed

lemma sample_survives: "survives sample_qt p"
  by (simp add: survives_def sample_qt_def comp_def sample_char)

lemma sample_numbers: "Qt_numbers sample_qt"
proof -
  have "stoi (int_to_string i) = Some i" if "fits_int i" for i
    using that by (intro stoi_int_to_string) (simp_all add: fits_int_def)
  moreover have "fits_int i" if "stoi s = Some i" for s i
    using that by (auto simp: stoi_def Let_def fits_int_def split: if_splits)
  ultimately show ?thesis by (simp add: Qt_numbers_def sample_qt_def comp_def sample_char)
qed

lemma settings_accepted_unchanged_witness:
  "accept sample_qt (\<lambda>p. Some p) (SettingsDialog_open sample_qt
     \<lparr>dv_selectedRoots = [''/home''], dv_excludedPaths = [''/proc''], dv_reindexIntervalHours = 72\<rparr>) =
   Some \<lparr>dv_selectedRoots = CollapseRedundantRoots (\<lambda>p. Some p) [''/home''],
     dv_excludedPaths = [''/proc''], dv_reindexIntervalHours = 72\<rparr>"
  by (subst settings_accepted_unchanged) (simp_all add: sample_numbers sample_survives fits_int_def)

definition sample_mount :: "string \<Rightarrow> MountInfo" where
  "sample_mount p = \<lparr>mi_mountPoint = p, mi_device = ''sda'', mi_fsType = ''ext4'', mi_label = [],
     mi_removable = False, mi_isNetwork = False\<rparr>"

lemma first_run_proposes_home_witness:
  "set (dv_selectedRoots (FirstRun_Result sample_qt
     (FirstRunDialog_open sample_qt [sample_mount ''/'', sample_mount ''/home'', sample_mount ''/home/v'']
        ''/home/u'' []))) = {''/home''}"
proof -
  have "{p \<in> {''/'', ''/home'', ''/home/v''}. IsUnderOrEqual ''/home/u'' p \<and>
       (\<forall>q \<in> {''/'', ''/home'', ''/home/v''}. IsUnderOrEqual ''/home/u'' q \<longrightarrow> length q \<le> length p)} = {''/home''}"
    by (auto simp: IsUnderOrEqual_def)
  then show ?thesis
    by (subst first_run_proposes_home) (simp_all add: sample_mount_def sample_survives)
qed

end
