(* ===== verification/Result_View.thy ===== *)
theory Result_View
  imports Result_Table Dialogs
begin

text \<open>
  The result view (\<open>ui/ResultView.cpp\<close>): the selection over the rows of \<open>Result_Table\<close>, what the
  keys, the context menu, the clipboard and a drag make of it, and how it is carried over a
  refresh. Qt's selection model is the list of its selected rows and the current row, \<open>-1\<close> when there
  is none; the conversions of Qt strings and URLs are parameters. The theory shows that the paths
  the view acts on are those of its rows, and that a refresh keeps what is still there selected.
\<close>

section \<open>File objects for the clipboard\<close>

datatype FileTransfer = Copy | Cut | Drag

text \<open>The URLs stand for their local files; \<open>mime_gnome\<close> is \<open>x-special/gnome-copied-files\<close>.\<close>

record MimeData =
  mime_urls :: "QString list"
  mime_text :: QString
  mime_gnome :: "string option"

fun join_lines :: "QString list \<Rightarrow> QString" where
  "join_lines [] = []"
| "join_lines [p] = p"
| "join_lines (p # ps) = p @ 10 # join_lines ps"

text \<open>\<open>url\<close> is the URL of a local file as text.\<close>

definition BuildFileMimeData :: "(QString \<Rightarrow> string) \<Rightarrow> QString list \<Rightarrow> FileTransfer \<Rightarrow> MimeData" where
  "BuildFileMimeData url paths transfer =
     \<lparr>mime_urls = paths, mime_text = join_lines paths,
      mime_gnome =
        (if transfer \<noteq> Drag
         then Some ((if transfer = Cut then ''cut'' else ''copy'') @ concat (map (\<lambda>p. CHR 0x0A # url p) paths))
         else None)\<rparr>"

section \<open>The view\<close>

record ResultView =
  rv_model :: "ResultModel option"
  rv_selected :: "nat list"
  rv_current :: int
  rv_focus :: bool
  rv_indicator :: "int \<times> bool"
  rv_lastSorted :: int

definition new_view :: ResultView where
  "new_view = \<lparr>rv_model = None, rv_selected = [], rv_current = -1, rv_focus = False,
     rv_indicator = (0, True), rv_lastSorted = -1\<rparr>"

text \<open>No initial sort: the indicator shows no column.\<close>

definition SetResultModel :: "ResultModel \<Rightarrow> ResultView \<Rightarrow> ResultView" where
  "SetResultModel m v =
     v\<lparr>rv_model := Some m, rv_selected := [], rv_current := -1, rv_indicator := (-1, True)\<rparr>"

definition FullPathForRow :: "Qt \<Rightarrow> ResultView \<Rightarrow> int \<Rightarrow> QString" where
  "FullPathForRow qt v row =
     (case rv_model v of
        None \<Rightarrow> []
      | Some m \<Rightarrow>
          if row < 0 \<or> row \<ge> rowCount None m then []
          else let entry = rm_entries m ! nat row;
                   dir = qt_from qt (de_parentDir entry);
                   dir = (if dir \<noteq> [] \<and> last dir = 47 then dir else dir @ [47])
               in dir @ qt_from qt (de_name entry))"

definition SelectedFullPaths :: "Qt \<Rightarrow> ResultView \<Rightarrow> QString list" where
  "SelectedFullPaths qt v =
     (if rv_model v = None then [] else map (\<lambda>row. FullPathForRow qt v (int row)) (rv_selected v))"

record SelectionSnapshot =
  ss_selectedPaths :: "QString list"
  ss_currentPath :: QString
  ss_hadFocus :: bool

definition SnapshotSelection :: "Qt \<Rightarrow> ResultView \<Rightarrow> SelectionSnapshot" where
  "SnapshotSelection qt v =
     (if rv_model v = None then \<lparr>ss_selectedPaths = [], ss_currentPath = [], ss_hadFocus = rv_focus v\<rparr>
      else \<lparr>ss_selectedPaths = SelectedFullPaths qt v,
        ss_currentPath = (if rv_current v \<ge> 0 then FullPathForRow qt v (rv_current v) else []),
        ss_hadFocus = rv_focus v\<rparr>)"

text \<open>The hash of rows by path: a later row replaces an earlier one.\<close>

definition rowForPath :: "Qt \<Rightarrow> ResultView \<Rightarrow> QString \<Rightarrow> nat option" where
  "rowForPath qt v =
     (case rv_model v of
        None \<Rightarrow> Map.empty
      | Some m \<Rightarrow> map_of (rev (map (\<lambda>row. (FullPathForRow qt v (int row), row)) [0..<length (rm_entries m)])))"

definition select_row :: "nat \<Rightarrow> nat list \<Rightarrow> nat list" where
  "select_row row rows = (if row \<in> set rows then rows else rows @ [row])"

fun restore_rows :: "(QString \<Rightarrow> nat option) \<Rightarrow> QString list \<Rightarrow> bool \<Rightarrow> nat list \<Rightarrow> nat list" where
  "restore_rows rowFor [] isFirst rows = rows"
| "restore_rows rowFor (path # paths) isFirst rows =
     (case rowFor path of
        None \<Rightarrow> restore_rows rowFor paths isFirst rows
      | Some row \<Rightarrow> restore_rows rowFor paths False (if isFirst then [row] else select_row row rows))"

definition RestoreSelection :: "Qt \<Rightarrow> SelectionSnapshot \<Rightarrow> ResultView \<Rightarrow> ResultView" where
  "RestoreSelection qt snapshot v =
     (if rv_model v = None then v
      else if ss_selectedPaths snapshot = [] \<and> ss_currentPath snapshot = [] then v
      else
        let rowFor = rowForPath qt v;
            v = v\<lparr>rv_selected := restore_rows rowFor (ss_selectedPaths snapshot) True (rv_selected v)\<rparr>;
            v = (case rowFor (ss_currentPath snapshot) of
                   None \<Rightarrow> v
                 | Some row \<Rightarrow> v\<lparr>rv_current := int row\<rparr>)
        in if ss_hadFocus snapshot then v\<lparr>rv_focus := True\<rparr> else v)"

section \<open>Actions\<close>

definition SelectedFullPathsOrCurrent :: "Qt \<Rightarrow> ResultView \<Rightarrow> QString list" where
  "SelectedFullPathsOrCurrent qt v =
     (let paths = SelectedFullPaths qt v
      in if paths = [] then
           (let current = FullPathForRow qt v (rv_current v) in if current \<noteq> [] then [current] else [])
         else paths)"

datatype ViewAction =
    OpenRequested QString
  | RevealRequested QString
  | TrashRequested "QString list"
  | DeletePermanentlyRequested "QString list"
  | ClipboardFiles MimeData
  | ClipboardText QString

definition CopySelectionToClipboard :: "Qt \<Rightarrow> (QString \<Rightarrow> string) \<Rightarrow> ResultView \<Rightarrow> ViewAction list" where
  "CopySelectionToClipboard qt url v =
     (let paths = SelectedFullPathsOrCurrent qt v
      in if paths \<noteq> [] then [ClipboardFiles (BuildFileMimeData url paths Copy)] else [])"

definition CutSelectionToClipboard :: "Qt \<Rightarrow> (QString \<Rightarrow> string) \<Rightarrow> ResultView \<Rightarrow> ViewAction list" where
  "CutSelectionToClipboard qt url v =
     (let paths = SelectedFullPathsOrCurrent qt v
      in if paths \<noteq> [] then [ClipboardFiles (BuildFileMimeData url paths Cut)] else [])"

definition CopySelectedFullPathsToClipboard :: "Qt \<Rightarrow> ResultView \<Rightarrow> ViewAction list" where
  "CopySelectedFullPathsToClipboard qt v =
     (let paths = SelectedFullPathsOrCurrent qt v
      in if paths \<noteq> [] then [ClipboardText (join_lines paths)] else [])"

text \<open>\<open>None\<close> is the exception of \<open>EntryAt\<close> for a row that is not there.\<close>

definition CopySelectedFilenamesToClipboard :: "Qt \<Rightarrow> ResultView \<Rightarrow> ViewAction list option" where
  "CopySelectedFilenamesToClipboard qt v =
     (case rv_model v of
        None \<Rightarrow> Some []
      | Some m \<Rightarrow>
          let rows = map int (rv_selected v);
              rows = (if rows = [] \<and> rv_current v \<ge> 0 then [rv_current v] else rows)
          in if list_all (\<lambda>row. EntryAt row m \<noteq> None) rows then
               (let names = map (\<lambda>row. qt_from qt (de_name (the (EntryAt row m)))) rows
                in Some (if names \<noteq> [] then [ClipboardText (join_lines names)] else []))
             else None)"

datatype ViewKey = Key_Return | Key_Enter | Key_C | Key_X | Key_Delete | OtherViewKey

text \<open>The result says whether the key goes on to the tree view.\<close>

definition View_keyPressEvent ::
  "Qt \<Rightarrow> (QString \<Rightarrow> string) \<Rightarrow> ViewKey \<Rightarrow> bool \<Rightarrow> bool \<Rightarrow> ResultView \<Rightarrow> ViewAction list \<times> bool" where
  "View_keyPressEvent qt url key ctrl shift v =
     (let enter = (key = Key_Return \<or> key = Key_Enter);
          current = FullPathForRow qt v (rv_current v);
          selected = SelectedFullPaths qt v
      in if enter \<and> ctrl then (if current \<noteq> [] then [RevealRequested current] else [], False)
         else if enter then
           (if length selected = 1 then [OpenRequested (hd selected)]
            else if selected = [] \<and> current \<noteq> [] then [OpenRequested current] else [], False)
         else if ctrl \<and> key = Key_C then (CopySelectionToClipboard qt url v, False)
         else if ctrl \<and> key = Key_X then (CutSelectionToClipboard qt url v, False)
         else if key = Key_Delete then
           (let paths = SelectedFullPathsOrCurrent qt v
            in (if paths = [] then []
                else if shift then [DeletePermanentlyRequested paths] else [TrashRequested paths], False))
         else ([], True))"

text \<open>The entries of the context menu: their name, whether they are enabled, and what they do.\<close>

datatype MenuItem = OpenItem | RevealItem | CopyItem | CutItem | CopyPathItem | CopyNameItem

definition BuildContextMenu ::
  "Qt \<Rightarrow> (QString \<Rightarrow> string) \<Rightarrow> ResultView \<Rightarrow> (MenuItem \<times> bool \<times> ViewAction list option) list" where
  "BuildContextMenu qt url v =
     (let selected = SelectedFullPaths qt v;
          current = (if selected = [] then FullPathForRow qt v (rv_current v) else hd selected)
      in [(OpenItem, length selected \<le> 1 \<and> current \<noteq> [], Some [OpenRequested current]),
          (RevealItem, current \<noteq> [], Some [RevealRequested current]),
          (CopyItem, current \<noteq> [], Some (CopySelectionToClipboard qt url v)),
          (CutItem, current \<noteq> [], Some (CutSelectionToClipboard qt url v)),
          (CopyPathItem, True, Some (CopySelectedFullPathsToClipboard qt v)),
          (CopyNameItem, True, CopySelectedFilenamesToClipboard qt v)])"

definition contextMenuEvent ::
  "Qt \<Rightarrow> (QString \<Rightarrow> string) \<Rightarrow> ResultView \<Rightarrow> (MenuItem \<times> bool \<times> ViewAction list option) list option" where
  "contextMenuEvent qt url v =
     (case rv_model v of
        None \<Rightarrow> None
      | Some m \<Rightarrow> if rowCount None m = 0 then None else Some (BuildContextMenu qt url v))"

definition BuildDragMimeData :: "Qt \<Rightarrow> (QString \<Rightarrow> string) \<Rightarrow> ResultView \<Rightarrow> int list \<Rightarrow> MimeData" where
  "BuildDragMimeData qt url v rows = BuildFileMimeData url (map (FullPathForRow qt v) rows) Drag"

definition startDrag :: "Qt \<Rightarrow> (QString \<Rightarrow> string) \<Rightarrow> ResultView \<Rightarrow> MimeData option" where
  "startDrag qt url v =
     (if rv_selected v = [] then None
      else Some (BuildDragMimeData qt url v (map int (rv_selected v))))"

section \<open>Sorting and refreshing\<close>

text \<open>A model reset drops the selection and the current row.\<close>

definition reset_model :: "ResultModel \<Rightarrow> ResultView \<Rightarrow> ResultView" where
  "reset_model m v = v\<lparr>rv_model := Some m, rv_selected := [], rv_current := -1\<rparr>"

definition sortByColumn :: "int \<Rightarrow> bool \<Rightarrow> ResultView \<Rightarrow> ResultView" where
  "sortByColumn column ascending v =
     (case rv_model v of
        None \<Rightarrow> v
      | Some m \<Rightarrow> (reset_model (model_sort column ascending m) v)\<lparr>rv_indicator := (column, ascending)\<rparr>)"

text \<open>The slot of a click, after the header has changed its indicator and sorted.\<close>

definition OnHeaderClicked :: "int \<Rightarrow> ResultView \<Rightarrow> ResultView" where
  "OnHeaderClicked section' v =
     (let v = (if section' = 2 \<and> rv_lastSorted v \<noteq> 2 then sortByColumn 2 False v else v)
      in v\<lparr>rv_lastSorted := section'\<rparr>)"

text \<open>The window's slot for new results: \<open>keep\<close> is its \<open>preserveSelectionOnNextResults_\<close>.\<close>

definition show_results :: "Qt \<Rightarrow> bool \<Rightarrow> DisplayEntry list \<Rightarrow> ResultView \<Rightarrow> ResultView" where
  "show_results qt keep rows v =
     (case rv_model v of
        None \<Rightarrow> v
      | Some m \<Rightarrow>
          let selection = (if keep then SnapshotSelection qt v
                           else \<lparr>ss_selectedPaths = [], ss_currentPath = [], ss_hadFocus = False\<rparr>);
              v = reset_model (SetEntries rows m) v;
              v = (case rv_indicator v of (section', ascending) \<Rightarrow>
                     if section' \<ge> 0 then sortByColumn section' ascending v else v)
          in if keep then RestoreSelection qt selection v else v)"

section \<open>The paths of the rows\<close>

definition row_path :: "Qt \<Rightarrow> DisplayEntry \<Rightarrow> QString" where
  "row_path qt entry =
     (let dir = qt_from qt (de_parentDir entry)
      in (if dir \<noteq> [] \<and> last dir = 47 then dir else dir @ [47]) @ qt_from qt (de_name entry))"

lemma row_path_nonempty [simp]: "row_path qt entry \<noteq> []"
  by (simp add: row_path_def Let_def)

lemma FullPathForRow_row:
  "rv_model v = Some m \<Longrightarrow> row < length (rm_entries m) \<Longrightarrow>
   FullPathForRow qt v (int row) = row_path qt (rm_entries m ! row)"
  by (simp add: FullPathForRow_def row_path_def rowCount_def Let_def)

lemma SelectedFullPaths_rows:
  assumes "rv_model v = Some m" "\<forall>row \<in> set (rv_selected v). row < length (rm_entries m)"
  shows "SelectedFullPaths qt v = map (\<lambda>row. row_path qt (rm_entries m ! row)) (rv_selected v)"
  using assms by (auto simp: SelectedFullPaths_def FullPathForRow_row)

text \<open>As documented for text that is valid UTF-8: conversion keeps concatenation and \<open>/\<close>.\<close>

definition Qt_paths :: "Qt \<Rightarrow> bool" where
  "Qt_paths qt \<longleftrightarrow>
     qt_from qt ''/'' = [47] \<and> survives qt ''/'' \<and>
     (\<forall>a b. survives qt a \<longrightarrow> survives qt b \<longrightarrow>
        qt_from qt (a @ b) = qt_from qt a @ qt_from qt b \<and> survives qt (a @ b)) \<and>
     (\<forall>a. survives qt a \<longrightarrow> (qt_from qt a \<noteq> [] \<and> last (qt_from qt a) = 47) = (a \<noteq> [] \<and> last a = CHR ''/''))"

text \<open>A directory as \<open>ParentDirOf\<close> gives it for a path without doubled slashes.\<close>

definition shown_dir :: "string \<Rightarrow> bool" where
  "shown_dir dir \<longleftrightarrow> dir = ''/'' \<or> dir = [] \<or> last dir \<noteq> CHR ''/''"

lemma row_path_entry_path:
  assumes "Qt_paths qt" "survives qt (de_parentDir entry)" "survives qt (de_name entry)"
    and "shown_dir (de_parentDir entry)"
  shows "row_path qt entry = qt_from qt (entry_path entry)" "survives qt (entry_path entry)"
proof -
  let ?d = "de_parentDir entry" and ?n = "de_name entry"
  have app: "qt_from qt (a @ b) = qt_from qt a @ qt_from qt b" "survives qt (a @ b)"
    if "survives qt a" "survives qt b" for a b
    using assms(1) that by (simp_all add: Qt_paths_def)
  have slash: "qt_from qt ''/'' = [47]" "survives qt ''/''"
    and ends: "(qt_from qt ?d \<noteq> [] \<and> last (qt_from qt ?d) = 47) = (?d \<noteq> [] \<and> last ?d = CHR ''/'')"
    using assms(1,2) by (simp_all add: Qt_paths_def)
  note n = app [OF slash(2) assms(3)]
  show "row_path qt entry = qt_from qt (entry_path entry)"
    using assms(4) ends slash n(1) app(1) [OF assms(2) n(2)]
    by (auto simp: row_path_def Let_def entry_path_def shown_dir_def)
  show "survives qt (entry_path entry)"
    using n(2) app(2) [OF assms(2) n(2)] by (simp add: entry_path_def)
qed

text \<open>The Delete key asks for exactly the files of the selected rows: converted back, the paths it
  hands over are the full paths of those rows, in the order of the selection, provided their
  bytes are valid UTF-8. With Shift they are deleted, without they go to the trash.\<close>

lemma delete_key_hits_selection:
  assumes "Qt_paths qt" "rv_model v = Some m" "rv_selected v \<noteq> []"
    and "\<forall>row \<in> set (rv_selected v). row < length (rm_entries m) \<and>
      survives qt (de_parentDir (rm_entries m ! row)) \<and> survives qt (de_name (rm_entries m ! row)) \<and>
      shown_dir (de_parentDir (rm_entries m ! row))"
  shows "\<exists>paths. View_keyPressEvent qt url Key_Delete ctrl shift v =
      ([if shift then DeletePermanentlyRequested paths else TrashRequested paths], False) \<and>
    map (\<lambda>row. Some (qt_to qt (paths ! row))) [0..<length paths] =
      map (\<lambda>row. FullPath (int row) m) (rv_selected v)"
proof -
  let ?paths = "SelectedFullPaths qt v"
  have rows: "?paths = map (\<lambda>row. row_path qt (rm_entries m ! row)) (rv_selected v)"
    using SelectedFullPaths_rows assms(2,4) by blast
  then have "?paths \<noteq> []" using assms(3) by simp
  then have "View_keyPressEvent qt url Key_Delete ctrl shift v =
      ([if shift then DeletePermanentlyRequested ?paths else TrashRequested ?paths], False)"
    by (simp add: View_keyPressEvent_def Let_def SelectedFullPathsOrCurrent_def)
  moreover have "map (\<lambda>row. Some (qt_to qt (?paths ! row))) [0..<length ?paths] =
      map (\<lambda>p. Some (qt_to qt p)) ?paths"
    by (rule nth_equalityI) simp_all
  moreover have "map (\<lambda>p. Some (qt_to qt p)) ?paths = map (\<lambda>row. FullPath (int row) m) (rv_selected v)"
    unfolding rows using assms(4) row_path_entry_path [OF assms(1)]
    by (auto simp: FullPath_def EntryAt_def survives_def)
  ultimately show ?thesis by metis
qed

section \<open>A refresh keeps the selection\<close>

lemma rowForPath_row:
  assumes "rv_model v = Some m"
  shows "rowForPath qt v p = Some row \<Longrightarrow> row < length (rm_entries m) \<and> row_path qt (rm_entries m ! row) = p"
    and "(rowForPath qt v p = None) = (p \<notin> row_path qt ` set (rm_entries m))"
proof -
  let ?n = "length (rm_entries m)"
  let ?al = "rev (map (\<lambda>row. (FullPathForRow qt v (int row), row)) [0..<?n])"
  have eq: "rowForPath qt v = map_of ?al" using assms by (simp add: rowForPath_def)
  show "rowForPath qt v p = Some row \<Longrightarrow> row < ?n \<and> row_path qt (rm_entries m ! row) = p"
    using FullPathForRow_row [OF assms] by (auto simp: eq dest!: map_of_SomeD)
  have "fst ` set ?al = (\<lambda>row. FullPathForRow qt v (int row)) ` {0..<?n}" by (auto simp: image_image)
  also have "\<dots> = row_path qt ` set (rm_entries m)"
    using FullPathForRow_row [OF assms] by (auto simp: set_conv_nth image_iff) (metis atLeastLessThan_iff le0)+
  finally show "(rowForPath qt v p = None) = (p \<notin> row_path qt ` set (rm_entries m))"
    by (simp add: eq map_of_eq_None_iff)
qed

lemma restore_rows_set:
  "set (restore_rows rowFor paths isFirst rows) =
     (if isFirst \<and> (\<exists>p \<in> set paths. rowFor p \<noteq> None) then {} else set rows) \<union>
     {row. \<exists>p \<in> set paths. rowFor p = Some row}"
  by (induction rowFor paths isFirst rows rule: restore_rows.induct)
    (auto simp: select_row_def split: option.splits if_splits)

lemma restore_rows_distinct: "distinct rows \<Longrightarrow> distinct (restore_rows rowFor paths isFirst rows)"
  by (induction rowFor paths isFirst rows rule: restore_rows.induct)
    (auto simp: select_row_def split: option.splits)

lemma restored_paths:
  assumes "rv_model v = Some m" "rv_selected v = []"
  shows "set (SelectedFullPaths qt (RestoreSelection qt ss v)) =
    set (ss_selectedPaths ss) \<inter> row_path qt ` set (rm_entries m)"
proof -
  let ?r = "restore_rows (rowForPath qt v) (ss_selectedPaths ss) True []"
  have model: "rv_model (RestoreSelection qt ss v) = Some m"
    using assms(1) by (simp add: RestoreSelection_def Let_def split: option.splits)
  have sel: "rv_selected (RestoreSelection qt ss v) = ?r"
    using assms by (cases "ss_selectedPaths ss") (auto simp: RestoreSelection_def Let_def split: option.splits)
  have set: "set ?r = {row. \<exists>p \<in> set (ss_selectedPaths ss). rowForPath qt v p = Some row}"
    by (simp add: restore_rows_set)
  have "SelectedFullPaths qt (RestoreSelection qt ss v) = map (\<lambda>row. row_path qt (rm_entries m ! row)) ?r"
  proof -
    have "\<forall>row \<in> set ?r. row < length (rm_entries m)"
      unfolding set using rowForPath_row(1) [OF assms(1)] by blast
    then show ?thesis using SelectedFullPaths_rows [OF model, of qt] by (simp add: sel)
  qed
  moreover have "(\<lambda>row. row_path qt (rm_entries m ! row)) ` set ?r =
      set (ss_selectedPaths ss) \<inter> row_path qt ` set (rm_entries m)"
  proof
    show "(\<lambda>row. row_path qt (rm_entries m ! row)) ` set ?r \<subseteq>
        set (ss_selectedPaths ss) \<inter> row_path qt ` set (rm_entries m)"
      unfolding set using rowForPath_row(1) [OF assms(1)] by fastforce
    show "set (ss_selectedPaths ss) \<inter> row_path qt ` set (rm_entries m) \<subseteq>
        (\<lambda>row. row_path qt (rm_entries m ! row)) ` set ?r"
    proof
      fix p assume p: "p \<in> set (ss_selectedPaths ss) \<inter> row_path qt ` set (rm_entries m)"
      then obtain row where row: "rowForPath qt v p = Some row"
        using rowForPath_row(2) [OF assms(1)] by (metis IntD2 not_None_eq)
      have "row_path qt (rm_entries m ! row) = p" using rowForPath_row(1) [OF assms(1) row] by simp
      moreover have "row \<in> set ?r" unfolding set using p row by blast
      ultimately show "p \<in> (\<lambda>row. row_path qt (rm_entries m ! row)) ` set ?r" by blast
    qed
  qed
  ultimately show ?thesis by simp
qed

lemma model_sort_perm: "set (rm_entries (model_sort column ascending m)) = set (rm_entries m)"
proof -
  have "mset (rm_entries (model_sort column ascending m)) = mset (rm_entries m)"
    by (simp add: model_sort_def split: option.splits)
  then show ?thesis by (rule mset_eq_setD)
qed

lemma show_results_model:
  assumes "rv_model v = Some m"
  obtains v' m' where "show_results qt keep rows v =
      (if keep then RestoreSelection qt (SnapshotSelection qt v) v' else v')"
    "rv_model v' = Some m'" "set (rm_entries m') = set rows" "rv_selected v' = []" "rv_current v' = -1"
proof -
  obtain col asc where ind: "rv_indicator v = (col, asc)" by (cases "rv_indicator v")
  let ?m0 = "SetEntries rows m"
  let ?v0 = "reset_model ?m0 v"
  have v0: "rv_model ?v0 = Some ?m0" "rv_selected ?v0 = []" "rv_current ?v0 = -1"
    by (simp_all add: reset_model_def)
  have v1: "rv_model (sortByColumn col asc ?v0) = Some (model_sort col asc ?m0)"
    "rv_selected (sortByColumn col asc ?v0) = []" "rv_current (sortByColumn col asc ?v0) = -1"
    by (simp_all add: sortByColumn_def v0(1)) (simp_all add: reset_model_def)
  have rows: "set (rm_entries ?m0) = set rows" "set (rm_entries (model_sort col asc ?m0)) = set rows"
    using model_sort_perm [of col asc ?m0] by (simp_all add: SetEntries_def)
  have shown: "show_results qt keep rows v =
      (if keep then RestoreSelection qt (SnapshotSelection qt v) (if col \<ge> 0 then sortByColumn col asc ?v0 else ?v0)
       else (if col \<ge> 0 then sortByColumn col asc ?v0 else ?v0))"
    using assms ind by (simp add: show_results_def Let_def reset_model_def)
  show ?thesis
  proof (cases "col \<ge> 0")
    case True
    then show ?thesis using that [OF _ v1(1) rows(2) v1(2,3)] shown by simp
  next
    case False
    then show ?thesis using that [OF _ v0(1) rows(1) v0(2,3)] shown by simp
  qed
qed

text \<open>A refresh of the results keeps the user's place: afterwards the selected paths are exactly
  those selected before that are still among the rows, however the rows were reordered, and the
  current row is the one of the same path if it is still there, and none otherwise.\<close>

lemma refresh_keeps_selection:
  assumes "rv_model v = Some m"
    and "\<forall>row \<in> set (rv_selected v). row < length (rm_entries m)"
    and "0 \<le> rv_current v" "rv_current v < rowCount None m"
  shows "set (SelectedFullPaths qt (show_results qt True rows v)) =
      set (SelectedFullPaths qt v) \<inter> row_path qt ` set rows \<and>
    (if FullPathForRow qt v (rv_current v) \<in> row_path qt ` set rows
     then FullPathForRow qt (show_results qt True rows v) (rv_current (show_results qt True rows v)) =
       FullPathForRow qt v (rv_current v)
     else rv_current (show_results qt True rows v) = -1)"
proof -
  let ?ss = "SnapshotSelection qt v" and ?p = "FullPathForRow qt v (rv_current v)"
  obtain v' m' where v': "show_results qt True rows v = RestoreSelection qt ?ss v'"
    "rv_model v' = Some m'" "set (rm_entries m') = set rows" "rv_selected v' = []" "rv_current v' = -1"
    using show_results_model [OF assms(1), of qt True rows] by (metis (full_types))
  have p: "?p = row_path qt (rm_entries m ! nat (rv_current v))"
    using FullPathForRow_row [OF assms(1), of "nat (rv_current v)"] assms(3,4) by (simp add: rowCount_def)
  have ss: "ss_selectedPaths ?ss = SelectedFullPaths qt v" "ss_currentPath ?ss = ?p"
    using assms(1,3) by (simp_all add: SnapshotSelection_def)
  have model: "rv_model (RestoreSelection qt ?ss v') = Some m'"
    using v'(2) by (simp add: RestoreSelection_def Let_def split: option.splits)
  have cur: "rv_current (RestoreSelection qt ?ss v') =
      (case rowForPath qt v' ?p of None \<Rightarrow> -1 | Some row \<Rightarrow> int row)"
    using v'(2,5) ss(2) p by (simp add: RestoreSelection_def Let_def split: option.splits)
  show ?thesis
    using restored_paths [OF v'(2,4), of qt ?ss] ss(1) v'(1,3) cur
      rowForPath_row [OF v'(2), of qt ?p] FullPathForRow_row [OF model]
    by (auto split: option.splits)
qed

section \<open>Examples\<close>

lemma sample_paths: "Qt_paths sample_qt"
proof -
  have slash: "(of_nat (of_char (CHR ''/'')) :: u16) = 47" by code_simp
  have last: "(of_nat (of_char c) :: u16) = 47 \<longleftrightarrow> c = CHR ''/''" for c
    using sample_char [of c] sample_char [of "CHR ''/''"] slash by metis
  show ?thesis
    by (auto simp: Qt_paths_def sample_survives) (auto simp: sample_qt_def last last_map slash)
qed

definition sample_row :: "string \<Rightarrow> string \<Rightarrow> DisplayEntry" where
  "sample_row dir name = \<lparr>de_name = name, de_parentDir = dir, de_sizeText = [], de_dateText = [],
     de_sizeBytes = 0, de_lastModifiedNs = 0, de_sourceIndex = 0\<rparr>"

definition sample_view :: ResultView where
  "sample_view = (SetResultModel \<lparr>rm_entries = [sample_row ''/d'' ''cat'', sample_row ''/'' ''dog''], rm_pendingPaths = {}\<rparr>
     new_view)\<lparr>rv_selected := [1], rv_current := 1\<rparr>"

lemma delete_key_hits_selection_witness:
  "\<exists>paths. View_keyPressEvent sample_qt (\<lambda>p. []) Key_Delete False False sample_view =
      ([TrashRequested paths], False) \<and>
    map (\<lambda>row. Some (qt_to sample_qt (paths ! row))) [0..<length paths] = [Some ''/dog'']"
proof -
  let ?m = "\<lparr>rm_entries = [sample_row ''/d'' ''cat'', sample_row ''/'' ''dog''], rm_pendingPaths = {}\<rparr>"
  have v: "rv_model sample_view = Some ?m" "rv_selected sample_view = [1]"
    by (simp_all add: sample_view_def SetResultModel_def)
  have "FullPath 1 ?m = Some ''/dog''"
    by (simp add: FullPath_def EntryAt_def entry_path_def sample_row_def)
  with delete_key_hits_selection [OF sample_paths v(1), of "\<lambda>p. []" False False] v show ?thesis
    by (simp add: sample_survives sample_row_def shown_dir_def)
qed

lemma refresh_keeps_selection_witness:
  "set (SelectedFullPaths sample_qt (show_results sample_qt True
      [sample_row ''/'' ''dog'', sample_row ''/'' ''cow''] sample_view)) =
    {row_path sample_qt (sample_row ''/'' ''dog'')}"
proof -
  let ?m = "\<lparr>rm_entries = [sample_row ''/d'' ''cat'', sample_row ''/'' ''dog''], rm_pendingPaths = {}\<rparr>"
  have v: "rv_model sample_view = Some ?m" "rv_selected sample_view = [1]" "rv_current sample_view = 1"
    by (simp_all add: sample_view_def SetResultModel_def)
  have rows: "SelectedFullPaths sample_qt sample_view = [row_path sample_qt (sample_row ''/'' ''dog'')]"
    using SelectedFullPaths_rows [OF v(1)] v(2) by simp
  show ?thesis
    using refresh_keeps_selection [OF v(1), of sample_qt "[sample_row ''/'' ''dog'', sample_row ''/'' ''cow'']"] v rows
    by (simp add: rowCount_def)
qed

end
