(* ===== verification/Search_Ui.thy ===== *)
theory Search_Ui
  imports Result_Table
begin

text \<open>
  Search as you type (\<open>ui/SearchLineEdit.cpp\<close>, \<open>ui/SearchCoordinator.cpp\<close> and the wiring of both
  with the table in \<open>ui/MainWindow.cpp\<close>): the search box with its debounce timer, the coordinator
  with its cancel tokens and background workers, the queue of the GUI thread, and the table. The
  workers, the timers and the user take their steps in any order; the index each search sees is
  chosen freely. The theory shows that only the newest search reaches the table and that, once
  everything has come to rest, the table shows the complete answer to what is in the box.
\<close>

section \<open>The search box\<close>

definition kMinQueryLength :: nat where "kMinQueryLength = 2"

datatype StatusMessage = EnterSearchTerm | TypeAtLeastTwo

datatype LineSignal =
    SearchRequested QString
  | StatusMessageChanged StatusMessage
  | SearchCleared
  | NavigateResultsRequested

record LineEdit =
  le_text :: QString
  le_pendingQuery :: QString
  le_timer :: bool
  le_hadSearchableQuery :: bool

definition OnTextChanged :: "QString \<Rightarrow> LineEdit \<Rightarrow> LineEdit \<times> LineSignal list" where
  "OnTextChanged text' e =
     (let e = e\<lparr>le_text := text', le_timer := False\<rparr>
      in if length text' < kMinQueryLength then
           let status = StatusMessageChanged (if text' = [] then EnterSearchTerm else TypeAtLeastTwo)
           in if le_hadSearchableQuery e then (e\<lparr>le_hadSearchableQuery := False\<rparr>, [status, SearchCleared])
              else (e, [status])
         else (e\<lparr>le_hadSearchableQuery := True, le_pendingQuery := text', le_timer := True\<rparr>, []))"

definition OnDebounceTimeout :: "LineEdit \<Rightarrow> LineEdit \<times> LineSignal list" where
  "OnDebounceTimeout e = (e\<lparr>le_timer := False\<rparr>, [SearchRequested (le_pendingQuery e)])"

datatype Key = Key_Up | Key_Down | OtherKey

text \<open>The result says whether the key goes on to the line edit.\<close>

definition keyPressEvent :: "Key \<Rightarrow> LineSignal list \<times> bool" where
  "keyPressEvent key =
     (if key = Key_Down \<or> key = Key_Up then ([NavigateResultsRequested], False) else ([], True))"

section \<open>The coordinator\<close>

datatype WorkerPhase = WkSearching | WkSearched "DisplayEntry list" bool | WkDone

record SearchWorker =
  wk_token :: nat
  wk_query :: QString
  wk_options :: SearchOptions
  wk_phase :: WorkerPhase

text \<open>
  Tokens are numbers, and \<open>co_cancelled\<close> those that are set. \<open>co_posted\<close> is the queue of the GUI
  thread; \<open>co_current\<close> records what the newest search asked for, if it was not too short.
\<close>

record Coordinator =
  co_pendingQuery :: QString
  co_timer :: bool
  co_options :: SearchOptions
  co_workers :: "SearchWorker list"
  co_cancelToken :: "nat option"
  co_cancelled :: "nat set"
  co_nextToken :: nat
  co_searching :: bool
  co_posted :: "(nat \<times> DisplayEntry list \<times> bool) list"
  co_current :: "(QString \<times> SearchOptions) option"

datatype CoSignal = ResultsReady "DisplayEntry list" bool | QueryTooShort

definition SetQuery :: "QString \<Rightarrow> Coordinator \<Rightarrow> Coordinator" where
  "SetQuery query c = c\<lparr>co_pendingQuery := query, co_timer := True\<rparr>"

definition SetOptions :: "SearchOptions \<Rightarrow> Coordinator \<Rightarrow> Coordinator" where
  "SetOptions options c = c\<lparr>co_options := options\<rparr>"

definition IsSearching :: "Coordinator \<Rightarrow> bool" where
  "IsSearching c = co_searching c"

definition CancelRunningSearch :: "Coordinator \<Rightarrow> Coordinator" where
  "CancelRunningSearch c =
     c\<lparr>co_cancelled := (case co_cancelToken c of None \<Rightarrow> co_cancelled c | Some t \<Rightarrow> insert t (co_cancelled c)),
       co_searching := False\<rparr>"

definition ReapFinishedWorkers :: "Coordinator \<Rightarrow> Coordinator" where
  "ReapFinishedWorkers c = c\<lparr>co_workers := filter (\<lambda>w. wk_phase w \<noteq> WkDone) (co_workers c)\<rparr>"

definition StartSearch :: "Coordinator \<Rightarrow> Coordinator \<times> CoSignal list" where
  "StartSearch c =
     (let c = ReapFinishedWorkers (CancelRunningSearch c)
      in if length (co_pendingQuery c) < 2 then
           (c\<lparr>co_current := None\<rparr>, if co_pendingQuery c \<noteq> [] then [QueryTooShort] else [])
         else
           (c\<lparr>co_cancelToken := Some (co_nextToken c), co_nextToken := co_nextToken c + 1,
              co_searching := True, co_current := Some (co_pendingQuery c, co_options c),
              co_workers := co_workers c @ [\<lparr>wk_token = co_nextToken c, wk_query = co_pendingQuery c,
                wk_options = co_options c, wk_phase = WkSearching\<rparr>]\<rparr>, []))"

text \<open>The engine's libraries, the vector tier, the date format and \<open>toStdString\<close>.\<close>

record 're UiEnv =
  ue_lib :: "'re SearchLib"
  ue_tier :: Tier
  ue_strftime :: "int \<Rightarrow> string"
  ue_toStdString :: "QString \<Rightarrow> string"

text \<open>The worker under the store's lock: \<open>cancel\<close> is what it reads of its token, entry by entry,
  and \<open>cancelled\<close> what it reads at the end.\<close>

definition worker_search ::
  "'re UiEnv \<Rightarrow> (nat \<Rightarrow> bool) \<Rightarrow> bool \<Rightarrow> IndexPool \<Rightarrow> SearchWorker \<Rightarrow> WorkerPhase option" where
  "worker_search env cancel cancelled pool w = do {
     results \<leftarrow> Search (ue_lib env) (ue_tier env) cancel pool (ue_toStdString env (wk_query w)) (wk_options w);
     entries \<leftarrow> (if \<not> cancelled then BuildDisplayEntries (ue_strftime env) pool results else Some []);
     Some (WkSearched entries (length results \<ge> kMaxSearchResults)) }"

definition worker_post :: "nat \<Rightarrow> SearchWorker \<Rightarrow> Coordinator \<Rightarrow> Coordinator" where
  "worker_post i w c =
     (let c' = c\<lparr>co_workers := (co_workers c)[i := w\<lparr>wk_phase := WkDone\<rparr>]\<rparr>
      in case wk_phase w of
           WkSearched entries capped \<Rightarrow>
             if wk_token w \<notin> co_cancelled c
             then c'\<lparr>co_posted := co_posted c @ [(wk_token w, entries, capped)]\<rparr>
             else c'
         | _ \<Rightarrow> c)"

text \<open>The queued call on the GUI thread.\<close>

definition deliver_results :: "Coordinator \<Rightarrow> Coordinator \<times> CoSignal list" where
  "deliver_results c =
     (case co_posted c of
        [] \<Rightarrow> (c, [])
      | (t, entries, capped) # rest \<Rightarrow>
          if t \<notin> co_cancelled c
          then (c\<lparr>co_posted := rest, co_searching := False\<rparr>, [ResultsReady entries capped])
          else (c\<lparr>co_posted := rest\<rparr>, []))"

section \<open>The window's wiring\<close>

text \<open>\<open>su_header\<close> is the sort indicator of the table's header.\<close>

record SearchUi =
  su_line :: LineEdit
  su_co :: Coordinator
  su_model :: ResultModel
  su_header :: "(int \<times> bool) option"
  su_message :: string

text \<open>The text of a status message as the box defines it.\<close>

definition message_text :: "StatusMessage \<Rightarrow> string" where
  "message_text m =
     (case m of
        EnterSearchTerm \<Rightarrow> ''Enter a search term to begin.''
      | TypeAtLeastTwo \<Rightarrow> ''Type at least 2 characters to search'' @ ellipsis)"

definition on_line_signal :: "LineSignal \<Rightarrow> SearchUi \<Rightarrow> SearchUi" where
  "on_line_signal sig u =
     (case sig of
        SearchRequested query \<Rightarrow> u\<lparr>su_co := SetQuery query (su_co u)\<rparr>
      | StatusMessageChanged m \<Rightarrow> u\<lparr>su_message := message_text m\<rparr>
      | SearchCleared \<Rightarrow>
          u\<lparr>su_co := SetQuery [] (su_co u), su_model := SetEntries [] (su_model u)\<rparr>
      | NavigateResultsRequested \<Rightarrow> u)"

definition on_results :: "CoSignal \<Rightarrow> SearchUi \<Rightarrow> SearchUi" where
  "on_results sig u =
     (case sig of
        QueryTooShort \<Rightarrow> u
      | ResultsReady entries capped \<Rightarrow>
          if length (le_text (su_line u)) < 2 then u
          else
            let m = SetEntries entries (su_model u);
                m = (case su_header u of
                       None \<Rightarrow> m
                     | Some (section', ascending) \<Rightarrow> if section' \<ge> 0 then model_sort section' ascending m else m)
            in u\<lparr>su_model := m, su_message := ResultCountText (of_nat (length entries)) capped\<rparr>)"

definition RefreshVisibleResults :: "SearchUi \<Rightarrow> SearchUi" where
  "RefreshVisibleResults u =
     (if length (le_text (su_line u)) \<ge> 2
      then u\<lparr>su_co := SetQuery (le_text (su_line u)) (su_co u)\<rparr> else u)"

text \<open>A toggle of the search menu.\<close>

definition toggle_options :: "SearchOptions \<Rightarrow> SearchUi \<Rightarrow> SearchUi" where
  "toggle_options options u =
     (let c = SetOptions options (su_co u)
      in u\<lparr>su_co := (if length (le_text (su_line u)) \<ge> 2 then SetQuery (le_text (su_line u)) c else c)\<rparr>)"

text \<open>The label of the options: the toggles are what the options were last set to.\<close>

definition UpdateSearchOptionsLabel :: "SearchUi \<Rightarrow> string" where
  "UpdateSearchOptionsLabel u = SearchOptionsText (co_options (su_co u))"

definition type_text :: "QString \<Rightarrow> SearchUi \<Rightarrow> SearchUi" where
  "type_text text' u =
     (case OnTextChanged text' (su_line u) of (e, sigs) \<Rightarrow> fold on_line_signal sigs (u\<lparr>su_line := e\<rparr>))"

definition debounce_fires :: "SearchUi \<Rightarrow> SearchUi" where
  "debounce_fires u =
     (case OnDebounceTimeout (su_line u) of (e, sigs) \<Rightarrow> fold on_line_signal sigs (u\<lparr>su_line := e\<rparr>))"

definition coordinator_fires :: "SearchUi \<Rightarrow> SearchUi" where
  "coordinator_fires u =
     (case StartSearch ((su_co u)\<lparr>co_timer := False\<rparr>) of (c, sigs) \<Rightarrow> fold on_results sigs (u\<lparr>su_co := c\<rparr>))"

definition gui_delivers :: "SearchUi \<Rightarrow> SearchUi" where
  "gui_delivers u =
     (case deliver_results (su_co u) of (c, sigs) \<Rightarrow> fold on_results sigs (u\<lparr>su_co := c\<rparr>))"

text \<open>One step, while the index is \<open>pool\<close>.\<close>

inductive ui_step :: "'re UiEnv \<Rightarrow> IndexPool \<Rightarrow> SearchUi \<Rightarrow> SearchUi \<Rightarrow> bool" for env pool where
  typed: "ui_step env pool u (type_text text' u)"
| debounced: "le_timer (su_line u) \<Longrightarrow> ui_step env pool u (debounce_fires u)"
| toggled: "ui_step env pool u (toggle_options options u)"
| refreshed: "ui_step env pool u (RefreshVisibleResults u)"
| fired: "co_timer (su_co u) \<Longrightarrow> ui_step env pool u (coordinator_fires u)"
| searched: "i < length (co_workers (su_co u)) \<Longrightarrow> w = co_workers (su_co u) ! i \<Longrightarrow>
    wk_phase w = WkSearching \<Longrightarrow>
    (wk_token w \<notin> co_cancelled (su_co u) \<Longrightarrow> cancel = (\<lambda>i. False)) \<Longrightarrow>
    worker_search env cancel (wk_token w \<in> co_cancelled (su_co u)) pool w = Some ph \<Longrightarrow>
    ui_step env pool u (u\<lparr>su_co := (su_co u)\<lparr>co_workers := (co_workers (su_co u))[i := w\<lparr>wk_phase := ph\<rparr>]\<rparr>\<rparr>)"
| posted: "i < length (co_workers (su_co u)) \<Longrightarrow> w = co_workers (su_co u) ! i \<Longrightarrow>
    ui_step env pool u (u\<lparr>su_co := worker_post i w (su_co u)\<rparr>)"
| delivered: "ui_step env pool u (gui_delivers u)"
| sorted_by: "ui_step env pool u (u\<lparr>su_header := Some (column, ascending),
    su_model := model_sort column ascending (su_model u)\<rparr>)"

definition ui_start :: "SearchOptions \<Rightarrow> SearchUi" where
  "ui_start options =
     \<lparr>su_line = \<lparr>le_text = [], le_pendingQuery = [], le_timer = False, le_hadSearchableQuery = False\<rparr>,
      su_co = \<lparr>co_pendingQuery = [], co_timer = False, co_options = options, co_workers = [],
        co_cancelToken = None, co_cancelled = {}, co_nextToken = 0, co_searching = False,
        co_posted = [], co_current = None\<rparr>,
      su_model = \<lparr>rm_entries = [], rm_pendingPaths = {}\<rparr>, su_header = None, su_message = ''Ready.''\<rparr>"

inductive ui_reachable :: "'re UiEnv \<Rightarrow> SearchUi \<Rightarrow> bool" for env where
  start: "ui_reachable env (ui_start options)"
| step: "ui_reachable env u \<Longrightarrow> ui_step env pool u u' \<Longrightarrow> ui_reachable env u'"

section \<open>The coordinator's invariant\<close>

text \<open>The rows of an uncancelled search of some index that satisfies \<open>Q\<close>.\<close>

definition complete_rows :: "'re UiEnv \<Rightarrow> (IndexPool \<Rightarrow> bool) \<Rightarrow> QString \<Rightarrow> SearchOptions \<Rightarrow> DisplayEntry list \<Rightarrow> bool" where
  "complete_rows env Q q opts rows \<longleftrightarrow>
     (\<exists>pool results. Q pool \<and> Search (ue_lib env) (ue_tier env) (\<lambda>i. False) pool (ue_toStdString env q) opts = Some results \<and>
        BuildDisplayEntries (ue_strftime env) pool results = Some rows)"

definition worker_ok :: "'re UiEnv \<Rightarrow> (IndexPool \<Rightarrow> bool) \<Rightarrow> Coordinator \<Rightarrow> SearchWorker \<Rightarrow> bool" where
  "worker_ok env Q c w \<longleftrightarrow> wk_token w < co_nextToken c \<and>
     (wk_token w \<notin> co_cancelled c \<longrightarrow>
        co_current c = Some (wk_query w, wk_options w) \<and>
        (\<forall>rows capped. wk_phase w = WkSearched rows capped \<longrightarrow>
           complete_rows env Q (wk_query w) (wk_options w) rows))"

definition posted_ok :: "'re UiEnv \<Rightarrow> (IndexPool \<Rightarrow> bool) \<Rightarrow> Coordinator \<Rightarrow> nat \<times> DisplayEntry list \<times> bool \<Rightarrow> bool" where
  "posted_ok env Q c m \<longleftrightarrow> fst m < co_nextToken c \<and>
     (fst m \<notin> co_cancelled c \<longrightarrow>
        (\<exists>q opts. co_current c = Some (q, opts) \<and> complete_rows env Q q opts (fst (snd m))))"

definition co_inv :: "'re UiEnv \<Rightarrow> (IndexPool \<Rightarrow> bool) \<Rightarrow> Coordinator \<Rightarrow> bool" where
  "co_inv env Q c \<longleftrightarrow>
     (\<forall>t < co_nextToken c. t \<in> co_cancelled c \<or> co_cancelToken c = Some t) \<and>
     (\<forall>t. co_cancelToken c = Some t \<longrightarrow> t < co_nextToken c) \<and>
     co_cancelled c \<subseteq> {..<co_nextToken c} \<and>
     (\<forall>w \<in> set (co_workers c). worker_ok env Q c w) \<and>
     (\<forall>m \<in> set (co_posted c). posted_ok env Q c m)"

lemma co_inv_SetQuery [simp]: "co_inv env Q (SetQuery q c) = co_inv env Q c"
  by (simp add: co_inv_def SetQuery_def worker_ok_def posted_ok_def)

lemma co_inv_SetOptions [simp]: "co_inv env Q (SetOptions opts c) = co_inv env Q c"
  by (simp add: co_inv_def SetOptions_def worker_ok_def posted_ok_def)

lemma co_inv_timer [simp]: "co_inv env Q (c\<lparr>co_timer := b\<rparr>) = co_inv env Q c"
  by (simp add: co_inv_def worker_ok_def posted_ok_def)

lemma all_cancelled:
  "co_inv env Q c \<Longrightarrow> t < co_nextToken c \<Longrightarrow> t \<in> co_cancelled (CancelRunningSearch c)"
  by (auto simp: co_inv_def CancelRunningSearch_def split: option.splits)

text \<open>A new search needs nothing of the older ones, which are all cancelled.\<close>

lemma co_inv_StartSearch:
  assumes "co_inv env Q c"
  shows "co_inv env Q' (fst (StartSearch c))"
proof -
  let ?c = "CancelRunningSearch c"
  have old: "\<forall>w \<in> set (co_workers c). wk_token w < co_nextToken c \<and> wk_token w \<in> co_cancelled ?c"
    "\<forall>m \<in> set (co_posted c). fst m < co_nextToken c \<and> fst m \<in> co_cancelled ?c"
    using assms all_cancelled [OF assms] by (auto simp: co_inv_def worker_ok_def posted_ok_def)
  have sub: "co_cancelled ?c \<subseteq> {..<co_nextToken c}"
    using assms by (auto simp: co_inv_def CancelRunningSearch_def split: option.splits)
  have frame: "co_workers ?c = co_workers c" "co_posted ?c = co_posted c" "co_nextToken ?c = co_nextToken c"
    "co_cancelToken ?c = co_cancelToken c" "co_pendingQuery ?c = co_pendingQuery c"
    by (simp_all add: CancelRunningSearch_def)
  show ?thesis
    using old sub assms all_cancelled [OF assms]
    by (auto simp: StartSearch_def Let_def ReapFinishedWorkers_def frame co_inv_def worker_ok_def
        posted_ok_def less_Suc_eq)
qed

lemma co_inv_update:
  assumes "co_inv env Q c" "worker_ok env Q c w"
  shows "co_inv env Q (c\<lparr>co_workers := (co_workers c)[i := w]\<rparr>)"
  using assms set_update_subset_insert [of "co_workers c" i w]
  by (auto simp: co_inv_def worker_ok_def posted_ok_def)

lemma worker_search_ok:
  assumes "worker_ok env Q c w" "wk_token w \<notin> co_cancelled c \<Longrightarrow> cancel = (\<lambda>i. False)"
    and "worker_search env cancel (wk_token w \<in> co_cancelled c) pool w = Some ph" "Q pool"
  shows "worker_ok env Q c (w\<lparr>wk_phase := ph\<rparr>)" "ph \<noteq> WkDone"
  using assms
  by (auto simp: worker_ok_def worker_search_def complete_rows_def elim!: bind_SomeE)

lemma co_inv_post:
  assumes "co_inv env Q c" "w \<in> set (co_workers c)"
  shows "co_inv env Q (worker_post i w c)"
proof (cases "wk_phase w")
  case (WkSearched rows capped)
  let ?c = "c\<lparr>co_workers := (co_workers c)[i := w\<lparr>wk_phase := WkDone\<rparr>]\<rparr>"
  have w: "worker_ok env Q c w" using assms by (simp add: co_inv_def)
  then have "co_inv env Q ?c"
    by (intro co_inv_update assms(1)) (simp add: worker_ok_def)
  then show ?thesis
    using w WkSearched
    by (auto simp: worker_post_def Let_def co_inv_def worker_ok_def posted_ok_def)
qed (simp_all add: worker_post_def assms(1) Let_def)

lemma co_inv_deliver: "co_inv env Q c \<Longrightarrow> co_inv env Q (fst (deliver_results c))"
  by (auto simp: deliver_results_def co_inv_def worker_ok_def posted_ok_def split: list.splits)

section \<open>The invariant of the whole\<close>

definition in_flight :: "Coordinator \<Rightarrow> bool" where
  "in_flight c \<longleftrightarrow>
     (\<exists>w \<in> set (co_workers c). wk_token w \<notin> co_cancelled c \<and> wk_phase w \<noteq> WkDone) \<or>
     (\<exists>m \<in> set (co_posted c). fst m \<notin> co_cancelled c)"

definition table_shows :: "'re UiEnv \<Rightarrow> (IndexPool \<Rightarrow> bool) \<Rightarrow> QString \<Rightarrow> SearchOptions \<Rightarrow> ResultModel \<Rightarrow> bool" where
  "table_shows env Q q opts m \<longleftrightarrow> (\<exists>rows. complete_rows env Q q opts rows \<and> mset (rm_entries m) = mset rows)"

definition line_inv :: "LineEdit \<Rightarrow> bool" where
  "line_inv e \<longleftrightarrow>
     (le_timer e \<longrightarrow> length (le_text e) \<ge> 2 \<and> le_pendingQuery e = le_text e) \<and>
     le_hadSearchableQuery e = (length (le_text e) \<ge> 2)"

definition asked :: "Coordinator \<Rightarrow> (QString \<times> SearchOptions) option" where
  "asked c =
     (if length (co_pendingQuery c) \<ge> 2 then Some (co_pendingQuery c, co_options c) else None)"

definition ui_inv :: "'re UiEnv \<Rightarrow> (IndexPool \<Rightarrow> bool) \<Rightarrow> SearchUi \<Rightarrow> bool" where
  "ui_inv env Q u \<longleftrightarrow>
     co_inv env Q (su_co u) \<and> line_inv (su_line u) \<and>
     (if length (le_text (su_line u)) < 2
      then co_pendingQuery (su_co u) = [] \<and> rm_entries (su_model u) = []
      else le_timer (su_line u) \<or> co_pendingQuery (su_co u) = le_text (su_line u)) \<and>
     (co_timer (su_co u) \<or> co_current (su_co u) = asked (su_co u)) \<and>
     (length (le_text (su_line u)) \<ge> 2 \<and> \<not> le_timer (su_line u) \<and> \<not> co_timer (su_co u) \<longrightarrow>
        (\<forall>q opts. co_current (su_co u) = Some (q, opts) \<longrightarrow>
           in_flight (su_co u) \<or> table_shows env Q q opts (su_model u)))"

lemma ui_inv_start: "ui_inv env Q (ui_start options)"
  by (simp add: ui_inv_def ui_start_def co_inv_def line_inv_def asked_def)

lemma ui_inv_typed:
  assumes "ui_inv env Q u"
  shows "ui_inv env Q (type_text text' u)"
  using assms
  by (cases "length text' < 2")
    (auto simp: type_text_def OnTextChanged_def kMinQueryLength_def Let_def on_line_signal_def
      ui_inv_def line_inv_def asked_def SetQuery_def SetEntries_def co_inv_def worker_ok_def
      posted_ok_def split: if_splits)

lemma ui_inv_debounced:
  assumes "ui_inv env Q u" "le_timer (su_line u)"
  shows "ui_inv env Q (debounce_fires u)"
  using assms
  by (auto simp: debounce_fires_def OnDebounceTimeout_def on_line_signal_def ui_inv_def line_inv_def
      SetQuery_def co_inv_def worker_ok_def posted_ok_def split: if_splits)

lemma ui_inv_toggled: "ui_inv env Q u \<Longrightarrow> ui_inv env Q (toggle_options options u)"
  by (auto simp: toggle_options_def Let_def ui_inv_def asked_def SetQuery_def SetOptions_def
      co_inv_def worker_ok_def posted_ok_def split: if_splits)

lemma ui_inv_refreshed: "ui_inv env Q u \<Longrightarrow> ui_inv env Q (RefreshVisibleResults u)"
  by (auto simp: RefreshVisibleResults_def ui_inv_def SetQuery_def co_inv_def worker_ok_def
      posted_ok_def split: if_splits)

lemma StartSearch_frame:
  "co_pendingQuery (fst (StartSearch c)) = co_pendingQuery c"
  "co_options (fst (StartSearch c)) = co_options c" "co_timer (fst (StartSearch c)) = co_timer c"
  "co_current (fst (StartSearch c)) = asked c"
  by (simp_all add: StartSearch_def ReapFinishedWorkers_def CancelRunningSearch_def asked_def Let_def)

lemma StartSearch_in_flight:
  assumes "co_inv env Q c" "length (co_pendingQuery c) \<ge> 2"
  shows "in_flight (fst (StartSearch c))"
proof -
  have "co_nextToken c \<notin> co_cancelled (CancelRunningSearch c)"
    using assms(1) by (auto simp: co_inv_def CancelRunningSearch_def split: option.splits)
  then show ?thesis
    using assms(2)
    by (simp add: in_flight_def StartSearch_def ReapFinishedWorkers_def Let_def CancelRunningSearch_def)
qed

lemma on_results_too_short: "fold on_results (snd (StartSearch c)) u = u"
  by (simp add: StartSearch_def Let_def on_results_def)

lemma ui_inv_fired:
  assumes "ui_inv env Q u"
  shows "ui_inv env Q' (coordinator_fires u)"
proof -
  let ?c = "(su_co u)\<lparr>co_timer := False\<rparr>"
  have "coordinator_fires u = u\<lparr>su_co := fst (StartSearch ?c)\<rparr>"
    by (simp add: coordinator_fires_def on_results_too_short split: prod.splits)
      (metis on_results_too_short snd_conv)
  moreover have inv: "co_inv env Q ?c" using assms by (simp add: ui_inv_def)
  moreover have "asked (fst (StartSearch ?c)) = asked ?c"
    by (simp add: asked_def StartSearch_frame)
  ultimately show ?thesis
    using assms co_inv_StartSearch [OF inv, of Q'] StartSearch_in_flight [OF inv]
    by (auto simp: ui_inv_def StartSearch_frame asked_def split: if_splits)
qed

lemma ui_inv_coordinator:
  assumes "ui_inv env Q u" "co_inv env Q c" "in_flight (su_co u) \<Longrightarrow> in_flight c"
    and "co_pendingQuery c = co_pendingQuery (su_co u)" "co_timer c = co_timer (su_co u)"
    and "co_options c = co_options (su_co u)" "co_current c = co_current (su_co u)"
  shows "ui_inv env Q (u\<lparr>su_co := c\<rparr>)"
  using assms by (auto simp: ui_inv_def asked_def)

lemma ui_inv_searched:
  assumes "ui_inv env Q u" "i < length (co_workers (su_co u))" "w = co_workers (su_co u) ! i"
    and "wk_token w \<notin> co_cancelled (su_co u) \<Longrightarrow> cancel = (\<lambda>i. False)"
    and "worker_search env cancel (wk_token w \<in> co_cancelled (su_co u)) pool w = Some ph" "Q pool"
  shows "ui_inv env Q (u\<lparr>su_co := (su_co u)\<lparr>co_workers := (co_workers (su_co u))[i := w\<lparr>wk_phase := ph\<rparr>]\<rparr>\<rparr>)"
proof -
  let ?c = "su_co u"
  let ?ws = "(co_workers ?c)[i := w\<lparr>wk_phase := ph\<rparr>]"
  have inv: "co_inv env Q ?c" using assms(1) by (simp add: ui_inv_def)
  have "worker_ok env Q ?c w" using inv assms(2,3) by (simp add: co_inv_def)
  note ok = worker_search_ok [of env Q, OF this assms(4-6)]
  have "in_flight (?c\<lparr>co_workers := ?ws\<rparr>)" if flight: "in_flight ?c"
  proof -
    have "(\<exists>v \<in> set ?ws. wk_token v \<notin> co_cancelled ?c \<and> wk_phase v \<noteq> WkDone)"
      if v: "v \<in> set (co_workers ?c)" "wk_token v \<notin> co_cancelled ?c" "wk_phase v \<noteq> WkDone" for v
    proof -
      obtain j where j: "j < length (co_workers ?c)" "co_workers ?c ! j = v"
        using v(1) by (auto simp: in_set_conv_nth)
      have "?ws ! j \<in> set ?ws" using j(1) by (intro nth_mem) simp
      moreover have "wk_token (?ws ! j) \<notin> co_cancelled ?c" "wk_phase (?ws ! j) \<noteq> WkDone"
        using j v(2,3) assms(2,3) ok(2) by (cases "i = j"; simp)+
      ultimately show ?thesis by blast
    qed
    then show ?thesis using flight by (auto simp: in_flight_def)
  qed
  then show ?thesis
    by (intro ui_inv_coordinator [OF assms(1) co_inv_update [OF inv ok(1)]]) simp_all
qed

lemma ui_inv_posted:
  assumes "ui_inv env Q u" "i < length (co_workers (su_co u))" "w = co_workers (su_co u) ! i"
  shows "ui_inv env Q (u\<lparr>su_co := worker_post i w (su_co u)\<rparr>)"
proof -
  let ?c = "su_co u"
  have inv: "co_inv env Q ?c" using assms(1) by (simp add: ui_inv_def)
  have "w \<in> set (co_workers ?c)" using assms(2,3) by simp
  note ok = co_inv_post [OF inv this, of i]
  have "in_flight (worker_post i w ?c)" if flight: "in_flight ?c"
  proof (cases "wk_phase w")
    case (WkSearched rows capped)
    let ?ws = "(co_workers ?c)[i := w\<lparr>wk_phase := WkDone\<rparr>]"
    from flight show ?thesis unfolding in_flight_def
    proof
      assume "\<exists>v \<in> set (co_workers ?c). wk_token v \<notin> co_cancelled ?c \<and> wk_phase v \<noteq> WkDone"
      then obtain j where j: "j < length (co_workers ?c)" "wk_token (co_workers ?c ! j) \<notin> co_cancelled ?c"
        "wk_phase (co_workers ?c ! j) \<noteq> WkDone"
        by (auto simp: in_set_conv_nth)
      show "(\<exists>v \<in> set (co_workers (worker_post i w ?c)). wk_token v \<notin> co_cancelled (worker_post i w ?c) \<and>
          wk_phase v \<noteq> WkDone) \<or>
        (\<exists>m \<in> set (co_posted (worker_post i w ?c)). fst m \<notin> co_cancelled (worker_post i w ?c))"
      proof (cases "j = i")
        case True
        then show ?thesis using j assms(3) WkSearched by (simp add: worker_post_def Let_def)
      next
        case False
        have "?ws ! j \<in> set ?ws" using j(1) by (intro nth_mem) simp
        with False have "co_workers ?c ! j \<in> set ?ws" by simp
        then show ?thesis using j WkSearched by (auto simp: worker_post_def Let_def)
      qed
    next
      assume "\<exists>m \<in> set (co_posted ?c). fst m \<notin> co_cancelled ?c"
      then show "(\<exists>v \<in> set (co_workers (worker_post i w ?c)). wk_token v \<notin> co_cancelled (worker_post i w ?c) \<and>
          wk_phase v \<noteq> WkDone) \<or>
        (\<exists>m \<in> set (co_posted (worker_post i w ?c)). fst m \<notin> co_cancelled (worker_post i w ?c))"
        using WkSearched by (auto simp: worker_post_def Let_def)
    qed
  qed (use flight in \<open>simp_all add: worker_post_def Let_def\<close>)
  then show ?thesis
    by (intro ui_inv_coordinator [OF assms(1) ok])
      (simp_all add: worker_post_def Let_def split: WorkerPhase.splits)
qed

lemma model_sort_mset [simp]: "mset (rm_entries (model_sort column ascending m)) = mset (rm_entries m)"
  by (simp add: model_sort_def split: option.splits)

lemma model_sort_empty [simp]: "rm_entries m = [] \<Longrightarrow> rm_entries (model_sort column ascending m) = []"
  by (simp add: model_sort_def split: option.splits)

lemma on_results_ready:
  "su_co (on_results (ResultsReady rows capped) u) = su_co u"
  "su_line (on_results (ResultsReady rows capped) u) = su_line u"
  "length (le_text (su_line u)) < 2 \<Longrightarrow> on_results (ResultsReady rows capped) u = u"
  "length (le_text (su_line u)) \<ge> 2 \<Longrightarrow>
     mset (rm_entries (su_model (on_results (ResultsReady rows capped) u))) = mset rows"
  by (auto simp: on_results_def Let_def SetEntries_def split: option.splits)

lemma ui_inv_delivered:
  assumes "ui_inv env Q u"
  shows "ui_inv env Q (gui_delivers u)"
proof (cases "co_posted (su_co u)")
  case Nil
  then show ?thesis using assms by (simp add: gui_delivers_def deliver_results_def)
next
  case (Cons m rest)
  obtain t rows capped where m: "m = (t, rows, capped)" by (cases m)
  have inv: "co_inv env Q (fst (deliver_results (su_co u)))"
    using assms by (simp add: ui_inv_def co_inv_deliver)
  show ?thesis
  proof (cases "t \<in> co_cancelled (su_co u)")
    case True
    then have g: "gui_delivers u = u\<lparr>su_co := fst (deliver_results (su_co u))\<rparr>"
      by (simp add: gui_delivers_def deliver_results_def Cons m)
    show ?thesis unfolding g
      by (rule ui_inv_coordinator [OF assms inv])
        (use True in \<open>auto simp: deliver_results_def Cons m in_flight_def\<close>)
  next
    case False
    let ?v = "u\<lparr>su_co := (su_co u)\<lparr>co_posted := rest, co_searching := False\<rparr>\<rparr>"
    have g: "gui_delivers u = on_results (ResultsReady rows capped) ?v"
      using False by (simp add: gui_delivers_def deliver_results_def Cons m)
    have "posted_ok env Q (su_co u) m"
      using assms Cons by (simp add: ui_inv_def co_inv_def)
    then obtain q opts where cur: "co_current (su_co u) = Some (q, opts)" "complete_rows env Q q opts rows"
      using False m by (auto simp: posted_ok_def)
    have inv': "co_inv env Q ((su_co u)\<lparr>co_posted := rest, co_searching := False\<rparr>)"
      using inv False by (simp add: deliver_results_def Cons m)
    show ?thesis
    proof (cases "length (le_text (su_line u)) < 2")
      case True
      then show ?thesis
        unfolding g using assms inv' by (auto simp: on_results_ready ui_inv_def asked_def)
    next
      case False
      then show ?thesis
        unfolding g using assms inv' cur on_results_ready(4) [of ?v rows capped]
        by (auto simp: on_results_ready(1,2) ui_inv_def asked_def table_shows_def)
    qed
  qed
qed

lemma ui_inv_sorted:
  "ui_inv env Q u \<Longrightarrow> ui_inv env Q (u\<lparr>su_header := Some (column, ascending),
     su_model := model_sort column ascending (su_model u)\<rparr>)"
  by (auto simp: ui_inv_def table_shows_def)

lemma ui_inv_step:
  assumes "ui_step env pool u u'" "ui_inv env Q u" "Q pool"
  shows "ui_inv env Q u'"
  using assms(1)
proof (cases rule: ui_step.cases)
  case searched
  then show ?thesis using ui_inv_searched [OF assms(2)] assms(3) by metis
qed (simp_all add: assms(2) ui_inv_typed ui_inv_debounced ui_inv_toggled ui_inv_refreshed
    ui_inv_fired [OF assms(2)] ui_inv_posted ui_inv_delivered ui_inv_sorted)

lemma ui_inv_reachable: "ui_reachable env u \<Longrightarrow> ui_inv env (\<lambda>p. True) u"
  by (induction rule: ui_reachable.induct) (auto intro: ui_inv_start ui_inv_step)

definition at_rest :: "SearchUi \<Rightarrow> bool" where
  "at_rest u \<longleftrightarrow> \<not> le_timer (su_line u) \<and> \<not> co_timer (su_co u) \<and>
     (\<forall>w \<in> set (co_workers (su_co u)). wk_phase w = WkDone) \<and> co_posted (su_co u) = []"

lemma at_rest_table:
  assumes "ui_inv env Q u" "at_rest u"
  shows "if length (le_text (su_line u)) < 2 then rm_entries (su_model u) = []
    else table_shows env Q (le_text (su_line u)) (co_options (su_co u)) (su_model u)"
proof (cases "length (le_text (su_line u)) < 2")
  case True
  then show ?thesis using assms(1) by (simp add: ui_inv_def)
next
  case False
  let ?q = "le_text (su_line u)" and ?o = "co_options (su_co u)"
  have rest: "\<not> le_timer (su_line u)" "\<not> co_timer (su_co u)" "\<not> in_flight (su_co u)"
    using assms(2) by (auto simp: at_rest_def in_flight_def)
  then have "co_pendingQuery (su_co u) = ?q" "co_current (su_co u) = asked (su_co u)"
    using assms(1) False by (auto simp: ui_inv_def split: if_splits)
  then have "co_current (su_co u) = Some (?q, ?o)"
    using False by (simp add: asked_def)
  then show ?thesis
    using assms(1) rest False by (simp add: ui_inv_def)
qed

section \<open>Properties\<close>

text \<open>Only the newest search reaches the table: when a result is delivered whose token is not
  cancelled, its token is the newest one, and it is the complete answer (for the state of the
  index the search saw) to what the newest search asked for.\<close>

lemma newest_search_delivered:
  assumes "ui_reachable env u" "(t, rows, capped) \<in> set (co_posted (su_co u))"
    and "t \<notin> co_cancelled (su_co u)"
  shows "co_cancelToken (su_co u) = Some t \<and>
    (\<exists>q opts pool results. co_current (su_co u) = Some (q, opts) \<and>
       Search (ue_lib env) (ue_tier env) (\<lambda>i. False) pool (ue_toStdString env q) opts = Some results \<and>
       BuildDisplayEntries (ue_strftime env) pool results = Some rows)"
proof -
  have inv: "co_inv env (\<lambda>p. True) (su_co u)" using ui_inv_reachable [OF assms(1)] by (simp add: ui_inv_def)
  then have "posted_ok env (\<lambda>p. True) (su_co u) (t, rows, capped)" using assms(2) by (simp add: co_inv_def)
  then show ?thesis
    using inv assms(3) by (fastforce simp: posted_ok_def co_inv_def complete_rows_def)
qed


section \<open>A run\<close>

definition sample_ui_env :: "unit UiEnv" where
  "sample_ui_env = \<lparr>ue_lib = no_lib, ue_tier = kScalar, ue_strftime = (\<lambda>t. ''now''),
     ue_toStdString = map (\<lambda>c. char_of (unat c))\<rparr>"

abbreviation ab :: QString where "ab \<equiv> [97, 98]"

definition sample_worker :: "WorkerPhase \<Rightarrow> SearchWorker" where
  "sample_worker ph = \<lparr>wk_token = 0, wk_query = ab, wk_options = default_options, wk_phase = ph\<rparr>"

text \<open>The window after typing, the timers, the search of an empty index, and its posting.\<close>

definition sample_ui :: "SearchWorker list \<Rightarrow> (nat \<times> DisplayEntry list \<times> bool) list \<Rightarrow> SearchUi" where
  "sample_ui workers posted =
     (ui_start default_options)\<lparr>
       su_line := \<lparr>le_text = ab, le_pendingQuery = ab, le_timer = False, le_hadSearchableQuery = True\<rparr>,
       su_co := \<lparr>co_pendingQuery = ab, co_timer = False, co_options = default_options,
         co_workers = workers, co_cancelToken = Some 0, co_cancelled = {}, co_nextToken = 1,
         co_searching = True, co_posted = posted, co_current = Some (ab, default_options)\<rparr>\<rparr>"

lemma ab_chars: "char_of (97::nat) = CHR ''a''" "char_of (98::nat) = CHR ''b''"
  by code_simp+

lemma sample_search:
  "worker_search sample_ui_env (\<lambda>i. False) False empty_pool (sample_worker WkSearching) = Some (WkSearched [] False)"
  by (simp add: worker_search_def sample_ui_env_def sample_worker_def Search_def default_options_def
      ContainsSeparator_iff IsSeparator_def BuildDisplayEntries_def kMaxSearchResults_def ab_chars)

lemma sample_searching:
  "(ui_step env pool)\<^sup>*\<^sup>* (ui_start default_options) (sample_ui [sample_worker WkSearching] [])"
proof -
  let ?t = "type_text ab (ui_start default_options)"
  have timers: "le_timer (su_line ?t)" "co_timer (su_co (debounce_fires ?t))"
    by (simp_all add: type_text_def OnTextChanged_def kMinQueryLength_def debounce_fires_def
        OnDebounceTimeout_def on_line_signal_def SetQuery_def)
  have "(ui_step env pool)\<^sup>*\<^sup>* (ui_start default_options) (coordinator_fires (debounce_fires ?t))"
    by (meson rtranclp.intros ui_step.typed ui_step.debounced [OF timers(1)] ui_step.fired [OF timers(2)])
  moreover have "coordinator_fires (debounce_fires ?t) = sample_ui [sample_worker WkSearching] []"
    by (simp add: type_text_def OnTextChanged_def kMinQueryLength_def debounce_fires_def
        OnDebounceTimeout_def on_line_signal_def SetQuery_def coordinator_fires_def StartSearch_def
        CancelRunningSearch_def ReapFinishedWorkers_def ui_start_def sample_ui_def sample_worker_def)
  ultimately show ?thesis by simp
qed

lemma sample_run:
  "(ui_step sample_ui_env empty_pool)\<^sup>*\<^sup>* (ui_start default_options)
     (sample_ui [sample_worker WkDone] [(0, [], False)])"
proof -
  let ?u = "sample_ui [sample_worker WkSearching] []"
  let ?v = "sample_ui [sample_worker (WkSearched [] False)] []"
  have "ui_step sample_ui_env empty_pool ?u (?u\<lparr>su_co := (su_co ?u)\<lparr>co_workers := (co_workers (su_co ?u))[0 :=
      (sample_worker WkSearching)\<lparr>wk_phase := WkSearched [] False\<rparr>]\<rparr>\<rparr>)"
    by (rule ui_step.searched [where cancel = "\<lambda>i. False"])
      (use sample_search in \<open>simp_all add: sample_ui_def sample_worker_def\<close>)
  then have "ui_step sample_ui_env empty_pool ?u ?v"
    by (simp add: sample_ui_def sample_worker_def)
  moreover have "ui_step sample_ui_env empty_pool ?v
      (?v\<lparr>su_co := worker_post 0 (sample_worker (WkSearched [] False)) (su_co ?v)\<rparr>)"
    by (rule ui_step.posted) (simp_all add: sample_ui_def)
  then have "ui_step sample_ui_env empty_pool ?v (sample_ui [sample_worker WkDone] [(0, [], False)])"
    by (simp add: sample_ui_def sample_worker_def worker_post_def Let_def)
  ultimately show ?thesis using sample_searching by (meson rtranclp.rtrancl_into_rtrancl)
qed

lemma run_reachable: "(ui_step env pool)\<^sup>*\<^sup>* u u' \<Longrightarrow> ui_reachable env u \<Longrightarrow> ui_reachable env u'"
  by (induction rule: rtranclp_induct) (auto intro: ui_reachable.step)

lemma sample_posted: "ui_reachable sample_ui_env (sample_ui [sample_worker WkDone] [(0, [], False)])"
  by (rule run_reachable [OF sample_run ui_reachable.start])

lemma sample_rest:
  "at_rest (gui_delivers (sample_ui [sample_worker WkDone] [(0, [], False)]))"
  "le_text (su_line (gui_delivers (sample_ui [sample_worker WkDone] [(0, [], False)]))) = ab"
  "co_options (su_co (gui_delivers (sample_ui [sample_worker WkDone] [(0, [], False)]))) = default_options"
  by (simp_all add: gui_delivers_def deliver_results_def sample_ui_def on_results_def at_rest_def
      sample_worker_def ui_start_def)

lemma newest_search_delivered_witness:
  "co_cancelToken (su_co (sample_ui [sample_worker WkDone] [(0, [], False)])) = Some 0"
proof -
  have "(0, [], False) \<in> set (co_posted (su_co (sample_ui [sample_worker WkDone] [(0, [], False)])))"
    "0 \<notin> co_cancelled (su_co (sample_ui [sample_worker WkDone] [(0, [], False)]))"
    by (simp_all add: sample_ui_def)
  from newest_search_delivered [OF sample_posted this] show ?thesis by simp
qed


end
