(* ===== verification/Main_Window.thy ===== *)
theory Main_Window
  imports Search_Ui Service_Invariants Dialogs
begin

text \<open>
  The main window (\<open>ui/MainWindow.cpp\<close>): the handlers of the GUI thread, run against the index
  service of \<open>Index_Service\<close> and the search interface of \<open>Search_Ui\<close>. The callbacks of the service
  reach the GUI thread through its queue, in the order of the service's events. While a privileged
  helper runs, the window leaves indexing to it and reloads its index file; the helper itself, its
  process and the files it writes are the environment. What a dialog asks, and where a window is
  drawn, is not modelled.
\<close>

section \<open>The window's state\<close>

datatype HelperProcess = NoHelper | HelperStarting | HelperRunning

datatype HelperSignal = SigHup | SigUsr1 | SigTerm

text \<open>
  \<open>w_delivered\<close> counts the events of the service that the GUI thread has handled; \<open>w_signals\<close> are
  those sent to the helper, and \<open>w_failures\<close> the failure reports shown, with their verb.
  \<open>w_requested\<close> remembers every batch of file operations with its verb. The status bar's message is
  the one of the search interface.
\<close>

record Window =
  w_ui :: SearchUi
  w_sv :: Service
  w_delivered :: nat
  w_settings :: Settings
  w_helper :: HelperProcess
  w_signals :: "HelperSignal list"
  w_elevated :: bool
  w_indexWatcher :: bool
  w_helperWatcher :: bool
  w_statusWatched :: bool
  w_elevateEnabled :: bool
  w_missed :: bool
  w_indexBusy :: bool
  w_hasIndex :: bool
  w_searchEnabled :: bool
  w_lastEntryCount :: u64
  w_lastBuildAge :: u64
  w_indexLabel :: string
  w_liveRefresh :: bool
  w_pendingPaths :: "string set"
  w_verbs :: "string list"
  w_failures :: "(string \<times> (string \<times> string) list) list"
  w_requested :: "(string \<times> string list) list"

definition showMessage :: "string \<Rightarrow> Window \<Rightarrow> Window" where
  "showMessage m w = w\<lparr>w_ui := (w_ui w)\<lparr>su_message := m\<rparr>\<rparr>"

section \<open>Indexing\<close>

definition CurrentScanOptions :: "Settings \<Rightarrow> ScanOptions" where
  "CurrentScanOptions s =
     \<lparr>so_rootPaths = st_selectedRoots s, so_excludedPaths = st_excludedPaths s\<rparr>"

text \<open>The conversion to 64 bits wraps a negative number of hours.\<close>

definition staleSeconds :: "Settings \<Rightarrow> u64" where
  "staleSeconds s = word_of_int (st_reindexIntervalHours s) * 3600"

definition SetSearchUiEnabled :: "bool \<Rightarrow> Window \<Rightarrow> Window" where
  "SetSearchUiEnabled enabled w = w\<lparr>w_searchEnabled := enabled\<rparr>"

definition UpdateIdleStatus :: "Window \<Rightarrow> Window" where
  "UpdateIdleStatus w =
     w\<lparr>w_indexLabel := IndexSummaryText (w_lastEntryCount w) (st_selectedRoots (w_settings w)) (w_lastBuildAge w)\<rparr>"

definition Window_StartIndexing :: "bool \<Rightarrow> Window \<Rightarrow> Window" where
  "Window_StartIndexing force w =
     w\<lparr>w_sv := RequestIndexing force (CurrentScanOptions (w_settings w)) (staleSeconds (w_settings w))
         (\<not> w_elevated w) (w_sv w)\<rparr>"

definition SendSignalToHelper :: "HelperSignal \<Rightarrow> Window \<Rightarrow> Window" where
  "SendSignalToHelper sig w =
     (let w = (if sig = SigHup \<or> sig = SigUsr1 then w\<lparr>w_missed := True\<rparr> else w)
      in if w_helper w = HelperRunning then w\<lparr>w_signals := w_signals w @ [sig]\<rparr> else w)"

definition RebuildIndex :: "Window \<Rightarrow> Window" where
  "RebuildIndex w = (if w_elevated w then SendSignalToHelper SigUsr1 w else Window_StartIndexing True w)"

definition SetIndexBusy :: "bool \<Rightarrow> Window \<Rightarrow> Window" where
  "SetIndexBusy busy w =
     (let w = SetSearchUiEnabled (\<not> busy \<and> w_hasIndex w) (w\<lparr>w_indexBusy := busy\<rparr>)
      in showMessage (if busy then ''Indexing'' @ ellipsis else ''Ready.'') w)"

definition OnIndexStatus :: "IndexerStatus \<Rightarrow> Window \<Rightarrow> Window" where
  "OnIndexStatus status w =
     (if ix_state status = Scanning
      then showMessage (''Indexing'' @ ellipsis @ '' '' @ FormatFileCount (ix_filesIndexed status) @ '' files'') w
      else w)"

definition Window_RefreshVisibleResults :: "Window \<Rightarrow> Window" where
  "Window_RefreshVisibleResults w = w\<lparr>w_ui := RefreshVisibleResults (w_ui w)\<rparr>"

definition OnIndexChanged :: "IndexChange \<Rightarrow> Window \<Rightarrow> Window" where
  "OnIndexChanged change w =
     (let w = w\<lparr>w_lastEntryCount := ic_entryCount change, w_lastBuildAge := ic_indexAgeSeconds change,
                w_hasIndex := True\<rparr>;
          w = (if \<not> w_indexBusy w then SetSearchUiEnabled True w else w)
      in Window_RefreshVisibleResults (UpdateIdleStatus w))"

section \<open>Settings\<close>

text \<open>The files and the hash map are those of \<open>Settings_Save\<close>.\<close>

definition ApplySettings ::
  "(string \<Rightarrow> string option) \<Rightarrow> (Settings \<Rightarrow> bool \<times> Settings) \<Rightarrow> DialogValues \<Rightarrow> Window \<Rightarrow> Window" where
  "ApplySettings realpath save result w =
     (let oldRoots = st_selectedRoots (w_settings w);
          s = SetSelectedRoots realpath (w_settings w) (dv_selectedRoots result);
          s = SetExcludedPaths s (dv_excludedPaths result);
          s = SetReindexIntervalHours s (dv_reindexIntervalHours result);
          (saved, s) = save s;
          w = w\<lparr>w_settings := s\<rparr>
      in if \<not> saved then w
         else if w_elevated w then SendSignalToHelper SigHup w
         else w\<lparr>w_sv := RequestSettingsChange oldRoots (CurrentScanOptions s) (staleSeconds s) True (w_sv w)\<rparr>)"

text \<open>\<open>run\<close> is what the user makes of the dialog, \<open>None\<close> when it is declined. The result is \<open>None\<close>
  when the accepted interval overflows.\<close>

definition ShowSettingsDialog ::
  "Qt \<Rightarrow> (string \<Rightarrow> string option) \<Rightarrow> (SettingsDialog \<Rightarrow> SettingsDialog option) \<Rightarrow>
   (Settings \<Rightarrow> bool \<times> Settings) \<Rightarrow> Window \<Rightarrow> Window option" where
  "ShowSettingsDialog qt realpath run save w =
     (let s = w_settings w;
          initial = \<lparr>dv_selectedRoots = st_selectedRoots s, dv_excludedPaths = st_excludedPaths s,
                      dv_reindexIntervalHours = st_reindexIntervalHours s\<rparr>
      in case run (SettingsDialog_open qt initial) of
           None \<Rightarrow> Some w
         | Some d \<Rightarrow> do { result \<leftarrow> accept qt realpath d; Some (ApplySettings realpath save result w) })"

section \<open>The privileged helper\<close>

definition ElevateForFullAccess :: "Window \<Rightarrow> Window" where
  "ElevateForFullAccess w =
     (if w_elevated w \<or> w_helper w \<noteq> NoHelper then w else w\<lparr>w_helper := HelperStarting\<rparr>)"

definition OnHelperError :: "bool \<Rightarrow> Window \<Rightarrow> Window" where
  "OnHelperError failedToStart w =
     (if \<not> failedToStart \<or> w_elevated w then w
      else (showMessage ''Could not start indexed-helper (declined, or pkexec/indexed-helper not found).'' w)
             \<lparr>w_helper := NoHelper\<rparr>)"

definition OnHelperStarted :: "Window \<Rightarrow> Window" where
  "OnHelperStarted w =
     (let w = w\<lparr>w_elevated := True, w_elevateEnabled := False\<rparr>;
          w = showMessage ''Elevated: full-system indexing and monitoring active.'' w;
          w = w\<lparr>w_sv := RequestStopLocalIndexing (w_sv w)\<rparr>
      in w\<lparr>w_indexWatcher := True, w_helperWatcher := True, w_statusWatched := False\<rparr>)"

definition OnHelperFinished :: "Window \<Rightarrow> Window" where
  "OnHelperFinished w =
     (let w = w\<lparr>w_indexWatcher := False, w_helperWatcher := False, w_statusWatched := False,
                w_helper := NoHelper\<rparr>;
          wasElevated = w_elevated w;
          w = w\<lparr>w_elevated := False, w_elevateEnabled := True\<rparr>;
          w = (if wasElevated
               then Window_StartIndexing (w_missed w)
                      (showMessage ''Full-system access ended; indexing locally again.'' w)
               else w)
      in w\<lparr>w_missed := False\<rparr>)"

text \<open>The index file changed.\<close>

definition on_index_file :: "Window \<Rightarrow> Window" where
  "on_index_file w = w\<lparr>w_sv := RequestReload (w_sv w)\<rparr>"

text \<open>\<open>file\<close> is the content of the status file, if it could be opened.\<close>

definition UpdateStatusFromHelperFile :: "string option \<Rightarrow> Window \<Rightarrow> Window" where
  "UpdateStatusFromHelperFile content w =
     (case content of
        None \<Rightarrow> w
      | Some s \<Rightarrow>
          (case ParseStatus s of
             None \<Rightarrow> w
           | Some status \<Rightarrow>
               if ix_state status = WatchingForChanges \<or> ix_state status = Idle
               then w\<lparr>w_indexLabel := IndexSummaryText (ix_filesIndexed status) (ix_locations status)
                                        (ix_indexAgeSeconds status)\<rparr>
               else showMessage (ix_message status) w))"

definition OnHelperFileChanged :: "string \<Rightarrow> string \<Rightarrow> string option \<Rightarrow> Window \<Rightarrow> Window" where
  "OnHelperFileChanged statusFilePath path content w =
     (if path = statusFilePath then UpdateStatusFromHelperFile content w else w)"

definition on_status_directory :: "string option \<Rightarrow> Window \<Rightarrow> Window" where
  "on_status_directory content w =
     UpdateStatusFromHelperFile content
       (if content \<noteq> None \<and> \<not> w_statusWatched w then w\<lparr>w_statusWatched := True\<rparr> else w)"

section \<open>File operations\<close>

text \<open>\<open>trash\<close> is \<open>QFile::moveToTrash\<close>; \<open>unlink\<close> is \<open>std::filesystem::remove\<close>: whether it removed, and
  its error.\<close>

definition RunFileOperation ::
  "(string \<Rightarrow> bool) \<Rightarrow> (string \<Rightarrow> bool \<times> string option) \<Rightarrow> FileOperation \<Rightarrow> string option" where
  "RunFileOperation trash unlink op =
     (if fo_type op = MoveToTrash then
        (if trash (fo_path op) then None else Some ''could not move to Trash'')
      else (case unlink (fo_path op) of (removed, ec) \<Rightarrow>
              if removed then None
              else (case ec of Some reason \<Rightarrow> Some reason | None \<Rightarrow> Some ''no such file'')))"

definition RunFileOperations :: "FileOpType \<Rightarrow> string list \<Rightarrow> string \<Rightarrow> Window \<Rightarrow> Window" where
  "RunFileOperations type paths verb w =
     (let operations = map (\<lambda>p. \<lparr>fo_type = type, fo_path = p\<rparr>) paths;
          w = w\<lparr>w_pendingPaths := w_pendingPaths w \<union> set paths\<rparr>;
          w = w\<lparr>w_ui := (w_ui w)\<lparr>su_model := SetPendingPaths (w_pendingPaths w) (su_model (w_ui w))\<rparr>,
                w_verbs := w_verbs w @ [verb], w_requested := w_requested w @ [(verb, paths)]\<rparr>
      in w\<lparr>w_sv := RequestFileOperations operations (w_sv w)\<rparr>)"

definition verb_of :: "FileOpType \<Rightarrow> string" where
  "verb_of type = (case type of MoveToTrash \<Rightarrow> ''move to Trash'' | DeletePermanently \<Rightarrow> ''delete'')"

definition TrashPaths :: "string list \<Rightarrow> Window \<Rightarrow> Window" where
  "TrashPaths paths w = RunFileOperations MoveToTrash paths (verb_of MoveToTrash) w"

text \<open>\<open>yes\<close> is the answer to the question.\<close>

definition DeletePaths :: "string list \<Rightarrow> bool \<Rightarrow> Window \<Rightarrow> Window" where
  "DeletePaths paths yes w =
     (if yes then RunFileOperations DeletePermanently paths (verb_of DeletePermanently) w else w)"

definition ReportDeletionFailures :: "string \<Rightarrow> (string \<times> string) list \<Rightarrow> Window \<Rightarrow> Window" where
  "ReportDeletionFailures verb failed w =
     (if failed = [] then w else w\<lparr>w_failures := w_failures w @ [(verb, failed)]\<rparr>)"

definition OnFileOperationsFinished :: "FileOperationReport \<Rightarrow> Window \<Rightarrow> Window" where
  "OnFileOperationsFinished report w =
     (let w = w\<lparr>w_pendingPaths := w_pendingPaths w - set (fr_succeeded report) - fst ` set (fr_failed report)\<rparr>;
          w = w\<lparr>w_ui := (w_ui w)\<lparr>su_model := SetPendingPaths (w_pendingPaths w) (su_model (w_ui w))\<rparr>\<rparr>;
          verb = (if w_verbs w = [] then [] else hd (w_verbs w));
          w = w\<lparr>w_verbs := tl (w_verbs w)\<rparr>
      in ReportDeletionFailures verb (fr_failed report) w)"

text \<open>A result that is opened but gone; \<open>yes\<close> is the answer to the question.\<close>

definition OnOpenPathChecked :: "bool \<Rightarrow> bool \<Rightarrow> Window \<Rightarrow> Window" where
  "OnOpenPathChecked exists yes w = (if exists then w else if yes then RebuildIndex w else w)"

section \<open>Mounts that come and go\<close>

definition hotplug_notices :: "MountInfo list \<Rightarrow> MountInfo list \<Rightarrow> string list" where
  "hotplug_notices previous current =
     map (\<lambda>m. ''Filesystem '' @ mi_mountPoint m @ '' mounted -- add it in Settings to index it.'')
       (filter (\<lambda>m. \<not> list_ex (\<lambda>p. mi_mountPoint p = mi_mountPoint m) previous) current) @
     map (\<lambda>m. ''Filesystem '' @ mi_mountPoint m @ '' unmounted.'')
       (filter (\<lambda>m. \<not> list_ex (\<lambda>p. mi_mountPoint p = mi_mountPoint m) current) previous)"

text \<open>
  The thread that waits for changes of the mounts: each turn says whether it was told of a change
  and has not been stopped, and what the mounts are then. The notices are those it posts.
\<close>

fun hotplug_loop :: "MountInfo list \<Rightarrow> (bool \<times> MountInfo list) list \<Rightarrow> string list" where
  "hotplug_loop previous [] = []"
| "hotplug_loop previous ((changed, current) # turns) =
     (if \<not> changed then hotplug_loop previous turns
      else hotplug_notices previous current @ hotplug_loop current turns)"

section \<open>Steps\<close>

text \<open>The GUI thread runs the callback of the service's next event.\<close>

definition on_event :: "Event \<Rightarrow> Window \<Rightarrow> Window" where
  "on_event ev w =
     (case ev of
        EvBusy b \<Rightarrow> SetIndexBusy b w
      | EvIndexChanged change \<Rightarrow> OnIndexChanged change w
      | EvFileOps report \<Rightarrow> OnFileOperationsFinished report w
      | EvSave _ \<Rightarrow> w
      | EvLiveChange \<Rightarrow> w\<lparr>w_liveRefresh := True\<rparr>)"

definition deliver_event :: "Window \<Rightarrow> Window" where
  "deliver_event w =
     (if w_delivered w < length (sv_events (w_sv w))
      then on_event (sv_events (w_sv w) ! w_delivered w) (w\<lparr>w_delivered := w_delivered w + 1\<rparr>)
      else w)"

text \<open>The handlers of the GUI thread, with what the environment chooses.\<close>

inductive gui_step :: "Window \<Rightarrow> Window \<Rightarrow> bool" where
  event: "gui_step w (deliver_event w)"
| live_refresh: "w_liveRefresh w \<Longrightarrow>
    gui_step w (Window_RefreshVisibleResults (w\<lparr>w_liveRefresh := False\<rparr>))"
| status: "gui_step w (OnIndexStatus st w)"
| rebuild: "gui_step w (RebuildIndex w)"
| settings: "gui_step w (ApplySettings realpath save result w)"
| elevate: "gui_step w (ElevateForFullAccess w)"
| helper_error: "w_helper w = HelperStarting \<or> \<not> failed \<Longrightarrow> gui_step w (OnHelperError failed w)"
| helper_started: "w_helper w = HelperStarting \<Longrightarrow>
    gui_step w (OnHelperStarted (w\<lparr>w_helper := HelperRunning\<rparr>))"
| helper_finished: "w_helper w = HelperRunning \<Longrightarrow> gui_step w (OnHelperFinished w)"
| index_file: "w_indexWatcher w \<Longrightarrow> gui_step w (on_index_file w)"
| status_file: "w_helperWatcher w \<Longrightarrow> gui_step w (OnHelperFileChanged statusFilePath path content w)"
| status_directory: "w_helperWatcher w \<Longrightarrow> gui_step w (on_status_directory content w)"
| trash: "gui_step w (TrashPaths paths w)"
| delete: "gui_step w (DeletePaths paths yes w)"
| opened: "gui_step w (OnOpenPathChecked exists yes w)"
| notice: "gui_step w (showMessage m w)"

text \<open>
  A step of the whole: a handler, once the GUI thread has left its last request; a step of the
  search interface, whose searches read the service's index; or a step of the service's threads.
\<close>

inductive window_step :: "'re UiEnv \<Rightarrow> Window \<Rightarrow> Window \<Rightarrow> bool" for env where
  gui: "sv_client (w_sv w) = CIdle \<Longrightarrow> gui_step w w' \<Longrightarrow> window_step env w w'"
| search: "ui_step env (is_pool (sv_store (w_sv w))) (w_ui w) u \<Longrightarrow> window_step env w (w\<lparr>w_ui := u\<rparr>)"
| request: "sv_client (w_sv w) = CEnqueue c \<Longrightarrow> window_step env w (w\<lparr>w_sv := Enqueue c (w_sv w)\<rparr>)"
| worker: "worker_step True (w_sv w) l sv \<Longrightarrow> window_step env w (w\<lparr>w_sv := sv\<rparr>)"
| files: "file_step (w_sv w) l sv \<Longrightarrow> window_step env w (w\<lparr>w_sv := sv\<rparr>)"
| monitor: "monitor_step (w_sv w) l sv \<Longrightarrow> window_step env w (w\<lparr>w_sv := sv\<rparr>)"

text \<open>The window as it is shown first, and the indexing that the program starts then.\<close>

definition new_window :: "Settings \<Rightarrow> IndexStore \<Rightarrow> Window" where
  "new_window s store =
     \<lparr>w_ui = ui_start default_options, w_sv = initial_service store, w_delivered = 0, w_settings = s,
      w_helper = NoHelper, w_signals = [], w_elevated = False, w_indexWatcher = False,
      w_helperWatcher = False, w_statusWatched = False, w_elevateEnabled = True, w_missed = False,
      w_indexBusy = False, w_hasIndex = False, w_searchEnabled = False, w_lastEntryCount = 0,
      w_lastBuildAge = 0, w_indexLabel = ''No index yet.'', w_liveRefresh = False,
      w_pendingPaths = {}, w_verbs = [], w_failures = [], w_requested = []\<rparr>"

inductive window_reachable :: "'re UiEnv \<Rightarrow> Window \<Rightarrow> bool" for env where
  start: "window_reachable env (Window_StartIndexing False (new_window s empty_store))"
| step: "window_reachable env w \<Longrightarrow> window_step env w w' \<Longrightarrow> window_reachable env w'"

section \<open>Notices\<close>

lemma hotplug_notices_none:
  "hotplug_notices previous current = [] \<longleftrightarrow>
   mi_mountPoint ` set previous = mi_mountPoint ` set current"
  by (auto simp: hotplug_notices_def filter_empty_conv list_ex_iff image_def set_eq_iff) metis+

section \<open>What the settings mean\<close>

text \<open>A settings dialog that ends is a step of the window.\<close>

lemma ShowSettingsDialog_steps:
  "ShowSettingsDialog qt realpath run save w = Some w' \<Longrightarrow> w' = w \<or> gui_step w w'"
  by (auto simp: ShowSettingsDialog_def Let_def intro: gui_step.settings
      elim!: bind_SomeE split: option.splits)

text \<open>The interval 0 stands for \<open>manual only\<close>. As a threshold it makes every index older than a second
  stale, so that each start of the program scans everything again.\<close>

lemma manual_only_rescans:
  assumes "st_reindexIntervalHours s = 0" "lr_buildTimestampNs loaded < nowNs"
    and "nowNs - lr_buildTimestampNs loaded \<ge> 1000000000"
  shows "\<not> fresh_load loaded nowNs (staleSeconds s) \<and>
    plan_of needsFull loaded nowNs (CmdIndexing False options (staleSeconds s) m t) = Some PlanRebuild"
proof -
  have "0 < (nowNs - lr_buildTimestampNs loaded) div 1000000000"
    using assms(3) by (simp add: word_less_nat_alt word_le_nat_alt unat_div div_greater_zero_iff)
  then have "(nowNs - lr_buildTimestampNs loaded) div 1000000000 \<noteq> 0" by auto
  then have "\<not> fresh_load loaded nowNs (staleSeconds s)"
    using assms(1,2) by (simp add: fresh_load_def age_seconds_def staleSeconds_def)
  then show ?thesis by simp
qed

text \<open>A change of the exclusions alone changes nothing in the index.\<close>

lemma exclusions_change_plans_nothing:
  "settings_plan False roots \<lparr>so_rootPaths = roots, so_excludedPaths = exclusions\<rparr> = PlanNothing"
  by (simp add: settings_plan_def DiffRoots_def bothChanged_def Let_def)

section \<open>The start of the program\<close>

text \<open>Up to the event loop; \<open>None\<close> when the first-run dialog is declined. The settings file may be
  missing or unreadable: then the settings are the initial ones.\<close>

definition program_start ::
  "Qt \<Rightarrow> (string \<Rightarrow> string option) \<Rightarrow> FileRead \<Rightarrow> MountInfo list \<Rightarrow>
   (FirstRunDialog \<Rightarrow> FirstRunDialog option) \<Rightarrow> (Settings \<Rightarrow> Settings) \<Rightarrow> string \<Rightarrow> string \<Rightarrow> Window option"
where
  "program_start qt realpath config mounts run save configPath home = do {
     let s = snd (Settings_Load realpath config (new_Settings configPath home));
     s \<leftarrow> first_run_setup qt realpath mounts home run save s;
     Some (Window_StartIndexing False (new_window s empty_store)) }"

lemma program_start_reachable:
  "program_start qt realpath config mounts run save configPath home = Some w \<Longrightarrow> window_reachable env w"
  by (auto simp: program_start_def Let_def intro: window_reachable.start elim!: bind_SomeE)

end
