(* ===== verification/Window_Invariants.thy ===== *)
theory Window_Invariants
  imports Main_Window
begin

text \<open>
  What holds of the window in every interleaving of its handlers, the service's threads and the
  search interface: it drives the service as a client may, the search box is enabled exactly when
  there is an index and no work on it, deletions are reported under their own name and leave no
  row grey, and while a helper runs the window's own monitors come to rest.
\<close>

section \<open>The service under the window\<close>

lemmas handler_defs =
  showMessage_def SetSearchUiEnabled_def UpdateIdleStatus_def Window_StartIndexing_def
  SendSignalToHelper_def RebuildIndex_def SetIndexBusy_def OnIndexStatus_def
  Window_RefreshVisibleResults_def OnIndexChanged_def ApplySettings_def ElevateForFullAccess_def
  OnHelperError_def OnHelperStarted_def OnHelperFinished_def on_index_file_def
  UpdateStatusFromHelperFile_def OnHelperFileChanged_def on_status_directory_def
  RunFileOperations_def TrashPaths_def DeletePaths_def ReportDeletionFailures_def
  OnFileOperationsFinished_def OnOpenPathChecked_def Let_def

inductive_cases gui_stepE: "gui_step w w'"
inductive_cases window_stepE: "window_step env w w'"

lemma on_event_service [simp]: "w_sv (on_event ev w) = w_sv w"
  by (simp add: on_event_def handler_defs split: Event.splits)

lemma on_event_elevated [simp]: "w_elevated (on_event ev w) = w_elevated w"
  by (simp add: on_event_def handler_defs split: Event.splits)

lemma deliver_event_fields [simp]:
  "w_sv (deliver_event w) = w_sv w" "w_elevated (deliver_event w) = w_elevated w"
  by (simp_all add: deliver_event_def)

text \<open>A handler makes at most one request to the service.\<close>

inductive asks :: "Service \<Rightarrow> Service \<Rightarrow> bool" where
  nothing: "asks sv sv"
| indexing: "asks sv (RequestIndexing force opts stale m sv)"
| settings: "asks sv (RequestSettingsChange oldRoots opts stale m sv)"
| reload: "asks sv (RequestReload sv)"
| stop: "asks sv (RequestStopLocalIndexing sv)"
| file_operations: "asks sv (RequestFileOperations ops sv)"

inductive_cases asksE: "asks sv sv'"

lemma gui_step_asks: "gui_step w w' \<Longrightarrow> asks (w_sv w) (w_sv w')"
  by (erule gui_stepE)
    (auto simp: handler_defs intro: asks.intros split: option.splits prod.splits)

lemma asks_client: "asks sv sv' \<Longrightarrow> sv_client sv = CIdle \<Longrightarrow> sv' = sv \<or> client_step sv sv'"
  by (erule asksE) (auto intro: client_step.intros)

lemma asks_alive: "asks sv sv' \<Longrightarrow> sv_shuttingDown sv' = sv_shuttingDown sv"
  "asks sv sv' \<Longrightarrow> sv_fileOpsStopping sv' = sv_fileOpsStopping sv"
  by (erule asksE; simp add: request_defs)+

text \<open>The service's own steps: its threads, and the second half of a request.\<close>

inductive service_moves :: "Service \<Rightarrow> Service \<Rightarrow> bool" where
  request: "sv_client sv = CEnqueue c \<Longrightarrow> service_moves sv (Enqueue c sv)"
| worker: "worker_step True sv l sv' \<Longrightarrow> service_moves sv sv'"
| files: "file_step sv l sv' \<Longrightarrow> service_moves sv sv'"
| monitor: "monitor_step sv l sv' \<Longrightarrow> service_moves sv sv'"

inductive_cases service_movesE: "service_moves sv sv'"

lemma window_step_cases:
  assumes "window_step env w w'"
  obtains "sv_client (w_sv w) = CIdle" "gui_step w w'"
    | u where "w' = w\<lparr>w_ui := u\<rparr>" "ui_step env (is_pool (sv_store (w_sv w))) (w_ui w) u"
    | sv where "w' = w\<lparr>w_sv := sv\<rparr>" "service_moves (w_sv w) sv"
  using assms by (cases rule: window_step.cases) (blast intro: service_moves.intros)+

lemma service_moves_step: "service_moves sv sv' \<Longrightarrow> \<exists>l. service_step True sv l sv'"
  by (erule service_movesE) (auto simp: service_step_def intro: client_step.enqueue)

text \<open>The file-operation thread's own fields.\<close>

lemma file_fields [simp]:
  "sv_fileOpJobs (emit ev sv) = sv_fileOpJobs sv"
  "sv_fileOpsStopping (emit ev sv) = sv_fileOpsStopping sv"
  "sv_fileOpJobs (ReportIndexChanged nowNs kind sv) = sv_fileOpJobs sv"
  "sv_fileOpsStopping (ReportIndexChanged nowNs kind sv) = sv_fileOpsStopping sv"
  "sv_fileOpJobs (begin_scan sv) = sv_fileOpJobs sv"
  "sv_fileOpsStopping (begin_scan sv) = sv_fileOpsStopping sv"
  "sv_fileOpJobs (EndBusy sv) = sv_fileOpJobs sv"
  "sv_fileOpsStopping (EndBusy sv) = sv_fileOpsStopping sv"
  "sv_fileOpJobs (record_removal path sv) = sv_fileOpJobs sv"
  "sv_fileOpsStopping (record_removal path sv) = sv_fileOpsStopping sv"
  by (simp_all add: emit_def ReportIndexChanged_def begin_scan_def BeginBusy_def StopMonitoring_def
      EndBusy_def Let_def record_removal_def)

lemma file_fields_finish [simp]:
  "sv_fileOpJobs (after_finish mon nowNs c completed any sv) = sv_fileOpJobs sv"
  "sv_fileOpsStopping (after_finish mon nowNs c completed any sv) = sv_fileOpsStopping sv"
  "sv_fileOpJobs (finish_batch nowNs r sv) = sv_fileOpJobs sv"
  "sv_fileOpsStopping (finish_batch nowNs r sv) = sv_fileOpsStopping sv"
  by (simp_all add: after_finish_def finish_batch_def StartMonitoring_def StopMonitoring_def Let_def)

lemma service_moves_alive:
  assumes "service_moves sv sv'"
  shows "sv_shuttingDown sv' = sv_shuttingDown sv \<and> sv_fileOpsStopping sv' = sv_fileOpsStopping sv"
  using assms
  by (elim service_movesE worker_stepE file_stepE monitor_stepE)
    (auto simp: Enqueue_def StopMonitoring_def)

text \<open>The window only ever drives the service as a client may, and never while it shuts down.\<close>

definition driven :: "Service \<Rightarrow> bool" where
  "driven sv \<longleftrightarrow> reachable True sv \<and> \<not> sv_shuttingDown sv \<and> \<not> sv_fileOpsStopping sv"

lemma driven_asks: "driven sv \<Longrightarrow> asks sv sv' \<Longrightarrow> sv_client sv = CIdle \<Longrightarrow> driven sv'"
  using asks_alive [of sv sv'] asks_client [of sv sv'] client_reachable [of True sv sv']
  by (auto simp: driven_def)

lemma driven_moves: "driven sv \<Longrightarrow> service_moves sv sv' \<Longrightarrow> driven sv'"
  using service_moves_alive [of sv sv'] service_moves_step [of sv sv'] reachable.step [of True sv _ sv']
  by (auto simp: driven_def)

lemma driven_start: "driven (w_sv (Window_StartIndexing force (new_window s empty_store)))"
proof -
  have "driven (initial_service empty_store)"
    by (simp add: driven_def reachable.init) (simp add: initial_service_def)
  from driven_asks [OF this asks.indexing] show ?thesis
    by (simp add: Window_StartIndexing_def new_window_def) (simp add: initial_service_def)
qed

lemma window_driven: "window_reachable env w \<Longrightarrow> driven (w_sv w)"
proof (induction rule: window_reachable.induct)
  case (start s)
  show ?case by (rule driven_start)
next
  case (step w w')
  from step.hyps(2) show ?case
    by (cases rule: window_step_cases)
      (use step.IH gui_step_asks [of w w'] in \<open>auto intro: driven_asks driven_moves\<close>)
qed

section \<open>Flags\<close>

definition flags_inv :: "Window \<Rightarrow> bool" where
  "flags_inv w \<longleftrightarrow>
     w_elevated w = (w_helper w = HelperRunning) \<and> w_indexWatcher w = w_elevated w \<and>
     w_helperWatcher w = w_elevated w \<and> w_elevateEnabled w = (\<not> w_elevated w) \<and>
     (w_missed w \<longrightarrow> w_elevated w) \<and> w_searchEnabled w = (\<not> w_indexBusy w \<and> w_hasIndex w)"

lemma flags_event: "flags_inv w \<Longrightarrow> flags_inv (on_event ev w)"
  by (cases ev) (auto simp: on_event_def flags_inv_def handler_defs)

lemma flags_gui: "flags_inv w \<Longrightarrow> gui_step w w' \<Longrightarrow> flags_inv w'"
proof (erule gui_stepE)
  assume "flags_inv w" "w' = deliver_event w"
  moreover have "flags_inv (w\<lparr>w_delivered := n\<rparr>) = flags_inv w" for n
    by (simp add: flags_inv_def)
  ultimately show "flags_inv w'"
    by (simp add: deliver_event_def flags_event)
qed (auto simp: flags_inv_def handler_defs split: option.splits prod.splits)

lemma window_flags: "window_reachable env w \<Longrightarrow> flags_inv w"
proof (induction rule: window_reachable.induct)
  case (start s)
  show ?case by (simp add: flags_inv_def Window_StartIndexing_def new_window_def)
next
  case (step w w')
  from step.hyps(2) show ?case
    by (cases rule: window_step_cases)
      (use step.IH flags_gui [of w w'] in \<open>auto simp: flags_inv_def\<close>)
qed

section \<open>Batches of file operations\<close>

definition reports :: "Event list \<Rightarrow> FileOperationReport list" where
  "reports evs = concat (map (\<lambda>ev. case ev of EvFileOps r \<Rightarrow> [r] | _ \<Rightarrow> []) evs)"

lemma reports_simps [simp]:
  "reports [] = []" "reports (EvFileOps r # evs) = r # reports evs"
  "reports (EvBusy b # evs) = reports evs" "reports (EvIndexChanged c # evs) = reports evs"
  "reports (EvSave bytes # evs) = reports evs" "reports (EvLiveChange # evs) = reports evs"
  "reports (evs @ evs') = reports evs @ reports evs'"
  by (simp_all add: reports_def)

definition report_paths :: "FileOperationReport \<Rightarrow> string multiset" where
  "report_paths r = mset (fr_succeeded r) + mset (map fst (fr_failed r))"

fun pc_batches :: "FilePc \<Rightarrow> string multiset list" where
  "pc_batches FWait = []"
| "pc_batches (FOps ops r) = [report_paths r + mset (map fo_path ops)]"
| "pc_batches (FRan path ops r) = [report_paths r + mset (map fo_path ops) + {#path#}]"
| "pc_batches (FRecorded path ops r) = [report_paths r + mset (map fo_path ops) + {#path#}]"

fun job_batches :: "FileJob list \<Rightarrow> string multiset list" where
  "job_batches [] = []"
| "job_batches (JobOperations ops # jobs) = mset (map fo_path ops) # job_batches jobs"
| "job_batches (JobFlush # jobs) = job_batches jobs"

lemma job_batches_append [simp]: "job_batches (xs @ ys) = job_batches xs @ job_batches ys"
  by (induction xs rule: job_batches.induct) simp_all

text \<open>The paths of every batch the service was given, in order: reported, running, waiting.\<close>

definition batches :: "Service \<Rightarrow> string multiset list" where
  "batches sv = map report_paths (reports (sv_events sv)) @ pc_batches (sv_filePc sv) @
     job_batches (sv_fileOpJobs sv)"

lemma reports_fields [simp]:
  "reports (sv_events (ReportIndexChanged nowNs kind sv)) = reports (sv_events sv)"
  "reports (sv_events (after_finish mon nowNs c completed any sv)) = reports (sv_events sv)"
  "reports (sv_events (begin_scan sv)) = reports (sv_events sv)"
  "reports (sv_events (EndBusy sv)) = reports (sv_events sv)"
  "reports (sv_events (finish_batch nowNs r sv)) = reports (sv_events sv) @ [r]"
  by (simp_all add: ReportIndexChanged_def after_finish_def StartMonitoring_def StopMonitoring_def
      begin_scan_def BeginBusy_def EndBusy_def finish_batch_def Let_def)

lemma batches_moves: "service_moves sv sv' \<Longrightarrow> batches sv' = batches sv"
  by (elim service_movesE worker_stepE file_stepE monitor_stepE)
    (auto simp: batches_def Enqueue_def StopMonitoring_def report_paths_def failed_op_def)

lemma batches_asks:
  "asks sv sv' \<Longrightarrow> (\<forall>ops. sv' \<noteq> RequestFileOperations ops sv) \<Longrightarrow> batches sv' = batches sv"
  by (erule asksE) (auto simp: batches_def request_defs)

lemma batches_request:
  "\<not> sv_fileOpsStopping sv \<Longrightarrow>
   batches (RequestFileOperations ops sv) = batches sv @ [mset (map fo_path ops)]"
  by (simp add: batches_def RequestFileOperations_def)

text \<open>Events are only ever added.\<close>

lemma moves_events: "service_moves sv sv' \<Longrightarrow> \<exists>evs. sv_events sv' = sv_events sv @ evs"
  by (elim service_movesE worker_stepE file_stepE monitor_stepE)
    (auto simp: Enqueue_def StopMonitoring_def begin_scan_def BeginBusy_def after_finish_def
      StartMonitoring_def ReportIndexChanged_def EndBusy_def finish_batch_def Let_def)

lemma asks_events: "asks sv sv' \<Longrightarrow> sv_events sv' = sv_events sv"
  by (erule asksE) (simp_all add: request_defs)

text \<open>The batches whose report the window has not handled.\<close>

definition outstanding :: "Window \<Rightarrow> (string \<times> string list) list" where
  "outstanding w = drop (length (reports (take (w_delivered w) (sv_events (w_sv w))))) (w_requested w)"

definition batch_inv :: "Window \<Rightarrow> bool" where
  "batch_inv w \<longleftrightarrow>
     w_delivered w \<le> length (sv_events (w_sv w)) \<and>
     batches (w_sv w) = map (mset \<circ> snd) (w_requested w) \<and>
     w_verbs w = map fst (outstanding w) \<and>
     w_pendingPaths w \<subseteq> (\<Union>b \<in> set (outstanding w). set (snd b)) \<and>
     rm_pendingPaths (su_model (w_ui w)) = w_pendingPaths w \<and>
     (\<forall>(verb, failed) \<in> set (w_failures w).
        \<exists>paths. (verb, paths) \<in> set (w_requested w) \<and> fst ` set failed \<subseteq> set paths)"

lemma report_belongs:
  assumes "batches sv = map (mset \<circ> snd) B" "k < length (reports (sv_events sv))"
  shows "k < length B" "report_paths (reports (sv_events sv) ! k) = mset (snd (B ! k))"
proof -
  have "length (batches sv) = length B" using assms(1) by simp
  then show k: "k < length B" using assms(2) by (simp add: batches_def)
  have "batches sv ! k = mset (snd (B ! k))" using k assms(1) by simp
  then show "report_paths (reports (sv_events sv) ! k) = mset (snd (B ! k))"
    using assms(2) by (simp add: batches_def nth_append)
qed

lemma reports_take_Suc:
  assumes "d < length evs"
  shows "reports (take (Suc d) evs) = reports (take d evs) @ reports [evs ! d]"
  using assms by (simp add: take_Suc_conv_app_nth)

lemma reports_at:
  assumes "d < length evs" "evs ! d = EvFileOps r"
  shows "length (reports (take d evs)) < length (reports evs)"
    "reports evs ! length (reports (take d evs)) = r"
proof -
  have "evs = take d evs @ evs ! d # drop (Suc d) evs" using assms(1) by (rule id_take_nth_drop)
  then have "reports evs = reports (take d evs) @ r # reports (drop (Suc d) evs)"
    using assms(2) by (metis reports_simps(2,7))
  then show "length (reports (take d evs)) < length (reports evs)"
    "reports evs ! length (reports (take d evs)) = r" by simp_all
qed

text \<open>What the invariant looks at.\<close>

definition batch_view :: "Window \<Rightarrow> _" where
  "batch_view w =
     (w_delivered w, w_requested w, w_verbs w, w_pendingPaths w, rm_pendingPaths (su_model (w_ui w)),
      w_failures w, sv_events (w_sv w), batches (w_sv w))"

lemma batch_inv_view: "batch_view w' = batch_view w \<Longrightarrow> batch_inv w' = batch_inv w"
  by (simp add: batch_view_def batch_inv_def outstanding_def)

lemma batch_moves:
  assumes "batch_inv w" "service_moves (w_sv w) sv"
  shows "batch_inv (w\<lparr>w_sv := sv\<rparr>)"
proof -
  obtain evs where "sv_events sv = sv_events (w_sv w) @ evs" using moves_events [OF assms(2)] by blast
  then show ?thesis
    using assms(1) by (simp add: batch_inv_def outstanding_def batches_moves [OF assms(2)])
qed

lemma model_sort_pending [simp]: "rm_pendingPaths (model_sort column ascending m) = rm_pendingPaths m"
  by (simp add: model_sort_def split: option.splits)

lemma on_results_pending [simp]:
  "rm_pendingPaths (su_model (fold on_results sigs u)) = rm_pendingPaths (su_model u)"
  by (induction sigs arbitrary: u) (auto simp: on_results_def SetEntries_def Let_def split: CoSignal.splits option.splits)

lemma on_line_pending [simp]:
  "rm_pendingPaths (su_model (fold on_line_signal sigs u)) = rm_pendingPaths (su_model u)"
  by (induction sigs arbitrary: u) (auto simp: on_line_signal_def SetEntries_def split: LineSignal.splits)

lemma ui_step_pending: "ui_step env pool u u' \<Longrightarrow> rm_pendingPaths (su_model u') = rm_pendingPaths (su_model u)"
  by (erule ui_step.cases)
    (auto simp: type_text_def debounce_fires_def toggle_options_def Let_def RefreshVisibleResults_def
      coordinator_fires_def gui_delivers_def split: prod.splits)

lemma batch_report:
  assumes "batch_inv w" "w_delivered w < length (sv_events (w_sv w))"
    and ev: "sv_events (w_sv w) ! w_delivered w = EvFileOps r"
  shows "batch_inv (OnFileOperationsFinished r (w\<lparr>w_delivered := w_delivered w + 1\<rparr>))"
proof -
  let ?evs = "sv_events (w_sv w)" and ?B = "w_requested w"
  let ?k = "length (reports (take (w_delivered w) ?evs))"
  note at = reports_at [OF assms(2) ev]
  note mine = report_belongs [OF _ at(1), of ?B]
  have B: "batches (w_sv w) = map (mset \<circ> snd) ?B" using assms(1) by (simp add: batch_inv_def)
  have rest: "drop ?k ?B = ?B ! ?k # drop (Suc ?k) ?B"
    using mine(1) [OF B] by (simp add: Cons_nth_drop_Suc)
  have "mset (fr_succeeded r) + mset (map fst (fr_failed r)) = mset (snd (?B ! ?k))"
    using mine(2) [OF B] at(2) by (simp add: report_paths_def)
  from arg_cong [OF this, of set_mset]
  have paths: "set (fr_succeeded r) \<union> fst ` set (fr_failed r) = set (snd (?B ! ?k))" by simp
  have k': "length (reports (take (Suc (w_delivered w)) ?evs)) = Suc ?k"
    using reports_take_Suc [OF assms(2)] ev by simp
  have mem: "?B ! ?k \<in> set ?B" using mine(1) [OF B] by simp
  have sub: "fst ` set (fr_failed r) \<subseteq> set (snd (?B ! ?k))" using paths by blast
  have verbs: "w_verbs w = fst (?B ! ?k) # map fst (drop (Suc ?k) ?B)"
    using assms(1) rest by (simp add: batch_inv_def outstanding_def)
  have grey: "w_pendingPaths w - set (fr_succeeded r) - fst ` set (fr_failed r) \<subseteq>
      (\<Union>b \<in> set (drop (Suc ?k) ?B). set (snd b))"
    using assms(1) rest paths by (auto simp: batch_inv_def outstanding_def)
  have fails: "\<exists>paths. (fst (?B ! ?k), paths) \<in> set ?B \<and> fst ` set (fr_failed r) \<subseteq> set paths"
    using mem sub by (metis prod.collapse)
  show ?thesis
    using assms(1,2) k' verbs grey fails
    by (auto simp: batch_inv_def outstanding_def OnFileOperationsFinished_def Let_def
        ReportDeletionFailures_def SetPendingPaths_def)
qed

lemma batch_delivered:
  assumes "batch_inv w"
  shows "batch_inv (deliver_event w)"
proof (cases "w_delivered w < length (sv_events (w_sv w))")
  case True
  let ?w = "w\<lparr>w_delivered := w_delivered w + 1\<rparr>"
  let ?ev = "sv_events (w_sv w) ! w_delivered w"
  show ?thesis
  proof (cases "\<exists>r. ?ev = EvFileOps r")
    case True
    with \<open>w_delivered w < _\<close> show ?thesis
      using batch_report [OF assms] by (auto simp: deliver_event_def on_event_def)
  next
    case False
    then have "reports [?ev] = []" by (cases ?ev) auto
    then have "reports (take (Suc (w_delivered w)) (sv_events (w_sv w))) =
        reports (take (w_delivered w) (sv_events (w_sv w)))"
      using reports_take_Suc [OF True] by simp
    then have "batch_inv ?w"
      using assms True by (simp add: batch_inv_def outstanding_def)
    moreover have "batch_view (on_event ?ev ?w) = batch_view ?w"
      using False
      by (cases ?ev) (auto simp: on_event_def batch_view_def handler_defs RefreshVisibleResults_def)
    ultimately show ?thesis using True batch_inv_view by (metis deliver_event_def)
  qed
qed (use assms in \<open>simp add: deliver_event_def\<close>)

lemma batch_requested:
  assumes "batch_inv w" "\<not> sv_fileOpsStopping (w_sv w)"
  shows "batch_inv (RunFileOperations type paths verb w)"
proof -
  let ?sv = "RequestFileOperations (map (\<lambda>p. \<lparr>fo_type = type, fo_path = p\<rparr>) paths) (w_sv w)"
  let ?evs = "sv_events (w_sv w)"
  have ev: "sv_events ?sv = ?evs" by (simp add: RequestFileOperations_def)
  have b: "batches ?sv = batches (w_sv w) @ [mset paths]"
  proof -
    have "map fo_path (map (\<lambda>p. \<lparr>fo_type = type, fo_path = p\<rparr>) paths) = paths" by (simp add: comp_def)
    then show ?thesis using batches_request [OF assms(2)] by metis
  qed
  have "length (reports (take (w_delivered w) ?evs)) \<le> length (reports ?evs)"
  proof -
    have "reports ?evs = reports (take (w_delivered w) ?evs) @ reports (drop (w_delivered w) ?evs)"
      by (metis append_take_drop_id reports_simps(7))
    then show ?thesis by simp
  qed
  moreover have "length (reports ?evs) \<le> length (w_requested w)"
  proof -
    have "length (batches (w_sv w)) = length (w_requested w)" using assms(1) by (simp add: batch_inv_def)
    then show ?thesis by (simp add: batches_def)
  qed
  ultimately show ?thesis
    using assms(1)
    by (auto simp: batch_inv_def outstanding_def RunFileOperations_def Let_def ev b SetPendingPaths_def)
qed

lemma batch_gui:
  assumes "batch_inv w" "\<not> sv_fileOpsStopping (w_sv w)" "gui_step w w'"
  shows "batch_inv w'"
  using assms(3)
proof (cases rule: gui_step.cases)
  case event
  then show ?thesis using batch_delivered [OF assms(1)] by simp
next
  case trash
  then show ?thesis using batch_requested [OF assms(1,2)] by (simp add: TrashPaths_def)
next
  case delete
  then show ?thesis using batch_requested [OF assms(1,2)] assms(1) by (simp add: DeletePaths_def)
qed (auto intro!: iffD2 [OF batch_inv_view assms(1)]
      simp: batch_view_def batches_def request_defs handler_defs RefreshVisibleResults_def
      split: option.splits prod.splits)

lemma window_batches: "window_reachable env w \<Longrightarrow> batch_inv w"
proof (induction rule: window_reachable.induct)
  case (start s)
  show ?case
    by (simp add: batch_inv_def Window_StartIndexing_def new_window_def initial_service_def
        outstanding_def batches_def request_defs ui_start_def)
next
  case (step w w')
  have "\<not> sv_fileOpsStopping (w_sv w)"
    using window_driven [OF step.hyps(1)] by (simp add: driven_def)
  from step.hyps(2) show ?case
  proof (cases rule: window_step_cases)
    case 1
    then show ?thesis using batch_gui [OF step.IH] \<open>\<not> sv_fileOpsStopping (w_sv w)\<close> by blast
  next
    case (2 u)
    then show ?thesis
      using ui_step_pending [OF 2(2)] by (auto intro!: iffD2 [OF batch_inv_view step.IH] simp: batch_view_def)
  next
    case (3 sv)
    then show ?thesis using batch_moves [OF step.IH] by simp
  qed
qed

section \<open>What the window knows of the index\<close>

definition last_busy :: "Event list \<Rightarrow> bool" where
  "last_busy evs \<longleftrightarrow> busy_reports evs \<noteq> [] \<and> last (busy_reports evs)"

definition index_reported :: "Event list \<Rightarrow> bool" where
  "index_reported evs \<longleftrightarrow> (\<exists>change. EvIndexChanged change \<in> set evs)"

definition seen_inv :: "Window \<Rightarrow> bool" where
  "seen_inv w \<longleftrightarrow>
     w_delivered w \<le> length (sv_events (w_sv w)) \<and>
     w_indexBusy w = last_busy (take (w_delivered w) (sv_events (w_sv w))) \<and>
     w_hasIndex w = index_reported (take (w_delivered w) (sv_events (w_sv w)))"

lemma seen_delivered:
  assumes "seen_inv w"
  shows "seen_inv (deliver_event w)"
proof (cases "w_delivered w < length (sv_events (w_sv w))")
  case True
  then show ?thesis
    using assms
    by (cases "sv_events (w_sv w) ! w_delivered w")
      (auto simp: deliver_event_def on_event_def handler_defs seen_inv_def last_busy_def
        index_reported_def take_Suc_conv_app_nth)
qed (use assms in \<open>simp add: deliver_event_def\<close>)

lemma seen_gui:
  assumes "seen_inv w" "gui_step w w'"
  shows "seen_inv w'"
  using assms(2)
proof (cases rule: gui_step.cases)
  case event
  then show ?thesis using seen_delivered [OF assms(1)] by simp
qed (use assms(1) in \<open>auto simp: seen_inv_def request_defs handler_defs split: option.splits prod.splits\<close>)

lemma window_seen: "window_reachable env w \<Longrightarrow> seen_inv w"
proof (induction rule: window_reachable.induct)
  case (start s)
  show ?case
    by (simp add: seen_inv_def Window_StartIndexing_def new_window_def initial_service_def
        request_defs last_busy_def index_reported_def)
next
  case (step w w')
  from step.hyps(2) show ?case
  proof (cases rule: window_step_cases)
    case (3 sv)
    obtain evs where "sv_events sv = sv_events (w_sv w) @ evs" using moves_events [OF 3(2)] by blast
    then show ?thesis using step.IH 3(1) by (simp add: seen_inv_def)
  qed (use step.IH seen_gui [of w w'] in \<open>auto simp: seen_inv_def\<close>)
qed

lemma alternating_last: "alternating b bs \<Longrightarrow> (bs \<noteq> [] \<and> last bs) = b"
  by (erule alternating.cases) auto

section \<open>Local monitoring under the helper\<close>

text \<open>Whether monitoring is stopped once the commands have run, given whether it is now.\<close>

fun quiet_after :: "bool \<Rightarrow> Command list \<Rightarrow> bool" where
  "quiet_after q [] = q"
| "quiet_after q (CmdStopMonitoring # cs) = quiet_after True cs"
| "quiet_after q (CmdReload # cs) = quiet_after q cs"
| "quiet_after q (CmdFlush # cs) = quiet_after q cs"
| "quiet_after q (c # cs) = quiet_after False cs"

lemma quiet_after_mono: "quiet_after q cs \<Longrightarrow> quiet_after True cs"
  by (induction q cs rule: quiet_after.induct) auto

lemma quiet_after_append: "quiet_after q (xs @ ys) = quiet_after (quiet_after q xs) ys"
  by (induction q xs rule: quiet_after.induct) auto

lemma quiet_after_scan: "token_of c \<noteq> None \<Longrightarrow> quiet_after q (c # cs) = quiet_after False cs"
  by (cases c) auto

definition goes_quiet :: "Service \<Rightarrow> bool" where
  "goes_quiet sv \<longleftrightarrow>
     quiet_after (sv_monitoring sv = None)
       (worker_commands (sv_worker sv) @ sv_commands sv @ client_commands (sv_client sv))"

lemma quiet_none: "quiet_after b cs \<Longrightarrow> (b \<Longrightarrow> c) \<Longrightarrow> quiet_after c cs"
  using quiet_after_mono by (cases b; cases c) auto

text \<open>What a worker inside a command holds is a scan.\<close>

definition scans :: "Worker \<Rightarrow> bool" where
  "scans x \<longleftrightarrow> (case x of WPopped c \<Rightarrow> True | _ \<Rightarrow> \<forall>c \<in> set (worker_commands x). token_of c \<noteq> None)"

lemma scans_worker: "scans (sv_worker sv) \<Longrightarrow> worker_step True sv l sv' \<Longrightarrow> scans (sv_worker sv')"
  by (erule worker_stepE) (auto simp: scans_def StopMonitoring_def)

lemma scans_reachable: "reachable True sv \<Longrightarrow> scans (sv_worker sv)"
proof (rule reachable_invariant [of True sv "\<lambda>sv. scans (sv_worker sv)"])
  fix sv sv' assume "scans (sv_worker sv)" "client_step sv sv'"
  then show "scans (sv_worker sv')" by (elim client_stepE) (auto simp: request_defs)
next
  fix sv l sv' assume "scans (sv_worker sv)" "file_step sv l sv'"
  then show "scans (sv_worker sv')" by (elim file_stepE) auto
next
  fix sv l sv' assume "scans (sv_worker sv)" "monitor_step sv l sv'"
  then show "scans (sv_worker sv')" by (elim monitor_stepE) auto
qed (simp_all add: scans_worker, simp add: scans_def initial_service_def)

lemma quiet_worker:
  assumes "worker_step True sv l sv'" "goes_quiet sv" "scans (sv_worker sv)"
  shows "goes_quiet sv'"
  using assms(1)
proof (cases rule: worker_step.cases)
  case (finish_done c completed any nowNs)
  with assms(3) have "token_of c \<noteq> None" by (simp add: scans_def)
  with finish_done assms(2) have "quiet_after False (sv_commands sv @ client_commands (sv_client sv))"
    by (simp add: goes_quiet_def quiet_after_scan)
  with finish_done show ?thesis by (auto simp: goes_quiet_def intro: quiet_none)
next
  case (superseded c)
  with assms(2) have "quiet_after False (sv_commands sv @ client_commands (sv_client sv))"
    by (simp add: goes_quiet_def quiet_after_scan)
  with superseded show ?thesis by (auto simp: goes_quiet_def intro: quiet_none)
next
  case (start c)
  with assms(2) show ?thesis by (simp add: goes_quiet_def quiet_after_scan)
qed (use assms(2) in \<open>auto simp: goes_quiet_def StopMonitoring_def\<close>)

lemma quiet_moves:
  assumes "service_moves sv sv'" "goes_quiet sv" "reachable True sv" "\<not> sv_shuttingDown sv"
  shows "goes_quiet sv'"
  using assms(1)
proof (cases rule: service_moves.cases)
  case (worker l)
  then show ?thesis using quiet_worker assms(2) scans_reachable [OF assms(3)] by blast
qed (use assms(2,4) in \<open>auto simp: goes_quiet_def Enqueue_def elim!: file_stepE monitor_stepE\<close>)

lemma quiet_gui:
  assumes "gui_step w w'" "sv_client (w_sv w) = CIdle" "w_elevated w \<longrightarrow> goes_quiet (w_sv w)" "w_elevated w'"
  shows "goes_quiet (w_sv w')"
proof -
  have stop: "goes_quiet (RequestStopLocalIndexing (w_sv w))"
    by (simp add: goes_quiet_def request_defs quiet_after_append)
  have reload: "goes_quiet (RequestReload (w_sv w))" if "goes_quiet (w_sv w)"
    using that assms(2) by (auto simp: goes_quiet_def request_defs quiet_after_append)
  have ops: "goes_quiet (RequestFileOperations ops (w_sv w))" if "goes_quiet (w_sv w)" for ops
    using that by (simp add: goes_quiet_def request_defs)
  show ?thesis
    using assms(1,3,4) stop reload ops
    by (cases rule: gui_step.cases)
      (auto simp: handler_defs split: option.splits prod.splits if_splits)
qed

lemma window_quiet: "window_reachable env w \<Longrightarrow> w_elevated w \<longrightarrow> goes_quiet (w_sv w)"
proof (induction rule: window_reachable.induct)
  case (start s)
  show ?case by (simp add: Window_StartIndexing_def new_window_def)
next
  case (step w w')
  have "driven (w_sv w)" by (rule window_driven [OF step.hyps(1)])
  with step.hyps(2) show ?case
    by (cases rule: window_step_cases)
      (use step.IH quiet_gui [of w w'] quiet_moves in \<open>auto simp: driven_def\<close>)
qed

section \<open>Properties\<close>

text \<open>The service has nothing to do and nothing being asked.\<close>

definition service_idle :: "Service \<Rightarrow> bool" where
  "service_idle sv \<longleftrightarrow> sv_worker sv = WWait \<and> sv_commands sv = [] \<and> sv_client sv = CIdle \<and>
     sv_filePc sv = FWait \<and> sv_fileOpJobs sv = []"

text \<open>C34: Once the service is idle and the window has handled all its callbacks, the search box is
  enabled exactly when an index has been reported, no deletion is pending, and no row is grey:
  the window never stays busy, and never lets the user search before there is an index.\<close>

theorem window_settles:
  assumes "window_reachable env w" "service_idle (w_sv w)"
    and "w_delivered w = length (sv_events (w_sv w))"
  shows "w_searchEnabled w = index_reported (sv_events (w_sv w)) \<and> w_verbs w = [] \<and>
    w_pendingPaths w = {} \<and> IsPending row (su_model (w_ui w)) = Some False"
proof -
  let ?sv = "w_sv w"
  have "busy_inv ?sv" "\<not> sv_shuttingDown ?sv"
    using window_driven [OF assms(1)] busy_reachable by (auto simp: driven_def)
  then have "\<not> last_busy (sv_events ?sv)"
    using assms(2) alternating_last
    by (fastforce simp: busy_inv_def owed_def service_idle_def last_busy_def)
  then have enabled: "w_searchEnabled w = index_reported (sv_events ?sv)"
    using window_flags [OF assms(1)] window_seen [OF assms(1)] assms(3)
    by (simp add: flags_inv_def seen_inv_def)
  have inv: "batch_inv w" by (rule window_batches [OF assms(1)])
  have "length (w_requested w) = length (batches ?sv)" using inv by (simp add: batch_inv_def)
  then have "outstanding w = []"
    using assms(2,3) by (simp add: batches_def service_idle_def outstanding_def)
  with inv enabled show ?thesis by (simp add: batch_inv_def IsPending_def)
qed

text \<open>C38: Deletions are accounted for: the window keeps one verb for every batch it asked for and has
  not reported, in their order; only paths of such batches are shown grey; and every failure
  report names the verb of the batch its paths were in.\<close>

theorem deletions_accounted:
  assumes "window_reachable env w"
  shows "w_verbs w = map fst (outstanding w) \<and>
    rm_pendingPaths (su_model (w_ui w)) \<subseteq> (\<Union>b \<in> set (outstanding w). set (snd b)) \<and>
    (\<forall>(verb, failed) \<in> set (w_failures w).
      \<exists>paths. (verb, paths) \<in> set (w_requested w) \<and> fst ` set failed \<subseteq> set paths)"
  using window_batches [OF assms] by (auto simp: batch_inv_def)

text \<open>C37: While a helper runs, the window's own monitors are off as soon as the service is idle: no
  command it still had can have left or turned them on.\<close>

theorem helper_ends_local_monitoring:
  assumes "window_reachable env w" "w_elevated w" "service_idle (w_sv w)"
  shows "sv_monitoring (w_sv w) = None \<and> w_helper w = HelperRunning \<and> w_indexWatcher w"
  using window_quiet [OF assms(1)] window_flags [OF assms(1)] assms(2,3)
  by (simp add: goes_quiet_def service_idle_def flags_inv_def)


section \<open>Runs\<close>

text \<open>Some settings, and the service while it works on the first request of the window.\<close>

definition sample_settings :: Settings where
  "sample_settings = new_Settings [] []"

definition first_request :: Command where
  "first_request = CmdIndexing False (CurrentScanOptions sample_settings) (staleSeconds sample_settings) True 0"

definition first_service ::
  "Command list \<Rightarrow> Client \<Rightarrow> Worker \<Rightarrow> bool \<Rightarrow> bool \<Rightarrow> string list option \<Rightarrow> Event list \<Rightarrow> Service" where
  "first_service cs cl x scanning busy mon evs =
     (initial_service empty_store)\<lparr>sv_scanCancels := [0], sv_nextToken := 1, sv_commands := cs,
       sv_client := cl, sv_worker := x, sv_scanRunning := scanning,
       sv_pendingBusy := (if cl = CIdle \<and> x = WWait \<and> cs = [] then 0 else 1),
       sv_busyReported := busy, sv_monitoring := mon, sv_events := evs\<rparr>"

definition first_window :: "Service \<Rightarrow> Window" where
  "first_window sv = (new_window sample_settings empty_store)\<lparr>w_sv := sv\<rparr>"

definition loaded_change :: IndexChange where
  "loaded_change = \<lparr>ic_kind = Built, ic_entryCount = 0, ic_indexAgeSeconds = 0\<rparr>"

lemmas first_defs = first_service_def initial_service_def first_request_def

lemma first_worker:
  "window_reachable env (first_window sv) \<Longrightarrow> worker_step True sv l sv' \<Longrightarrow>
   window_reachable env (first_window sv')"
  using window_reachable.step [OF _ window_step.worker, of env "first_window sv" l sv']
  by (simp add: first_window_def)

lemma first_asked: "window_reachable env (first_window (first_service [first_request] CIdle WWait False False None []))"
proof -
  have "window_reachable env (Window_StartIndexing False (new_window sample_settings empty_store))"
    by (rule window_reachable.start)
  also have "Window_StartIndexing False (new_window sample_settings empty_store) =
      first_window (first_service [] (CEnqueue first_request) WWait False False None [])"
    by (simp add: Window_StartIndexing_def first_window_def new_window_def first_defs
        RequestIndexing_def register_scan_def)
  finally have asked: "window_reachable env
      (first_window (first_service [] (CEnqueue first_request) WWait False False None []))" .
  have "window_step env (first_window (first_service [] (CEnqueue first_request) WWait False False None []))
      (first_window (first_service [first_request] CIdle WWait False False None []))"
    using window_step.request [of "first_window (first_service [] (CEnqueue first_request) WWait False False None [])"
        first_request env]
    by (simp add: first_window_def first_defs Enqueue_def)
  with asked show ?thesis by (rule window_reachable.step)
qed

lemma first_started:
  "window_reachable env (first_window (first_service [] CIdle (WStarted first_request) True True None [EvBusy True]))"
proof -
  have "worker_step True (first_service [first_request] CIdle WWait False False None []) Tau
      (first_service [] CIdle (WPopped first_request) False False None [])"
    using worker_step.pop [of "first_service [first_request] CIdle WWait False False None []" first_request "[]" True]
    by (simp add: first_defs)
  from first_worker [OF first_asked this]
  have popped: "window_reachable env (first_window (first_service [] CIdle (WPopped first_request) False False None []))" .
  have "worker_step True (first_service [] CIdle (WPopped first_request) False False None []) ScanStart
      (first_service [] CIdle (WStarted first_request) True True None [EvBusy True])"
    using worker_step.start [of "first_service [] CIdle (WPopped first_request) False False None []" first_request True]
    by (simp add: first_defs is_cancelled_def begin_scan_def StopMonitoring_def BeginBusy_def emit_def)
  from first_worker [OF popped this] show ?thesis .
qed

lemma first_indexed:
  "window_reachable env (first_window (first_service [] CIdle WWait False False (Some [])
     [EvBusy True, EvIndexChanged loaded_change, EvBusy False]))"
proof -
  let ?l = "\<lparr>lr_success = True, lr_pool = empty_pool, lr_buildTimestampNs = 0, lr_lastMonitorStopNs = 0\<rparr>"
  let ?sv = "\<lambda>x scanning. first_service [] CIdle x scanning True None [EvBusy True]"
  have "worker_step True (?sv (WStarted first_request) True) (LoadedPaths (set (pool_paths empty_pool)))
      (?sv (WScanned first_request True) True)"
    using worker_step.load [of "?sv (WStarted first_request) True" _ _ _ _ ?l 0 True]
    by (simp add: first_defs fresh_load_def load_into_def LoadPool_def empty_store_def age_seconds_def
        pool_paths_def empty_pool_inv live_entries_def)
  note a = first_worker [OF first_started this]
  have "worker_step True (?sv (WScanned first_request True) True) Tau
      (?sv (WRemoving first_request True False []) False)"
    using worker_step.finish_take [of "?sv (WScanned first_request True) True" first_request True True]
    by (simp add: first_defs)
  note b = first_worker [OF a this]
  have "worker_step True (?sv (WRemoving first_request True False []) False) Tau
      (first_service [] CIdle WEndBusy False True (Some []) [EvBusy True, EvIndexChanged loaded_change])"
    using worker_step.finish_done [of "?sv (WRemoving first_request True False []) False" first_request
        True False True 0]
    by (simp add: first_defs after_finish_def ReportIndexChanged_def emit_def StartMonitoring_def
        StopMonitoring_def loaded_change_def live_count_def empty_store_def GetIndexAgeSeconds_def
        empty_pool_def CurrentScanOptions_def sample_settings_def new_Settings_def)
  note c = first_worker [OF b this]
  have "worker_step True
      (first_service [] CIdle WEndBusy False True (Some []) [EvBusy True, EvIndexChanged loaded_change]) Tau
      (first_service [] CIdle WWait False False (Some []) [EvBusy True, EvIndexChanged loaded_change, EvBusy False])"
    using worker_step.end_busy [of "first_service [] CIdle WEndBusy False True (Some [])
        [EvBusy True, EvIndexChanged loaded_change]" True]
    by (simp add: first_defs EndBusy_def emit_def)
  from first_worker [OF c this] show ?thesis .
qed

lemma gui_reachable:
  "window_reachable env w \<Longrightarrow> gui_step w w' \<Longrightarrow> sv_client (w_sv w) = CIdle \<Longrightarrow> window_reachable env w'"
  by (erule window_reachable.step) (rule window_step.gui)

text \<open>The window after it has handled the callbacks of its first request.\<close>

definition indexed_window :: Window where
  "indexed_window = deliver_event (deliver_event (deliver_event
     (first_window (first_service [] CIdle WWait False False (Some [])
       [EvBusy True, EvIndexChanged loaded_change, EvBusy False]))))"

lemma indexed_reachable: "window_reachable env indexed_window"
  unfolding indexed_window_def
  by (intro gui_reachable [OF _ gui_step.event] first_indexed)
    (simp_all add: first_window_def first_defs)

lemma indexed_service:
  "w_sv indexed_window = first_service [] CIdle WWait False False (Some [])
     [EvBusy True, EvIndexChanged loaded_change, EvBusy False]"
  "w_delivered indexed_window = 3"
  by (simp_all add: indexed_window_def deliver_event_def on_event_def first_window_def first_defs
      handler_defs new_window_def RefreshVisibleResults_def ui_start_def)

theorem window_settles_witness: "w_searchEnabled indexed_window \<and> w_verbs indexed_window = []"
proof -
  have "service_idle (w_sv indexed_window)"
    "w_delivered indexed_window = length (sv_events (w_sv indexed_window))"
    "index_reported (sv_events (w_sv indexed_window))"
    by (simp_all add: indexed_service service_idle_def first_defs index_reported_def)
  then show ?thesis
    using window_settles [OF indexed_reachable] by blast
qed

text \<open>A file moved to the trash from there, its report still to come.\<close>

theorem deletions_accounted_witness:
  "w_verbs (TrashPaths [''/a''] indexed_window) =
     map fst (outstanding (TrashPaths [''/a''] indexed_window)) \<and>
   outstanding (TrashPaths [''/a''] indexed_window) = [(''move to Trash'', [''/a''])]"
proof -
  have "window_reachable undefined (TrashPaths [''/a''] indexed_window)"
    by (rule gui_reachable [OF indexed_reachable gui_step.trash])
      (simp add: indexed_service first_defs)
  from deletions_accounted [OF this] show ?thesis
    by (simp add: outstanding_def TrashPaths_def RunFileOperations_def Let_def RequestFileOperations_def
        indexed_service first_defs verb_of_def)
      (simp add: indexed_window_def deliver_event_def on_event_def first_window_def first_defs
        handler_defs new_window_def RefreshVisibleResults_def ui_start_def)
qed

text \<open>The helper is started, and the local monitors are stopped.\<close>

definition quiet_service :: "Command list \<Rightarrow> Client \<Rightarrow> Worker \<Rightarrow> string list option \<Rightarrow> Service" where
  "quiet_service cs cl x mon = (w_sv indexed_window)\<lparr>sv_scanCancels := [], sv_cancelled := {0},
     sv_commands := cs, sv_client := cl, sv_worker := x, sv_monitoring := mon\<rparr>"

definition helper_window :: "Service \<Rightarrow> Window" where
  "helper_window sv =
     (OnHelperStarted ((ElevateForFullAccess indexed_window)\<lparr>w_helper := HelperRunning\<rparr>))\<lparr>w_sv := sv\<rparr>"

lemma indexed_flags:
  "w_elevated indexed_window = False" "w_helper indexed_window = NoHelper"
  "sv_client (w_sv indexed_window) = CIdle"
  using window_flags [OF indexed_reachable]
  by (simp_all add: indexed_window_def deliver_event_def on_event_def first_window_def first_defs
      handler_defs new_window_def RefreshVisibleResults_def ui_start_def)

lemma helper_worker:
  "window_reachable env (helper_window sv) \<Longrightarrow> worker_step True sv l sv' \<Longrightarrow>
   window_reachable env (helper_window sv')"
  using window_reachable.step [OF _ window_step.worker, of env "helper_window sv" l sv']
  by (simp add: helper_window_def)

lemma helper_reachable: "window_reachable env (helper_window (quiet_service [] CIdle WWait None))"
proof -
  let ?w = "ElevateForFullAccess indexed_window"
  have "window_reachable env ?w"
    by (rule gui_reachable [OF indexed_reachable gui_step.elevate]) (rule indexed_flags)
  moreover have "w_helper ?w = HelperStarting" "sv_client (w_sv ?w) = CIdle"
    by (simp_all add: ElevateForFullAccess_def indexed_flags)
  ultimately have "window_reachable env (OnHelperStarted (?w\<lparr>w_helper := HelperRunning\<rparr>))"
    by (intro gui_reachable [OF _ gui_step.helper_started])
  also have "OnHelperStarted (?w\<lparr>w_helper := HelperRunning\<rparr>) =
      helper_window (quiet_service [] (CEnqueue CmdStopMonitoring) WWait (Some []))"
    by (simp add: helper_window_def OnHelperStarted_def showMessage_def Let_def quiet_service_def
        request_defs ElevateForFullAccess_def indexed_flags indexed_service first_defs)
  finally have asked: "window_reachable env
      (helper_window (quiet_service [] (CEnqueue CmdStopMonitoring) WWait (Some [])))" .
  have "window_step env (helper_window (quiet_service [] (CEnqueue CmdStopMonitoring) WWait (Some [])))
      (helper_window (quiet_service [CmdStopMonitoring] CIdle WWait (Some [])))"
    using window_step.request [of "helper_window (quiet_service [] (CEnqueue CmdStopMonitoring) WWait (Some []))"
        CmdStopMonitoring env]
    by (simp add: helper_window_def quiet_service_def Enqueue_def indexed_service first_defs)
  with asked have queued: "window_reachable env (helper_window (quiet_service [CmdStopMonitoring] CIdle WWait (Some [])))"
    by (rule window_reachable.step)
  have "worker_step True (quiet_service [CmdStopMonitoring] CIdle WWait (Some [])) Tau
      (quiet_service [] CIdle (WPopped CmdStopMonitoring) (Some []))"
    using worker_step.pop [of "quiet_service [CmdStopMonitoring] CIdle WWait (Some [])" CmdStopMonitoring "[]" True]
    by (simp add: quiet_service_def indexed_service first_defs)
  note popped = helper_worker [OF queued this]
  have "worker_step True (quiet_service [] CIdle (WPopped CmdStopMonitoring) (Some [])) Tau
      (quiet_service [] CIdle WWait None)"
    using worker_step.stop_monitoring [of "quiet_service [] CIdle (WPopped CmdStopMonitoring) (Some [])" True]
    by (simp add: quiet_service_def indexed_service first_defs StopMonitoring_def)
  from helper_worker [OF popped this] show ?thesis .
qed

lemma helper_window_fields:
  "w_elevated (helper_window sv)" "w_helper (helper_window sv) = HelperRunning" "w_sv (helper_window sv) = sv"
  by (simp_all add: helper_window_def OnHelperStarted_def showMessage_def Let_def ElevateForFullAccess_def
      indexed_flags)

theorem helper_ends_local_monitoring_witness:
  "sv_monitoring (w_sv (helper_window (quiet_service [] CIdle WWait None))) = None"
proof -
  have "service_idle (w_sv (helper_window (quiet_service [] CIdle WWait None)))"
    by (simp add: helper_window_fields service_idle_def quiet_service_def indexed_service first_defs)
  from helper_ends_local_monitoring [OF helper_reachable helper_window_fields(1) this] show ?thesis by simp
qed


end
