(* ===== verification/Window_Freshness.thy ===== *)
theory Window_Freshness
  imports Window_Invariants
begin

text \<open>
  The result table against the index it stands for, across the search interface, the window and
  the index service: every change of the live index is reported sooner or later, every report
  leads to a new search, and only a search that began afterwards is shown. So when everything has
  come to rest, the table holds the answer of the present index.
\<close>

section \<open>Every change of the index is reported\<close>

definition announces :: "Event list \<Rightarrow> bool" where
  "announces evs \<longleftrightarrow> (\<exists>ev \<in> set evs. ev = EvLiveChange \<or> (\<exists>change. ev = EvIndexChanged change))"

lemma announces_simps [simp]:
  "\<not> announces []" "announces (EvLiveChange # evs)" "announces (EvIndexChanged change # evs)"
  "announces (EvBusy b # evs) = announces evs" "announces (EvFileOps r # evs) = announces evs"
  "announces (EvSave bytes # evs) = announces evs"
  "announces (evs @ evs') = (announces evs \<or> announces evs')"
  by (auto simp: announces_def)

fun removed_some :: "FilePc \<Rightarrow> bool" where
  "removed_some FWait = False"
| "removed_some (FOps ops r) = (fr_succeeded r \<noteq> [])"
| "removed_some (FRan path ops r) = (fr_succeeded r \<noteq> [])"
| "removed_some (FRecorded path ops r) = (fr_succeeded r \<noteq> [])"

fun changed_some :: "Worker \<Rightarrow> bool" where
  "changed_some (WScan c AddPaths) = True"
| "changed_some (WPurge c ps) = True"
| "changed_some (WStamp c) = True"
| "changed_some (WSave c nowNs) = True"
| "changed_some (WScanned c completed) = True"
| "changed_some (WRemoving c completed any ps) = True"
| "changed_some _ = False"

text \<open>The service may have changed the index since it last said so.\<close>

definition owes_report :: "Service \<Rightarrow> bool" where
  "owes_report sv \<longleftrightarrow> changed_some (sv_worker sv) \<or> removed_some (sv_filePc sv) \<or> sv_needsFullRebuild sv"

definition index_of :: "Service \<Rightarrow> IndexPool" where
  "index_of sv = is_pool (sv_store sv)"

lemma unchanged_event:
  "ApplyChangeEvent scanner ev s = Some (t, False) \<Longrightarrow> t = s"
  by (auto simp: ApplyChangeEvent_def Let_def split: FileChangeType.splits Option.bind_splits if_splits)

lemma index_fields [simp]:
  "is_pool (BeginWrite s) = is_pool s" "is_pool (AbortWrite s) = is_pool s"
  "is_pool (SetBuildTimestamp s ns) = is_pool s" "is_pool (StageEntry s e) = is_pool s"
  by (simp_all add: BeginWrite_def AbortWrite_def SetBuildTimestamp_def StageEntry_def)

lemma worker_reports:
  assumes "worker_step True sv l sv'" "owes_report sv \<or> index_of sv' \<noteq> index_of sv"
  shows "owes_report sv' \<or> announces (drop (length (sv_events sv)) (sv_events sv'))"
  using assms
proof (cases rule: worker_step.cases)
  case (finish_done c completed any nowNs)
  then show ?thesis
    by (cases completed)
      (auto simp: owes_report_def after_finish_def Let_def ReportIndexChanged_def StartMonitoring_def
        StopMonitoring_def)
next
  case (reload_ok loaded nowNs)
  then show ?thesis by (simp add: ReportIndexChanged_def)
qed (auto simp: owes_report_def index_of_def StopMonitoring_def)

lemma file_reports:
  assumes "file_step sv l sv'" "owes_report sv \<or> index_of sv' \<noteq> index_of sv"
  shows "owes_report sv' \<or> announces (drop (length (sv_events sv)) (sv_events sv'))"
  using assms
proof (cases rule: file_step.cases)
  case (batch_done r nowNs)
  then show ?thesis
    using assms(2)
    by (auto simp: owes_report_def index_of_def finish_batch_def Let_def ReportIndexChanged_def)
qed (auto simp: owes_report_def index_of_def failed_op_def)

lemma monitor_reports:
  assumes "monitor_step sv l sv'" "owes_report sv \<or> index_of sv' \<noteq> index_of sv"
  shows "owes_report sv' \<or> announces (drop (length (sv_events sv)) (sv_events sv'))"
  using assms(1)
proof (cases rule: monitor_step.cases)
  case (live roots scanner ev s changed)
  then show ?thesis
    using assms(2) unchanged_event by (cases changed) (auto simp: owes_report_def index_of_def)
qed

lemma moves_report:
  assumes "service_moves sv sv'" "owes_report sv \<or> index_of sv' \<noteq> index_of sv"
  shows "owes_report sv' \<or> announces (drop (length (sv_events sv)) (sv_events sv'))"
  using assms(1)
proof (cases rule: service_moves.cases)
  case (request c)
  then show ?thesis
    using assms(2) by (auto simp: owes_report_def index_of_def Enqueue_def split: if_splits)
qed (use assms(2) worker_reports file_reports monitor_reports in blast)+

section \<open>A new search after every report\<close>

definition timed :: "SearchUi \<Rightarrow> bool" where
  "timed u \<longleftrightarrow> le_timer (su_line u) \<or> co_timer (su_co u)"

lemma timed_on_results [simp]: "timed (fold on_results sigs u) = timed u"
  by (induction sigs arbitrary: u) (auto simp: on_results_def timed_def Let_def split: CoSignal.splits option.splits)

text \<open>While a timer runs, a step leaves one running or starts the search that cancels all others.\<close>

lemma timed_step:
  assumes "ui_step env pool u u'" "timed u" "ui_inv env Q u"
  shows "timed u' \<or> ui_inv env Q' u'"
  using assms(1)
proof (cases rule: ui_step.cases)
  case (typed text')
  then show ?thesis
    using assms(2,3)
    by (cases "length text' < 2")
      (auto simp: type_text_def OnTextChanged_def kMinQueryLength_def Let_def on_line_signal_def
        SetQuery_def timed_def ui_inv_def line_inv_def)
next
  case debounced
  then show ?thesis
    by (simp add: debounce_fires_def OnDebounceTimeout_def on_line_signal_def SetQuery_def timed_def)
next
  case fired
  then show ?thesis using ui_inv_fired [OF assms(3)] by blast
next
  case (posted i w)
  then show ?thesis
    using assms(2) by (auto simp: timed_def worker_post_def Let_def split: WorkerPhase.splits)
next
  case delivered
  have "co_timer (fst (deliver_results c)) = co_timer c" for c
    by (auto simp: deliver_results_def split: list.splits)
  then show ?thesis
    using delivered assms(2) by (simp add: gui_delivers_def split: prod.splits) (simp add: timed_def, metis fst_conv)
qed (use assms(2) in \<open>auto simp: timed_def toggle_options_def RefreshVisibleResults_def Let_def SetQuery_def SetOptions_def\<close>)

text \<open>With fewer than two characters in the box there is nothing to show.\<close>

lemma short_text_fresh:
  assumes "ui_inv env Q u" "length (le_text (su_line u)) < 2" "\<not> timed u"
  shows "ui_inv env Q' u"
proof -
  have none: "co_current (su_co u) = None"
    using assms by (auto simp: ui_inv_def timed_def asked_def split: if_splits)
  then have "co_inv env Q' (su_co u)"
    using assms(1) by (auto simp: ui_inv_def co_inv_def worker_ok_def posted_ok_def)
  with none show ?thesis using assms(1,2) by (simp add: ui_inv_def)
qed

lemma refreshed_timed: "timed (RefreshVisibleResults u) \<or> length (le_text (su_line (RefreshVisibleResults u))) < 2"
  by (simp add: RefreshVisibleResults_def SetQuery_def timed_def)

text \<open>The message and the grey rows do not matter.\<close>

definition ui_core :: "SearchUi \<Rightarrow> LineEdit \<times> Coordinator \<times> DisplayEntry list" where
  "ui_core u = (su_line u, su_co u, rm_entries (su_model u))"

lemma ui_core_inv: "ui_core u' = ui_core u \<Longrightarrow> ui_inv env Q u' = ui_inv env Q u" "ui_core u' = ui_core u \<Longrightarrow> timed u' = timed u"
  by (simp_all add: ui_core_def ui_inv_def table_shows_def timed_def)

section \<open>The table is fresh or will be\<close>

definition undelivered :: "Window \<Rightarrow> Event list" where
  "undelivered w = drop (w_delivered w) (sv_events (w_sv w))"

definition disturbed :: "Window \<Rightarrow> bool" where
  "disturbed w \<longleftrightarrow> announces (undelivered w) \<or> owes_report (w_sv w) \<or> w_liveRefresh w \<or> timed (w_ui w)"

definition fresh :: "'re UiEnv \<Rightarrow> Window \<Rightarrow> bool" where
  "fresh env w \<longleftrightarrow> ui_inv env (\<lambda>p. p = index_of (w_sv w)) (w_ui w)"

definition fresh_inv :: "'re UiEnv \<Rightarrow> Window \<Rightarrow> bool" where
  "fresh_inv env w \<longleftrightarrow> ui_inv env (\<lambda>p. True) (w_ui w) \<and> (disturbed w \<or> fresh env w)"

lemma fresh_moves:
  assumes "fresh_inv env w" "service_moves (w_sv w) sv" "w_delivered w \<le> length (sv_events (w_sv w))"
  shows "fresh_inv env (w\<lparr>w_sv := sv\<rparr>)"
proof -
  obtain evs where evs: "sv_events sv = sv_events (w_sv w) @ evs" using moves_events [OF assms(2)] by blast
  then have "undelivered (w\<lparr>w_sv := sv\<rparr>) = undelivered w @ evs"
    using assms(3) by (simp add: undelivered_def)
  then show ?thesis
    using assms(1) moves_report [OF assms(2)] evs
    by (cases "index_of sv = index_of (w_sv w)") (auto simp: fresh_inv_def disturbed_def fresh_def)
qed

lemma fresh_search:
  assumes "fresh_inv env w" "ui_step env (index_of (w_sv w)) (w_ui w) u"
  shows "fresh_inv env (w\<lparr>w_ui := u\<rparr>)"
proof -
  have "ui_inv env (\<lambda>p. True) u" using assms ui_inv_step by (fastforce simp: fresh_inv_def)
  moreover have "timed u \<or> ui_inv env (\<lambda>p. p = index_of (w_sv w)) u" if "timed (w_ui w)"
    using timed_step [OF assms(2) that] assms(1) by (auto simp: fresh_inv_def)
  moreover have "ui_inv env (\<lambda>p. p = index_of (w_sv w)) u" if "fresh env w"
    using ui_inv_step [OF assms(2)] that by (simp add: fresh_def)
  ultimately show ?thesis
    using assms(1) by (auto simp: fresh_inv_def disturbed_def undelivered_def fresh_def)
qed

lemma asks_frame:
  "asks sv sv' \<Longrightarrow> sv_events sv' = sv_events sv \<and> index_of sv' = index_of sv \<and> owes_report sv' = owes_report sv"
  by (erule asksE) (simp_all add: request_defs index_of_def owes_report_def)

text \<open>Handlers that only talk, ask the service, or mark rows leave the search alone.\<close>

definition plain :: "Window \<Rightarrow> Window \<Rightarrow> bool" where
  "plain w w' \<longleftrightarrow> ui_core (w_ui w') = ui_core (w_ui w) \<and> w_delivered w' = w_delivered w \<and>
     w_liveRefresh w' = w_liveRefresh w"

lemma gui_step_plain:
  assumes "gui_step w w'"
  shows "w' = deliver_event w \<or> w_liveRefresh w \<and> w' = Window_RefreshVisibleResults (w\<lparr>w_liveRefresh := False\<rparr>) \<or>
    plain w w'"
  using assms
  by (cases rule: gui_step.cases)
    (auto simp: plain_def ui_core_def handler_defs SetPendingPaths_def split: option.splits prod.splits)

lemma fresh_plain:
  assumes "fresh_inv env w" "plain w w'" "asks (w_sv w) (w_sv w')"
  shows "fresh_inv env w'"
  using assms(1,2) asks_frame [OF assms(3)]
  by (simp add: fresh_inv_def disturbed_def undelivered_def fresh_def plain_def
      ui_core_inv [of "w_ui w'" "w_ui w"])

lemma fresh_refreshed:
  assumes "ui_inv env (\<lambda>p. True) (w_ui w)"
  shows "fresh_inv env (Window_RefreshVisibleResults w)"
proof -
  let ?u = "RefreshVisibleResults (w_ui w)"
  have "ui_inv env (\<lambda>p. True) ?u" using assms by (rule ui_inv_refreshed)
  then show ?thesis
    using refreshed_timed [of "w_ui w"] short_text_fresh [of env _ ?u]
    by (auto simp: fresh_inv_def disturbed_def fresh_def Window_RefreshVisibleResults_def)
qed

lemma fresh_delivered:
  assumes "fresh_inv env w"
  shows "fresh_inv env (deliver_event w)"
proof (cases "w_delivered w < length (sv_events (w_sv w))")
  case True
  let ?w = "w\<lparr>w_delivered := w_delivered w + 1\<rparr>"
  let ?ev = "sv_events (w_sv w) ! w_delivered w"
  have und: "undelivered w = ?ev # undelivered ?w"
    using True by (simp add: undelivered_def Cons_nth_drop_Suc)
  have inv: "ui_inv env (\<lambda>p. True) (w_ui w)" using assms by (simp add: fresh_inv_def)
  show ?thesis
  proof (cases "announces [?ev]")
    case told: True
    then consider "?ev = EvLiveChange" | change where "?ev = EvIndexChanged change"
      by (auto simp: announces_def)
    then show ?thesis
    proof cases
      case 1
      then show ?thesis
        using True inv by (simp add: deliver_event_def on_event_def fresh_inv_def disturbed_def)
    next
      case (2 change)
      have "\<exists>v. deliver_event w = Window_RefreshVisibleResults v \<and> w_ui v = w_ui w"
        using True 2 by (auto simp: deliver_event_def on_event_def OnIndexChanged_def Let_def
            UpdateIdleStatus_def SetSearchUiEnabled_def)
      then show ?thesis using fresh_refreshed inv by metis
    qed
  next
    case False
    have "plain ?w (on_event ?ev ?w)"
      using False
      by (cases ?ev) (simp_all add: on_event_def plain_def ui_core_def handler_defs SetPendingPaths_def)
    moreover have "fresh_inv env ?w"
      using assms und False
      by (auto simp: fresh_inv_def disturbed_def fresh_def announces_def)
    ultimately show ?thesis
      using fresh_plain [of env ?w "on_event ?ev ?w"] True by (simp add: deliver_event_def asks.nothing)
  qed
qed (use assms in \<open>simp add: deliver_event_def\<close>)

lemma window_fresh: "window_reachable env w \<Longrightarrow> fresh_inv env w"
proof (induction rule: window_reachable.induct)
  case (start s)
  have "ui_inv env Q (w_ui (Window_StartIndexing False (new_window s empty_store)))" for Q
    by (simp add: Window_StartIndexing_def new_window_def ui_inv_start)
  then show ?case by (simp add: fresh_inv_def fresh_def)
next
  case (step w w')
  from step.hyps(2) show ?case
  proof (cases rule: window_step_cases)
    case 1
    from gui_step_plain [OF 1(2)] show ?thesis
      using fresh_delivered [OF step.IH] fresh_plain [OF step.IH _ gui_step_asks [OF 1(2)]]
        fresh_refreshed [of env "w\<lparr>w_liveRefresh := False\<rparr>"] step.IH
      by (auto simp: fresh_inv_def)
  next
    case (2 u)
    then show ?thesis using fresh_search [OF step.IH] by (simp add: index_of_def)
  next
    case (3 sv)
    then show ?thesis
      using fresh_moves [OF step.IH] window_batches [OF step.hyps(1)] by (simp add: batch_inv_def)
  qed
qed

section \<open>No scan is left half done\<close>

definition tokens :: "Command list \<Rightarrow> nat list" where
  "tokens cs = concat (map (\<lambda>c. case token_of c of None \<Rightarrow> [] | Some t \<Rightarrow> [t]) cs)"

lemma tokens_simps [simp]:
  "tokens [] = []" "tokens (xs @ ys) = tokens xs @ tokens ys"
  "tokens (c # cs) = (case token_of c of None \<Rightarrow> [] | Some t \<Rightarrow> [t]) @ tokens cs"
  by (simp_all add: tokens_def)

text \<open>The scans that wait behind the worker.\<close>

definition waiting :: "Service \<Rightarrow> nat list" where
  "waiting sv = tokens (sv_commands sv) @ tokens (client_commands (sv_client sv))"

definition in_order :: "Service \<Rightarrow> bool" where
  "in_order sv \<longleftrightarrow>
     (\<exists>k. tokens (worker_commands (sv_worker sv)) @ waiting sv = [k..<sv_nextToken sv]) \<and>
     sv_cancelled sv \<subseteq> {..<sv_nextToken sv} \<and> set (sv_scanCancels sv) \<subseteq> {..<sv_nextToken sv}"

fun incomplete :: "Worker \<Rightarrow> bool" where
  "incomplete (WScanned c completed) = (\<not> completed)"
| "incomplete (WRemoving c completed any ps) = (\<not> completed)"
| "incomplete _ = False"

text \<open>Whatever was cancelled is made up for by the newest request, which is not.\<close>

definition made_up :: "Service \<Rightarrow> bool" where
  "made_up sv \<longleftrightarrow> sv_nextToken sv > 0 \<and> sv_nextToken sv - 1 \<notin> sv_cancelled sv \<and>
     (incomplete (sv_worker sv) \<longrightarrow> sv_nextToken sv - 1 \<in> set (waiting sv)) \<and>
     (sv_needsFullRebuild sv \<longrightarrow> sv_nextToken sv - 1 \<in>
        set (tokens (worker_commands (sv_worker sv))) \<union> set (waiting sv))"

lemma upt_tail: "t # ts = [k..<n] \<Longrightarrow> ts = [Suc k..<n] \<and> t = k \<and> k < n"
  by (metis list.inject list.distinct(1) upt_conv_Cons upt_eq_Nil_conv not_le_imp_less less_imp_le)

lemma behind_newest:
  assumes "t # ts = [k..<n]" "t \<noteq> n - 1"
  shows "n - 1 \<in> set ts"
  using upt_tail [OF assms(1)] assms(2) by auto

lemma order_drop:
  "\<exists>k. tokens [c] @ ts = [k..<n] \<Longrightarrow> \<exists>k. ts = [k..<n]"
  by (auto split: option.splits dest: upt_tail)

lemma waiting_fields:
  "sv_commands sv' = sv_commands sv \<Longrightarrow> sv_client sv' = sv_client sv \<Longrightarrow> waiting sv' = waiting sv"
  by (simp add: waiting_def)

lemma order_worker:
  assumes "worker_step True sv l sv'" "in_order sv"
  shows "in_order sv'"
  using assms(1)
proof (cases rule: worker_step.cases)
  case (superseded c)
  then show ?thesis
    using assms(2) order_drop [of c "waiting sv"] by (simp add: in_order_def waiting_def)
next
  case (finish_done c completed any nowNs)
  then show ?thesis
    using assms(2) order_drop [of c "waiting sv"] by (simp add: in_order_def waiting_def)
qed (use assms(2) in \<open>auto simp: in_order_def waiting_def StopMonitoring_def\<close>)

lemma order_moves:
  assumes "service_moves sv sv'" "in_order sv" "\<not> sv_shuttingDown sv"
  shows "in_order sv'"
  using assms(1)
proof (cases rule: service_moves.cases)
  case (worker l)
  then show ?thesis using order_worker assms(2) by blast
qed (use assms(2,3) in \<open>auto simp: in_order_def waiting_def Enqueue_def elim!: file_stepE monitor_stepE split: if_splits\<close>)

lemma order_asks:
  assumes "asks sv sv'" "in_order sv" "sv_client sv = CIdle"
  shows "in_order sv'"
proof -
  obtain k where k: "tokens (worker_commands (sv_worker sv)) @ tokens (sv_commands sv) = [k..<sv_nextToken sv]"
    using assms(2,3) by (auto simp: in_order_def waiting_def)
  have le: "[k..<sv_nextToken sv] @ [sv_nextToken sv] = [min k (sv_nextToken sv)..<Suc (sv_nextToken sv)]"
    by (cases "k \<le> sv_nextToken sv") (simp_all add: min_def)
  have sub: "sv_cancelled sv \<subseteq> {..<sv_nextToken sv}" "set (sv_scanCancels sv) \<subseteq> {..<sv_nextToken sv}"
    using assms(2) by (simp_all add: in_order_def)
  have more: "\<exists>k. tokens (worker_commands (sv_worker sv)) @ tokens (sv_commands sv) @ [sv_nextToken sv] =
      [k..<Suc (sv_nextToken sv)]"
    using k le by (metis append_assoc)
  show ?thesis
    using assms(1)
    by (cases rule: asks.cases)
      (use assms(2,3) more sub in \<open>auto simp: in_order_def waiting_def request_defs\<close>)
qed

lemma made_up_worker:
  assumes "worker_step True sv l sv'" "made_up sv" "in_order sv" "scans (sv_worker sv)"
  shows "made_up sv'"
proof -
  obtain k where k: "tokens (worker_commands (sv_worker sv)) @ waiting sv = [k..<sv_nextToken sv]"
    using assms(3) by (auto simp: in_order_def)
  have behind: "sv_nextToken sv - 1 \<in> set (waiting sv)"
    if head: "worker_commands (sv_worker sv) = [c]" "token_of c \<noteq> None" "is_cancelled sv c" for c
  proof -
    obtain t where "token_of c = Some t" "t \<in> sv_cancelled sv"
      using head(2,3) by (auto simp: is_cancelled_def)
    moreover from this have "t \<noteq> sv_nextToken sv - 1" using assms(2) by (auto simp: made_up_def)
    ultimately show ?thesis using k head(1) behind_newest by auto
  qed
  show ?thesis
    using assms(1)
  proof (cases rule: worker_step.cases)
    case (superseded c)
    then show ?thesis using behind [of c] assms(2) by (simp add: made_up_def waiting_def)
  next
    case (scan_cancelled c)
    then show ?thesis
      using behind [of c] assms(2,4) by (auto simp: made_up_def waiting_def scans_def)
  next
    case (add_cancelled c)
    then show ?thesis
      using behind [of c] assms(2,4) by (auto simp: made_up_def waiting_def scans_def)
  qed (use assms(2) in \<open>auto simp: made_up_def waiting_def StopMonitoring_def split: option.splits\<close>)
qed

lemma made_up_moves:
  assumes "service_moves sv sv'" "made_up sv" "in_order sv" "reachable True sv" "\<not> sv_shuttingDown sv"
  shows "made_up sv'"
  using assms(1)
proof (cases rule: service_moves.cases)
  case (worker l)
  then show ?thesis using made_up_worker assms(2,3) scans_reachable [OF assms(4)] by blast
qed (use assms(2,5) in \<open>auto simp: made_up_def waiting_def Enqueue_def elim!: file_stepE monitor_stepE split: if_splits\<close>)

lemma made_up_new_scan:
  assumes "in_order sv" "sv_client sv = CIdle" "\<not> sv_shuttingDown sv"
  shows "made_up (RequestIndexing force opts stale m sv)"
    "made_up (RequestSettingsChange oldRoots opts stale m sv)"
  using assms by (auto simp: made_up_def in_order_def waiting_def request_defs)

lemma made_up_others:
  assumes "made_up sv" "sv_client sv = CIdle"
  shows "made_up (RequestReload sv)" "made_up (RequestFileOperations ops sv)"
  using assms by (auto simp: made_up_def waiting_def request_defs)

lemma made_up_gui:
  assumes "gui_step w w'" "sv_client (w_sv w) = CIdle" "in_order (w_sv w)" "\<not> sv_shuttingDown (w_sv w)"
    and "w_elevated w \<or> made_up (w_sv w)" "flags_inv w"
  shows "w_elevated w' \<or> made_up (w_sv w')"
  using assms(1)
proof (cases rule: gui_step.cases)
  case helper_finished
  then show ?thesis
    using assms(6) made_up_new_scan [OF assms(3,2,4)]
    by (simp add: flags_inv_def OnHelperFinished_def Let_def Window_StartIndexing_def showMessage_def)
qed (use assms(5) made_up_new_scan [OF assms(3,2,4)] made_up_others [OF _ assms(2)] in
    \<open>auto simp: handler_defs split: option.splits prod.splits\<close>)

definition repair_inv :: "Window \<Rightarrow> bool" where
  "repair_inv w \<longleftrightarrow> in_order (w_sv w) \<and> (w_elevated w \<or> made_up (w_sv w))"

lemma window_repair: "window_reachable env w \<Longrightarrow> repair_inv w"
proof (induction rule: window_reachable.induct)
  case (start s)
  have "in_order (initial_service empty_store)"
    by (simp add: in_order_def initial_service_def waiting_def)
  then have "in_order (RequestIndexing force opts stale m (initial_service empty_store)) \<and>
      made_up (RequestIndexing force opts stale m (initial_service empty_store))" for force opts stale m
    using order_asks [OF asks.indexing] made_up_new_scan
    by (simp add: initial_service_def)
  then show ?case
    by (simp add: repair_inv_def Window_StartIndexing_def new_window_def)
next
  case (step w w')
  have alive: "reachable True (w_sv w)" "\<not> sv_shuttingDown (w_sv w)"
    using window_driven [OF step.hyps(1)] by (simp_all add: driven_def)
  from step.hyps(2) show ?case
  proof (cases rule: window_step_cases)
    case 1
    then show ?thesis
      using step.IH alive(2) made_up_gui [OF 1(2,1)] order_asks [OF gui_step_asks [OF 1(2)]]
        window_flags [OF step.hyps(1)]
      by (auto simp: repair_inv_def)
  next
    case (3 sv)
    then show ?thesis
      using step.IH alive order_moves [OF 3(2)] made_up_moves [OF 3(2)] by (auto simp: repair_inv_def)
  qed (use step.IH in \<open>auto simp: repair_inv_def\<close>)
qed

section \<open>The property\<close>

text \<open>C4: End to end, the table shows the present index: however the user, the timers, the searches,
  the service's worker, the file operations and live monitoring interleave, once everything has
  come to rest and no helper runs, the table is empty if the box holds fewer than two
  characters, and otherwise its rows are exactly those of a complete search, for the text in
  the box with the options of the menu, over the index as it is now.\<close>

theorem table_shows_present_index:
  assumes "window_reachable env w" "service_idle (w_sv w)" "\<not> w_elevated w"
    and "w_delivered w = length (sv_events (w_sv w))" "\<not> w_liveRefresh w" "at_rest (w_ui w)"
  shows "if length (le_text (su_line (w_ui w))) < 2 then rm_entries (su_model (w_ui w)) = []
    else \<exists>results rows.
      Search (ue_lib env) (ue_tier env) (\<lambda>i. False) (is_pool (sv_store (w_sv w)))
        (ue_toStdString env (le_text (su_line (w_ui w)))) (co_options (su_co (w_ui w))) = Some results \<and>
      BuildDisplayEntries (ue_strftime env) (is_pool (sv_store (w_sv w))) results = Some rows \<and>
      mset (rm_entries (su_model (w_ui w))) = mset rows"
proof -
  have "made_up (w_sv w)" using window_repair [OF assms(1)] assms(3) by (simp add: repair_inv_def)
  then have "\<not> sv_needsFullRebuild (w_sv w)"
    using assms(2) by (auto simp: made_up_def service_idle_def waiting_def)
  then have "\<not> disturbed w"
    using assms(2,4-6)
    by (simp add: disturbed_def undelivered_def owes_report_def service_idle_def timed_def at_rest_def)
  then have "ui_inv env (\<lambda>p. p = index_of (w_sv w)) (w_ui w)"
    using window_fresh [OF assms(1)] by (simp add: fresh_inv_def fresh_def)
  from at_rest_table [OF this assms(6)] show ?thesis
    by (auto simp: table_shows_def complete_rows_def index_of_def split: if_splits)
qed

section \<open>A run\<close>

lemma indexed_ui: "w_ui indexed_window = ui_start default_options"
  by (simp add: indexed_window_def deliver_event_def on_event_def first_window_def first_defs
      handler_defs new_window_def RefreshVisibleResults_def ui_start_def)

lemma run_in_window:
  assumes "(ui_step env (is_pool (sv_store (w_sv w))))\<^sup>*\<^sup>* (w_ui w) u" "window_reachable env w"
  shows "window_reachable env (w\<lparr>w_ui := u\<rparr>)"
  using assms(1)
proof (induction rule: rtranclp_induct)
  case base
  then show ?case using assms(2) by simp
next
  case (step u v)
  have "window_step env (w\<lparr>w_ui := u\<rparr>) ((w\<lparr>w_ui := u\<rparr>)\<lparr>w_ui := v\<rparr>)"
    by (rule window_step.search) (simp add: step.hyps(2))
  with step.IH show ?case using window_reachable.step by fastforce
qed

text \<open>In the indexed window two characters are typed, and their search comes to its end.\<close>

definition searched_window :: Window where
  "searched_window = indexed_window\<lparr>w_ui := gui_delivers (sample_ui [sample_worker WkDone] [(0, [], False)])\<rparr>"

lemma searched_reachable: "window_reachable sample_ui_env searched_window"
proof -
  have "is_pool (sv_store (w_sv indexed_window)) = empty_pool"
    by (simp add: indexed_service first_defs empty_store_def)
  then have "(ui_step sample_ui_env (is_pool (sv_store (w_sv indexed_window))))\<^sup>*\<^sup>* (w_ui indexed_window)
      (gui_delivers (sample_ui [sample_worker WkDone] [(0, [], False)]))"
    using rtranclp.rtrancl_into_rtrancl [OF sample_run ui_step.delivered] by (simp add: indexed_ui)
  from run_in_window [OF this indexed_reachable] show ?thesis by (simp add: searched_window_def)
qed

theorem table_shows_present_index_witness:
  "\<exists>results rows. Search no_lib kScalar (\<lambda>i. False) empty_pool ''ab'' default_options = Some results \<and>
     BuildDisplayEntries (\<lambda>t. ''now'') empty_pool results = Some rows \<and>
     mset (rm_entries (su_model (w_ui searched_window))) = mset rows"
proof -
  have "service_idle (w_sv searched_window)" "\<not> w_elevated searched_window"
    "w_delivered searched_window = length (sv_events (w_sv searched_window))"
    by (simp_all add: searched_window_def indexed_service indexed_flags service_idle_def first_defs)
  moreover have "\<not> w_liveRefresh searched_window"
    by (simp add: searched_window_def indexed_window_def deliver_event_def on_event_def first_window_def
        first_defs handler_defs new_window_def RefreshVisibleResults_def ui_start_def)
  moreover have "at_rest (w_ui searched_window)" by (simp add: searched_window_def sample_rest)
  ultimately show ?thesis
    using table_shows_present_index [OF searched_reachable]
    by (simp add: searched_window_def sample_rest indexed_service first_defs empty_store_def sample_ui_env_def ab_chars)
qed

end
