(* ===== verification/Window_Close.thy ===== *)
theory Window_Close
  imports Window_Invariants Service_Rest
begin

text \<open>
  Closing the window (\<open>MainWindow::~MainWindow\<close>): the index service is shut down first, then the
  helper is told to end. The destructor runs on the GUI thread, so that meanwhile only the
  threads of the service go on.
\<close>

section \<open>The destructor\<close>

datatype ClosePhase = Running | JoiningWorker | JoiningFiles | Closed

definition terminate_helper :: "Window \<Rightarrow> Window" where
  "terminate_helper w =
     (if w_elevated w \<and> w_helper w = HelperRunning then SendSignalToHelper SigTerm w else w)"

inductive close_step :: "ClosePhase \<times> Window \<Rightarrow> ClosePhase \<times> Window \<Rightarrow> bool" where
  shutdown: "sv_client (w_sv w) = CIdle \<Longrightarrow>
    close_step (Running, w) (JoiningWorker, w\<lparr>w_sv := Shutdown_begin (w_sv w)\<rparr>)"
| join_worker: "sv_worker (w_sv w) = WWait \<Longrightarrow>
    close_step (JoiningWorker, w) (JoiningFiles, w\<lparr>w_sv := Shutdown_end (w_sv w)\<rparr>)"
| join_files: "files_rest (w_sv w) \<Longrightarrow> close_step (JoiningFiles, w) (Closed, terminate_helper w)"
| threads: "p = JoiningWorker \<or> p = JoiningFiles \<Longrightarrow> service_moves (w_sv w) sv \<Longrightarrow>
    close_step (p, w) (p, w\<lparr>w_sv := sv\<rparr>)"

inductive closing :: "'re UiEnv \<Rightarrow> ClosePhase \<times> Window \<Rightarrow> bool" for env where
  open_window: "window_reachable env w \<Longrightarrow> closing env (Running, w)"
| step: "closing env c \<Longrightarrow> close_step c c' \<Longrightarrow> closing env c'"

section \<open>What closing keeps\<close>

definition all_accounted :: "Window \<Rightarrow> bool" where
  "all_accounted w \<longleftrightarrow> batches (w_sv w) = map (mset \<circ> snd) (w_requested w)"

definition helper_told :: "Window \<Rightarrow> bool" where
  "helper_told w \<longleftrightarrow>
     (w_elevated w \<and> w_helper w = HelperRunning \<longrightarrow> w_signals w \<noteq> [] \<and> last (w_signals w) = SigTerm)"

fun close_inv :: "ClosePhase \<times> Window \<Rightarrow> bool" where
  "close_inv (p, w) \<longleftrightarrow>
     reachable True (w_sv w) \<and> all_accounted w \<and>
     (p \<noteq> Running \<longrightarrow> sv_client (w_sv w) = CIdle \<and> sv_shuttingDown (w_sv w)) \<and>
     (p = JoiningFiles \<or> p = Closed \<longrightarrow> sv_worker (w_sv w) = WWait \<and>
        sv_monitoring (w_sv w) = None \<and> sv_fileOpsStopping (w_sv w)) \<and>
     (p = Closed \<longrightarrow> files_rest (w_sv w) \<and> helper_told w)"

lemma moves_while_closing:
  assumes "service_moves sv sv'" "sv_client sv = CIdle" "sv_shuttingDown sv"
  shows "sv_client sv' = CIdle \<and> sv_shuttingDown sv' \<and> sv_fileOpsStopping sv' = sv_fileOpsStopping sv \<and>
    (sv_worker sv = WWait \<and> sv_monitoring sv = None \<longrightarrow> sv_worker sv' = WWait \<and> sv_monitoring sv' = None)"
  using assms
  by (elim service_movesE worker_stepE file_stepE monitor_stepE) (auto simp: StopMonitoring_def)

lemma moves_reachable: "reachable True sv \<Longrightarrow> service_moves sv sv' \<Longrightarrow> reachable True sv'"
  using service_moves_step reachable.step by blast

lemma batches_shutdown:
  "batches (Shutdown_begin sv) = batches sv" "batches (Shutdown_end sv) = batches sv"
  by (simp_all add: batches_def Shutdown_begin_def Shutdown_end_def)

lemma terminate_helper_service [simp]:
  "w_sv (terminate_helper w) = w_sv w" "w_requested (terminate_helper w) = w_requested w"
  by (simp_all add: terminate_helper_def SendSignalToHelper_def Let_def)

lemma terminate_helper_told: "helper_told (terminate_helper w)"
  by (auto simp: helper_told_def terminate_helper_def SendSignalToHelper_def Let_def)

lemma close_inv_step:
  assumes "close_inv c" "close_step c c'"
  shows "close_inv c'"
  using assms(2)
proof (cases rule: close_step.cases)
  case (shutdown w)
  with assms(1) client_step.shutdown_begin [of "w_sv w"] client_reachable [of True "w_sv w"] show ?thesis
    by (auto simp: all_accounted_def batches_shutdown) (simp_all add: Shutdown_begin_def)
next
  case (join_worker w)
  with assms(1) client_step.shutdown_end [of "w_sv w"] client_reachable [of True "w_sv w"] show ?thesis
    by (auto simp: all_accounted_def batches_shutdown) (simp_all add: Shutdown_end_def)
next
  case (join_files w)
  with assms(1) show ?thesis by (simp add: all_accounted_def terminate_helper_told)
next
  case (threads p w sv)
  with assms(1) moves_while_closing [of "w_sv w" sv] moves_reachable [of "w_sv w" sv]
    batches_moves [of "w_sv w" sv] show ?thesis
    by (auto simp: all_accounted_def)
qed

lemma closing_inv: "closing env c \<Longrightarrow> close_inv c"
proof (induction rule: closing.induct)
  case (open_window w)
  then show ?case
    using window_driven window_batches by (auto simp: driven_def all_accounted_def batch_inv_def)
qed (rule close_inv_step)

lemma closing_progress:
  assumes "close_inv (p, w)" "p = JoiningWorker \<or> p = JoiningFiles"
  shows "\<exists>c. close_step (p, w) c"
proof -
  have r: "reachable True (w_sv w)" using assms(1) by simp
  note inv = store_inv_reachable [OF r] typed_reachable [OF r]
  from assms(2) show ?thesis
  proof
    assume p: "p = JoiningWorker"
    show ?thesis
    proof (cases "sv_worker (w_sv w) = WWait")
      case False
      then obtain l sv where "worker_step True (w_sv w) l sv"
        using worker_progress [of "w_sv w" True] inv by blast
      with p show ?thesis by (blast intro: close_step.threads service_moves.worker)
    qed (use p in \<open>blast intro: close_step.join_worker\<close>)
  next
    assume p: "p = JoiningFiles"
    show ?thesis
    proof (cases "files_rest (w_sv w)")
      case False
      then obtain l sv where "file_step (w_sv w) l sv"
        using file_progress [of "w_sv w"] inv by blast
      with p show ?thesis by (blast intro: close_step.threads service_moves.files)
    qed (use p in \<open>blast intro: close_step.join_files\<close>)
  qed
qed

section \<open>Properties\<close>



end
