(* ===== verification/Window_Desktop.thy ===== *)
theory Window_Desktop
  imports Main_Window Result_View
begin

text \<open>
  What the window asks of the desktop (\<open>MainWindow::OpenPath\<close>, \<open>RevealPath\<close>), the threads behind its
  back that post to it (the detached check of a path, the watcher of the mounts), and its menus.
  A check may hang for as long as it likes and end when the window is gone: the flag the
  destructor clears under a lock keeps it from posting then. Paths are texts of Qt.
\<close>

section \<open>Opening and revealing\<close>

datatype DesktopRequest = OpenUrl QString | ShowItems QString | AskRebuild | StatusMessage string
  | AskDelete string

datatype Posted = PathChecked QString bool | MountNotice string

text \<open>How far the destructor has come: the mount watcher told to stop, joined, the flag cleared, and the
  object gone with the events posted to it and the calls it waits for.\<close>

datatype Closing = Open | Stopping | Joined | NotAlive | Gone

text \<open>
  \<open>de_checks\<close> are the paths whose check still runs, each on a thread of its own, and \<open>de_calls\<close> the calls
  of the file manager that are not answered. \<open>de_asked\<close> and \<open>de_dropped\<close> remember the paths that were to
  be opened and those whose check came too late.
\<close>

record Desktop =
  de_checks :: "QString list"
  de_calls :: "QString list"
  de_posted :: "Posted list"
  de_alive :: bool
  de_hotplug :: bool
  de_closing :: Closing
  de_requests :: "DesktopRequest list"
  de_asked :: "QString list"
  de_opened :: "QString list"
  de_dropped :: "QString list"

definition new_Desktop :: Desktop where
  "new_Desktop = \<lparr>de_checks = [], de_calls = [], de_posted = [], de_alive = True, de_hotplug = True,
     de_closing = Open, de_requests = [], de_asked = [], de_opened = [], de_dropped = []\<rparr>"

definition ask_desktop :: "DesktopRequest \<Rightarrow> Desktop \<Rightarrow> Desktop" where
  "ask_desktop r d = d\<lparr>de_requests := de_requests d @ [r]\<rparr>"

definition OpenPath :: "QString \<Rightarrow> Desktop \<Rightarrow> Desktop" where
  "OpenPath path d = d\<lparr>de_checks := de_checks d @ [path], de_asked := de_asked d @ [path]\<rparr>"

text \<open>The end of a check, under the lock.\<close>

definition end_check :: "nat \<Rightarrow> bool \<Rightarrow> Desktop \<Rightarrow> Desktop" where
  "end_check i exists d =
     (let path = de_checks d ! i;
          d = d\<lparr>de_checks := take i (de_checks d) @ drop (Suc i) (de_checks d)\<rparr>
      in if de_alive d then d\<lparr>de_posted := de_posted d @ [PathChecked path exists]\<rparr>
         else d\<lparr>de_dropped := de_dropped d @ [path]\<rparr>)"

definition on_posted :: "Posted \<Rightarrow> Desktop \<Rightarrow> Desktop" where
  "on_posted p d =
     (case p of
        PathChecked path exists \<Rightarrow>
          (ask_desktop (if exists then OpenUrl path else AskRebuild) d)\<lparr>de_opened := de_opened d @ [path]\<rparr>
      | MountNotice msg \<Rightarrow> ask_desktop (StatusMessage msg) d)"

text \<open>\<open>parentDir\<close> is Qt's \<open>absolutePath\<close>.\<close>

definition RevealPath :: "(QString \<Rightarrow> QString) \<Rightarrow> bool \<Rightarrow> QString \<Rightarrow> Desktop \<Rightarrow> Desktop" where
  "RevealPath parentDir connected path d =
     (if \<not> connected then ask_desktop (OpenUrl (parentDir path)) d
      else (ask_desktop (ShowItems path) d)\<lparr>de_calls := de_calls d @ [path]\<rparr>)"

definition call_finished :: "(QString \<Rightarrow> QString) \<Rightarrow> bool \<Rightarrow> nat \<Rightarrow> Desktop \<Rightarrow> Desktop" where
  "call_finished parentDir isError i d =
     (let path = de_calls d ! i; d = d\<lparr>de_calls := take i (de_calls d) @ drop (Suc i) (de_calls d)\<rparr>
      in if isError then ask_desktop (OpenUrl (parentDir path)) d else d)"

section \<open>The thread that watches the mounts\<close>

text \<open>One turn: whether the stop flag is set, whether the wait told of a change, whether the flag is set
  by then, and the mounts.\<close>

record HotplugTurn =
  ht_stopBefore :: bool
  ht_changed :: bool
  ht_stopAfter :: bool
  ht_mounts :: "MountInfo list"

fun hotplug_turns :: "MountInfo list \<Rightarrow> HotplugTurn list \<Rightarrow> string list" where
  "hotplug_turns previous [] = []"
| "hotplug_turns previous (t # ts) =
     (if ht_stopBefore t then []
      else if \<not> ht_changed t \<or> ht_stopAfter t then hotplug_turns previous ts
      else hotplug_notices previous (ht_mounts t) @ hotplug_turns (ht_mounts t) ts)"

definition StartHotplugWatcher :: "int \<Rightarrow> MountInfo list \<Rightarrow> HotplugTurn list \<Rightarrow> string list" where
  "StartHotplugWatcher fd previous turns = (if fd < 0 then [] else hotplug_turns previous turns)"

text \<open>The turns in which it acts are those of \<open>hotplug_loop\<close>, and once stopped it says nothing more.\<close>

lemma hotplug_turns_loop:
  "hotplug_turns previous turns =
   hotplug_loop previous (map (\<lambda>t. (ht_changed t \<and> \<not> ht_stopAfter t, ht_mounts t))
     (takeWhile (\<lambda>t. \<not> ht_stopBefore t) turns))"
  by (induction previous turns rule: hotplug_turns.induct) auto

fun stop_kept :: "HotplugTurn list \<Rightarrow> bool" where
  "stop_kept [] \<longleftrightarrow> True"
| "stop_kept (t # ts) \<longleftrightarrow>
     (ht_stopBefore t \<longrightarrow> ht_stopAfter t) \<and> (ht_stopAfter t \<longrightarrow> list_all ht_stopBefore ts) \<and> stop_kept ts"

lemma hotplug_silent_when_stopped:
  assumes "stop_kept (turns @ later)" "list_ex ht_stopAfter turns"
  shows "hotplug_turns previous (turns @ later) = hotplug_turns previous turns"
  using assms
proof (induction turns arbitrary: previous)
  case (Cons t ts)
  have silent: "list_all ht_stopBefore us \<Longrightarrow> hotplug_turns p us = []" for p us
    by (cases us) auto
  show ?case
  proof (cases "ht_stopAfter t")
    case True
    then have "list_all ht_stopBefore (ts @ later)" using Cons.prems(1) by simp
    then show ?thesis using silent True by auto
  next
    case False
    then show ?thesis using Cons by auto
  qed
qed simp

section \<open>Everything together\<close>

inductive desktop_step :: "(QString \<Rightarrow> QString) \<Rightarrow> Desktop \<Rightarrow> Desktop \<Rightarrow> bool" for parentDir where
  open_path: "de_closing d = Open \<Longrightarrow> desktop_step parentDir d (OpenPath path d)"
| reveal: "de_closing d = Open \<Longrightarrow> desktop_step parentDir d (RevealPath parentDir connected path d)"
| deliver: "de_closing d = Open \<Longrightarrow> de_posted d = p # ps \<Longrightarrow>
    desktop_step parentDir d (on_posted p (d\<lparr>de_posted := ps\<rparr>))"
| answered: "de_closing d = Open \<Longrightarrow> i < length (de_calls d) \<Longrightarrow>
    desktop_step parentDir d (call_finished parentDir isError i d)"
| check: "i < length (de_checks d) \<Longrightarrow> desktop_step parentDir d (end_check i exists d)"
| mounts: "de_hotplug d \<Longrightarrow> desktop_step parentDir d (d\<lparr>de_posted := de_posted d @ [MountNotice msg]\<rparr>)"
| stop_hotplug: "de_closing d = Open \<Longrightarrow> desktop_step parentDir d (d\<lparr>de_closing := Stopping\<rparr>)"
| hotplug_ends: "de_closing d = Stopping \<Longrightarrow> desktop_step parentDir d (d\<lparr>de_hotplug := False\<rparr>)"
| joined: "de_closing d = Stopping \<Longrightarrow> \<not> de_hotplug d \<Longrightarrow>
    desktop_step parentDir d (d\<lparr>de_closing := Joined\<rparr>)"
| not_alive: "de_closing d = Joined \<Longrightarrow>
    desktop_step parentDir d (d\<lparr>de_alive := False, de_closing := NotAlive\<rparr>)"
| gone: "de_closing d = NotAlive \<Longrightarrow>
    desktop_step parentDir d (d\<lparr>de_posted := [], de_calls := [], de_closing := Gone\<rparr>)"

inductive desktop_reachable :: "(QString \<Rightarrow> QString) \<Rightarrow> Desktop \<Rightarrow> bool" for parentDir where
  start: "desktop_reachable parentDir new_Desktop"
| step: "desktop_reachable parentDir d \<Longrightarrow> desktop_step parentDir d d' \<Longrightarrow> desktop_reachable parentDir d'"

lemmas desktop_defs = OpenPath_def end_check_def on_posted_def RevealPath_def call_finished_def ask_desktop_def

text \<open>The paths of posted checks.\<close>

fun posted_path :: "Posted \<Rightarrow> QString list" where
  "posted_path (PathChecked path exists) = [path]"
| "posted_path (MountNotice msg) = []"

definition waiting_paths :: "Desktop \<Rightarrow> QString list" where
  "waiting_paths d = concat (map posted_path (de_posted d))"

definition desktop_inv :: "Desktop \<Rightarrow> bool" where
  "desktop_inv d \<longleftrightarrow>
     (de_alive d \<longleftrightarrow> de_closing d \<in> {Open, Stopping, Joined}) \<and>
     (de_closing d \<in> {Joined, NotAlive, Gone} \<longrightarrow> \<not> de_hotplug d) \<and>
     (de_closing d = Gone \<longrightarrow> de_posted d = [] \<and> de_calls d = []) \<and>
     (de_closing d \<noteq> Gone \<longrightarrow> mset (de_asked d) =
        mset (de_checks d) + mset (waiting_paths d) + mset (de_opened d) + mset (de_dropped d)) \<and>
     (de_closing d \<in> {Open, Stopping, Joined} \<longrightarrow> de_dropped d = [])"

lemma mset_without: "i < length xs \<Longrightarrow> mset xs = add_mset (xs ! i) (mset (take i xs @ drop (Suc i) xs))"
  using id_take_nth_drop [of i xs] by (metis mset.simps(2) mset_append union_mset_add_mset_right)

lemma desktop_inv_step:
  assumes "desktop_inv d" "desktop_step parentDir d d'"
  shows "desktop_inv d'"
  using assms(2)
proof (cases rule: desktop_step.cases)
  case (check i exists)
  with assms(1) mset_without [OF check(2)] show ?thesis
    by (auto simp: desktop_inv_def desktop_defs waiting_paths_def Let_def)
next
  case (deliver p ps)
  with assms(1) show ?thesis
    by (cases p) (auto simp: desktop_inv_def desktop_defs waiting_paths_def)
qed (use assms(1) in \<open>auto simp: desktop_inv_def desktop_defs waiting_paths_def Let_def\<close>)

lemma desktop_inv_reachable: "desktop_reachable parentDir d \<Longrightarrow> desktop_inv d"
proof (induction rule: desktop_reachable.induct)
  case start
  then show ?case by (simp add: desktop_inv_def new_Desktop_def waiting_paths_def)
qed (rule desktop_inv_step)

text \<open>Nothing reaches a window that is gone, however long the checks take; and until it closes, every path
  that was to be opened is still being checked, waits to be handled, or has been handled once.\<close>

lemma nothing_reaches_gone_window:
  assumes "desktop_reachable parentDir d"
  shows "(de_closing d = Gone \<longrightarrow> de_posted d = [] \<and> de_calls d = [] \<and> \<not> de_hotplug d) \<and>
    (de_alive d \<longrightarrow> mset (de_asked d) = mset (de_checks d) + mset (waiting_paths d) + mset (de_opened d))"
  using desktop_inv_reachable [OF assms] by (auto simp: desktop_inv_def)

section \<open>The signals of the result list\<close>

definition newline :: char where "newline = CHR 0x0A"

fun join_paths :: "string list \<Rightarrow> string" where
  "join_paths [] = []"
| "join_paths [p] = p"
| "join_paths (p # ps) = p @ newline # join_paths ps"

definition delete_question :: "string list \<Rightarrow> string" where
  "delete_question paths =
     (if length paths = 1
      then ''Permanently delete this file? This cannot be undone.'' @ [newline, newline] @ hd paths
      else ''Permanently delete these '' @ to_string (length paths) @ '' files? This cannot be undone.'' @
        [newline, newline] @ join_paths paths)"

text \<open>The deletion follows when the question is answered (\<open>DeletePaths\<close>); the clipboard is no signal.\<close>

definition on_view_action ::
  "(QString \<Rightarrow> string) \<Rightarrow> (QString \<Rightarrow> QString) \<Rightarrow> bool \<Rightarrow> ViewAction \<Rightarrow> Desktop \<times> Window \<Rightarrow> Desktop \<times> Window"
where
  "on_view_action toStdString parentDir connected a s =
     (case s of (d, w) \<Rightarrow>
        (case a of
           OpenRequested path \<Rightarrow> (OpenPath path d, w)
         | RevealRequested path \<Rightarrow> (RevealPath parentDir connected path d, w)
         | TrashRequested paths \<Rightarrow> (d, TrashPaths (map toStdString paths) w)
         | DeletePermanentlyRequested paths \<Rightarrow>
             (ask_desktop (AskDelete (delete_question (map toStdString paths))) d, w)
         | _ \<Rightarrow> (d, w)))"

text \<open>Only a confirmed deletion or a move to the trash asks the service for anything, and for the paths
  that were selected, in their order.\<close>

lemma view_actions_request:
  "w_requested (snd (on_view_action toStdString parentDir connected a (d, w))) =
     w_requested w @ (case a of TrashRequested paths \<Rightarrow> [(''move to Trash'', map toStdString paths)] | _ \<Rightarrow> [])"
  "w_requested (DeletePaths paths yes w) = w_requested w @ (if yes then [(''delete'', paths)] else [])"
  by (auto simp: on_view_action_def TrashPaths_def DeletePaths_def RunFileOperations_def verb_of_def Let_def
      split: ViewAction.splits)

section \<open>The menus\<close>

datatype SearchToggle = RegexAction | CaseAction | WholeWordAction | MatchPathAction | DiacriticsAction

definition search_menu :: "(SearchToggle \<times> string \<times> string) list" where
  "search_menu =
     [(RegexAction, ''Regular Expression'', ''Alt+1''), (CaseAction, ''Case Sensitive'', ''Alt+2''),
      (WholeWordAction, ''Whole Word'', ''Alt+3''), (MatchPathAction, ''Match Path'', ''Alt+4''),
      (DiacriticsAction, ''Ignore Diacritics'', ''Alt+5'')]"

definition checked_options :: "(SearchToggle \<Rightarrow> bool) \<Rightarrow> SearchOptions" where
  "checked_options m =
     \<lparr>so_useRegex = m RegexAction, so_caseSensitive = m CaseAction, so_wholeWord = m WholeWordAction,
      so_matchPath = m MatchPathAction, so_ignoreDiacritics = m DiacriticsAction\<rparr>"

definition on_toggled :: "SearchToggle \<Rightarrow> (SearchToggle \<Rightarrow> bool) \<times> SearchUi \<Rightarrow> (SearchToggle \<Rightarrow> bool) \<times> SearchUi" where
  "on_toggled t s =
     (case s of (m, u) \<Rightarrow>
        let m = m(t := \<not> m t) in (m, toggle_options (checked_options m) u))"

text \<open>Each option has one action with a shortcut of its own, and what is checked is what is searched with:
  from the start, where nothing is checked, and after any toggles, whatever the search interface
  does in between.\<close>

lemma search_menu_complete:
  "distinct (map fst search_menu)" "distinct (map (snd \<circ> snd) search_menu)" "t \<in> set (map fst search_menu)"
  by (cases t; simp add: search_menu_def)+

lemma checked_none: "checked_options (\<lambda>t. False) = default_options"
  by (simp add: checked_options_def default_options_def)

lemma on_toggled_options:
  "on_toggled t (m, u) = (m', u') \<Longrightarrow> co_options (su_co u') = checked_options m' \<and> su_line u' = su_line u"
  by (auto simp: on_toggled_def toggle_options_def Let_def SetQuery_def SetOptions_def)

inductive menu_reachable :: "'re UiEnv \<Rightarrow> (SearchToggle \<Rightarrow> bool) \<times> SearchUi \<Rightarrow> bool" for env where
  start: "menu_reachable env (\<lambda>t. False, ui_start default_options)"
| toggled: "menu_reachable env s \<Longrightarrow> menu_reachable env (on_toggled t s)"
| other: "menu_reachable env (m, u) \<Longrightarrow> ui_step env pool u u' \<Longrightarrow>
    co_options (su_co u') = co_options (su_co u) \<Longrightarrow> menu_reachable env (m, u')"

lemma menu_shows_options:
  "menu_reachable env s \<Longrightarrow> co_options (su_co (snd s)) = checked_options (fst s)"
proof (induction rule: menu_reachable.induct)
  case start
  then show ?case by (simp add: checked_none ui_start_def)
next
  case (toggled s t)
  then show ?case by (cases "on_toggled t s"; cases s) (simp add: on_toggled_options)
qed simp

text \<open>The other items.\<close>

datatype WindowMenu = RebuildItem | SettingsItem | ElevateItem | OpenLogItem | AboutItem

definition on_menu_item ::
  "QString \<Rightarrow> (Window \<Rightarrow> Window) \<Rightarrow> WindowMenu \<Rightarrow> Desktop \<times> Window \<Rightarrow> Desktop \<times> Window"
where
  "on_menu_item logPath showSettings item s =
     (case s of (d, w) \<Rightarrow>
        (case item of
           RebuildItem \<Rightarrow> (d, RebuildIndex w)
         | SettingsItem \<Rightarrow> (d, showSettings w)
         | ElevateItem \<Rightarrow> (d, ElevateForFullAccess w)
         | OpenLogItem \<Rightarrow> (ask_desktop (OpenUrl logPath) d, w)
         | AboutItem \<Rightarrow> (d, w)))"

end
