(* ===== verification/Gui_Watchers.thy ===== *)
theory Gui_Watchers
  imports Prelude
begin

text \<open>
  Two helpers of the window: the watcher of the index file (\<open>ui/IndexFileWatcher.cpp\<close>), which must
  notice every replacement although Qt forgets a file that is renamed over, and the detector of
  GUI stalls (\<open>ui/UiStallDetector.cpp\<close>). Qt's file-system watcher behaves as documented: it reports a
  change of a watched file and stops watching it once it is renamed or removed, and it reports a
  watched directory when a file in it appears or goes. The signals wait in the GUI thread's queue.
\<close>

section \<open>The watcher of the index file\<close>

datatype WatchSignal = FileChanged | DirectoryChanged

text \<open>
  \<open>fw_version\<close> numbers the contents that were at the path, and \<open>fw_told\<close> is the newest of them at the
  last \<open>Changed\<close>, or when the watcher was made.
\<close>

record FileWatcher =
  fw_exists :: bool
  fw_version :: nat
  fw_watched :: bool
  fw_signals :: "WatchSignal list"
  fw_told :: nat

definition new_FileWatcher :: "bool \<Rightarrow> FileWatcher" where
  "new_FileWatcher exists =
     \<lparr>fw_exists = exists, fw_version = 0, fw_watched = exists, fw_signals = [], fw_told = 0\<rparr>"

definition Rearm :: "FileWatcher \<Rightarrow> FileWatcher \<times> bool" where
  "Rearm w = (if fw_watched w \<or> \<not> fw_exists w then (w, False) else (w\<lparr>fw_watched := True\<rparr>, True))"

definition emit_Changed :: "FileWatcher \<Rightarrow> FileWatcher" where
  "emit_Changed w = w\<lparr>fw_told := fw_version w\<rparr>"

definition OnFileChanged :: "FileWatcher \<Rightarrow> FileWatcher" where
  "OnFileChanged w = emit_Changed (fst (Rearm w))"

definition OnDirectoryChanged :: "FileWatcher \<Rightarrow> FileWatcher" where
  "OnDirectoryChanged w = (case Rearm w of (w, armed) \<Rightarrow> if armed then emit_Changed w else w)"

definition handle_signal :: "WatchSignal \<Rightarrow> FileWatcher \<Rightarrow> FileWatcher" where
  "handle_signal sig w = (case sig of FileChanged \<Rightarrow> OnFileChanged w | DirectoryChanged \<Rightarrow> OnDirectoryChanged w)"

text \<open>A new file is renamed to the path, or the file there is removed; Qt's part.\<close>

definition qt_gone :: "FileWatcher \<Rightarrow> FileWatcher" where
  "qt_gone w =
     w\<lparr>fw_signals := fw_signals w @ (if fw_watched w then [FileChanged] else []) @ [DirectoryChanged],
       fw_watched := False\<rparr>"

definition file_replaced :: "FileWatcher \<Rightarrow> FileWatcher" where
  "file_replaced w = (qt_gone w)\<lparr>fw_exists := True, fw_version := fw_version w + 1\<rparr>"

definition file_removed :: "FileWatcher \<Rightarrow> FileWatcher" where
  "file_removed w = (qt_gone w)\<lparr>fw_exists := False\<rparr>"

inductive watcher_step :: "FileWatcher \<Rightarrow> FileWatcher \<Rightarrow> bool" where
  replaced: "watcher_step w (file_replaced w)"
| removed: "fw_exists w \<Longrightarrow> watcher_step w (file_removed w)"
| handled: "fw_signals w = sig # sigs \<Longrightarrow> watcher_step w (handle_signal sig (w\<lparr>fw_signals := sigs\<rparr>))"

inductive_cases watcher_stepE: "watcher_step w w'"

inductive watcher_reachable :: "FileWatcher \<Rightarrow> bool" where
  start: "watcher_reachable (new_FileWatcher exists)"
| step: "watcher_reachable w \<Longrightarrow> watcher_step w w' \<Longrightarrow> watcher_reachable w'"

text \<open>
  What is at the path has been told, or a signal that will tell it waits: one of the file, or one
  of the directory while the file is not watched.
\<close>

definition watcher_inv :: "FileWatcher \<Rightarrow> bool" where
  "watcher_inv w \<longleftrightarrow>
     (fw_watched w \<longrightarrow> fw_exists w) \<and>
     (fw_exists w \<longrightarrow> (fw_watched w \<and> fw_told w = fw_version w) \<or>
        FileChanged \<in> set (fw_signals w) \<or> (\<not> fw_watched w \<and> DirectoryChanged \<in> set (fw_signals w)))"

lemma watcher_inv_step: "watcher_inv w \<Longrightarrow> watcher_step w w' \<Longrightarrow> watcher_inv w'"
  by (erule watcher_stepE)
    (auto simp: watcher_inv_def file_replaced_def file_removed_def qt_gone_def handle_signal_def
      OnFileChanged_def OnDirectoryChanged_def Rearm_def emit_Changed_def split: WatchSignal.splits)

text \<open>C39: No replacement of the index file is missed: however replacements, removals and the handling
  of Qt's signals interleave, once no signal waits and the file is there, the watcher is watching
  it and has emitted \<open>Changed\<close> since it was put there.\<close>

theorem replacements_noticed:
  assumes "watcher_reachable w" "fw_signals w = []" "fw_exists w"
  shows "fw_watched w \<and> fw_told w = fw_version w"
proof -
  have "watcher_inv w"
    using assms(1)
    by induction (simp add: watcher_inv_def new_FileWatcher_def, rule watcher_inv_step)
  then show ?thesis using assms(2,3) by (simp add: watcher_inv_def)
qed

text \<open>Replaced twice before the first signal is handled.\<close>

definition watcher_at :: "WatchSignal list \<Rightarrow> bool \<Rightarrow> nat \<Rightarrow> FileWatcher" where
  "watcher_at sigs watched told =
     \<lparr>fw_exists = True, fw_version = 2, fw_watched = watched, fw_signals = sigs, fw_told = told\<rparr>"

lemma handled_reachable:
  assumes "watcher_reachable w" "fw_signals w = sig # sigs"
    and "handle_signal sig (w\<lparr>fw_signals := sigs\<rparr>) = w'"
  shows "watcher_reachable w'"
  using watcher_reachable.step [OF assms(1) watcher_step.handled [OF assms(2)]] assms(3) by simp

theorem replacements_noticed_witness: "fw_watched (watcher_at [] True 2)"
proof -
  have "watcher_reachable (file_replaced (file_replaced (new_FileWatcher True)))"
    by (rule watcher_reachable.step [OF watcher_reachable.step [OF watcher_reachable.start
          watcher_step.replaced] watcher_step.replaced])
  then have "watcher_reachable (watcher_at [FileChanged, DirectoryChanged, DirectoryChanged] False 0)"
    by (simp add: file_replaced_def qt_gone_def new_FileWatcher_def watcher_at_def numeral_2_eq_2)
  then have "watcher_reachable (watcher_at [DirectoryChanged, DirectoryChanged] True 2)"
    by (rule handled_reachable)
      (auto simp: watcher_at_def handle_signal_def OnFileChanged_def Rearm_def emit_Changed_def)
  then have "watcher_reachable (watcher_at [DirectoryChanged] True 2)"
    by (rule handled_reachable)
      (auto simp: watcher_at_def handle_signal_def OnDirectoryChanged_def Rearm_def)
  then have "watcher_reachable (watcher_at [] True 2)"
    by (rule handled_reachable)
      (auto simp: watcher_at_def handle_signal_def OnDirectoryChanged_def Rearm_def)
  from replacements_noticed [OF this] show ?thesis by (simp add: watcher_at_def)
qed

section \<open>The detector of stalls\<close>

definition ns_per_ms :: int where "ns_per_ms = 1000000"

text \<open>A duration in nanoseconds cut to milliseconds; none is negative here.\<close>

definition to_ms :: "int \<Rightarrow> int" where
  "to_ms ns = ns div ns_per_ms"

text \<open>
  One ping: while the reply has not come, every wake-up reads the clock, once to decide and once
  for the report. \<open>polls\<close> are these readings, \<open>replied\<close> the time of the reply; a report is its
  milliseconds and whether the stall still lasts. Times are in nanoseconds, thresholds too.
\<close>

fun ongoing_report :: "int \<Rightarrow> int \<Rightarrow> bool \<Rightarrow> (int \<times> int) list \<Rightarrow> (int \<times> bool) list" where
  "ongoing_report ongoingAfter sentAt reported [] = []"
| "ongoing_report ongoingAfter sentAt reported ((now, later) # polls) =
     (if \<not> reported \<and> now - sentAt \<ge> ongoingAfter
      then (to_ms (later - sentAt), True) # ongoing_report ongoingAfter sentAt True polls
      else ongoing_report ongoingAfter sentAt reported polls)"

text \<open>\<open>stopped\<close> says that the detector was stopped while it waited.\<close>

definition ping_reports ::
  "int \<Rightarrow> int \<Rightarrow> int \<Rightarrow> (int \<times> int) list \<Rightarrow> bool \<Rightarrow> int \<Rightarrow> (int \<times> bool) list" where
  "ping_reports thresholdMs ongoingAfter sentAt polls stopped replied =
     ongoing_report ongoingAfter sentAt False polls @
     (if stopped then []
      else let latency = to_ms (replied - sentAt)
           in if latency > thresholdMs then [(latency, False)] else [])"

text \<open>The thread pings until it is stopped; a ping is its time, its readings, whether the detector was
  stopped during it, and its reply.\<close>

fun detector_run :: "int \<Rightarrow> int \<Rightarrow> (int \<times> (int \<times> int) list \<times> bool \<times> int) list \<Rightarrow> (int \<times> bool) list" where
  "detector_run thresholdMs ongoingAfter [] = []"
| "detector_run thresholdMs ongoingAfter ((sentAt, polls, stopped, replied) # pings) =
     ping_reports thresholdMs ongoingAfter sentAt polls stopped replied @
     (if stopped then [] else detector_run thresholdMs ongoingAfter pings)"

lemma ongoing_reported: "ongoing_report ongoingAfter sentAt True polls = []"
  by (induction polls) auto

text \<open>A stall is reported as lasting at most once, and once it has been seen to last that long.\<close>

lemma ongoing_once:
  "length (ongoing_report ongoingAfter sentAt False polls) =
     (if \<exists>(now, later) \<in> set polls. now - sentAt \<ge> ongoingAfter then 1 else 0)"
  by (induction polls) (auto simp: ongoing_reported)

text \<open>Responsive pings report nothing.\<close>

lemma detector_quiet:
  assumes "\<forall>(sentAt, polls, stopped, replied) \<in> set pings.
      (\<forall>(now, later) \<in> set polls. now - sentAt < ongoingAfter) \<and> to_ms (replied - sentAt) \<le> thresholdMs"
  shows "detector_run thresholdMs ongoingAfter pings = []"
proof -
  have "ongoing_report ongoingAfter sentAt False polls = []"
    if "\<forall>(now, later) \<in> set polls. now - sentAt < ongoingAfter" for sentAt polls
    using that by (induction polls) auto
  with assms show ?thesis
    by (induction pings) (auto simp: ping_reports_def Let_def not_less split: if_splits)
qed

end
