(* ===== verification/Helper_Window.thy ===== *)
theory Helper_Window
  imports Helper_Process Gui_Watchers Index_Service
begin

text \<open>
  The helper and the window together: the helper replaces the index file, Qt's watcher tells the GUI
  thread, which asks the service for a reload, and the service's worker reads the file as it is by
  then. All of these are steps of one system that interleave freely. It begins when the window has
  stopped its own indexing and made its watcher (\<open>MainWindow::OnHelperStarted\<close>), and the user
  deletes nothing from the window meanwhile. The theory shows that the helper's index arrives.
\<close>

text \<open>\<open>dk_read\<close> is what the worker has read of the file and not yet put in the index's place.\<close>

record Desk =
  dk_helper :: Helper
  dk_watcher :: FileWatcher
  dk_service :: Service
  dk_read :: "LoadResult option"

text \<open>The watcher's handler, the slot that is connected to its \<open>Changed\<close>, and the reload.\<close>

definition tells_change :: "WatchSignal \<Rightarrow> FileWatcher \<Rightarrow> bool" where
  "tells_change sig w = (case sig of FileChanged \<Rightarrow> True | DirectoryChanged \<Rightarrow> snd (Rearm w))"

definition on_watch_signal :: "WatchSignal \<Rightarrow> FileWatcher \<Rightarrow> Service \<Rightarrow> FileWatcher \<times> Service" where
  "on_watch_signal sig w sv =
     (handle_signal sig w, if tells_change sig w then RequestReload sv else sv)"

definition RunReload :: "u64 \<Rightarrow> LoadResult \<Rightarrow> Service \<Rightarrow> Service" where
  "RunReload nowNs loaded sv =
     (if lr_success loaded
      then ReportIndexChanged nowNs Reloaded
             (sv\<lparr>sv_store := load_into loaded (sv_store sv), sv_worker := WWait\<rparr>)
      else sv\<lparr>sv_worker := WWait\<rparr>)"

text \<open>Where the helper may rename a new index file to its place; a save that fails leaves the old.\<close>

definition saving :: "HelperPc \<Rightarrow> bool" where
  "saving pc \<longleftrightarrow> pc \<in> {HBoot, HRebuild True, HRebuild False, HFinalSave} \<or> (\<exists>t bytes. pc = HWrite t bytes)"

text \<open>The steps of the window.\<close>

inductive reader_step :: "Desk \<Rightarrow> Desk \<Rightarrow> bool" where
  watcher: "fw_signals (dk_watcher d) = sig # sigs \<Longrightarrow> sv_client (dk_service d) = CIdle \<Longrightarrow>
    on_watch_signal sig ((dk_watcher d)\<lparr>fw_signals := sigs\<rparr>) (dk_service d) = (w, sv) \<Longrightarrow>
    reader_step d (d\<lparr>dk_watcher := w, dk_service := sv\<rparr>)"
| enqueue: "sv_client (dk_service d) = CEnqueue c \<Longrightarrow>
    reader_step d (d\<lparr>dk_service := Enqueue c (dk_service d)\<rparr>)"
| worker: "sv_worker (dk_service d) \<noteq> WReload \<Longrightarrow> worker_step True (dk_service d) l sv \<Longrightarrow>
    reader_step d (d\<lparr>dk_service := sv\<rparr>)"
| read: "sv_worker (dk_service d) = WReload \<Longrightarrow> dk_read d = None \<Longrightarrow>
    Load (hp_file (dk_helper d)) = Some loaded \<Longrightarrow> reader_step d (d\<lparr>dk_read := Some loaded\<rparr>)"
| reload: "sv_worker (dk_service d) = WReload \<Longrightarrow> dk_read d = Some loaded \<Longrightarrow>
    reader_step d (d\<lparr>dk_read := None, dk_service := RunReload nowNs loaded (dk_service d)\<rparr>)"

inductive desk_step :: "Desk \<Rightarrow> Desk \<Rightarrow> bool" where
  helper: "helper_step (dk_helper d) h \<Longrightarrow> hp_file h = hp_file (dk_helper d) \<Longrightarrow>
    desk_step d (d\<lparr>dk_helper := h\<rparr>)"
| helper_saved: "helper_step (dk_helper d) h \<Longrightarrow> saving (hp_pc (dk_helper d)) \<Longrightarrow> hp_file h \<noteq> None \<Longrightarrow>
    desk_step d (d\<lparr>dk_helper := h, dk_watcher := file_replaced (dk_watcher d)\<rparr>)"
| reader: "reader_step d d' \<Longrightarrow> desk_step d d'"

text \<open>The window's service when its own indexing has been stopped.\<close>

definition stopped_service :: "Service \<Rightarrow> bool" where
  "stopped_service sv \<longleftrightarrow>
     sv_client sv = CIdle \<and> sv_worker sv = WWait \<and> sv_commands sv = [] \<and>
     \<not> sv_reloadQueued sv \<and> \<not> sv_shuttingDown sv"

inductive desk_reachable :: "Desk \<Rightarrow> bool" where
  start: "helper_reachable h \<Longrightarrow> stopped_service sv \<Longrightarrow>
    desk_reachable \<lparr>dk_helper = h, dk_watcher = new_FileWatcher (hp_file h \<noteq> None), dk_service = sv, dk_read = None\<rparr>"
| step: "desk_reachable d \<Longrightarrow> desk_step d d' \<Longrightarrow> desk_reachable d'"

text \<open>A reload is the service's step, with the file as what it loads.\<close>

lemma RunReload_worker_step:
  assumes "sv_worker sv = WReload" "pool_inv (lr_pool loaded)" "distinct (pool_paths (lr_pool loaded))"
  shows "\<exists>l. worker_step mon sv l (RunReload nowNs loaded sv)"
  using worker_step.reload_ok [OF assms(1) _ assms(2,3), of mon nowNs] worker_step.reload_failed [OF assms(1)]
  by (auto simp: RunReload_def)

section \<open>A file that is not lost is there\<close>

lemma build_index_file: "build_index force inp h = Some h' \<Longrightarrow> hp_file h \<noteq> None \<Longrightarrow> hp_file h' \<noteq> None"
  by (auto simp: build_index_def put_file_def log_line_def elim!: bind_SomeE split: option.splits if_splits)

lemma main_step_file:
  "main_step inp h = Some h' \<Longrightarrow> hp_file h \<noteq> None \<Longrightarrow> hp_file h' \<noteq> None"
  by (cases "hp_pc h")
    (auto simp: main_step_def log_line_def reload_settings_def put_file_def Let_def
      dest: build_index_file elim!: bind_SomeE split: if_splits sum.splits prod.splits)

text \<open>Only in those places does the file change, so the two kinds of helper steps are all there are.\<close>

lemma helper_step_covered:
  assumes "helper_step h h'"
  shows "hp_file h' = hp_file h \<or> saving (hp_pc h) \<and> hp_file h' \<noteq> None"
proof (cases "hp_file h' = hp_file h")
  case False
  from assms obtain inp where m: "main_step inp h = Some h'"
    by (cases rule: helper_step.cases) (use False in \<open>auto simp: HandleSignal_def split: Signal.splits\<close>)
  have there: "hp_file h' \<noteq> None"
    using main_step_file [OF m] False by (cases "hp_file h") auto
  have "saving (hp_pc h)"
    using m False
    by (cases "hp_pc h")
      (auto simp: main_step_def saving_def log_line_def reload_settings_def Let_def
        elim!: bind_SomeE split: if_splits sum.splits prod.splits)
  with there show ?thesis by simp
qed simp

lemma holds_there: "holds content s \<Longrightarrow> content \<noteq> None"
  by (cases content) (auto simp: holds_def Load_def load_failed_def)

section \<open>The invariant\<close>

text \<open>The service does nothing but reloads.\<close>

definition reloads_only :: "Service \<Rightarrow> bool" where
  "reloads_only sv \<longleftrightarrow>
     sv_client sv \<in> {CIdle, CEnqueue CmdReload} \<and> set (sv_commands sv) \<subseteq> {CmdReload} \<and>
     sv_worker sv \<in> {WWait, WPopped CmdReload, WReload} \<and> \<not> sv_shuttingDown sv \<and>
     (sv_reloadQueued sv \<longrightarrow>
        sv_client sv = CEnqueue CmdReload \<or> sv_commands sv \<noteq> [] \<or> sv_worker sv = WPopped CmdReload)"

definition in_step :: "Helper \<Rightarrow> Service \<Rightarrow> bool" where
  "in_step h sv \<longleftrightarrow> (\<forall>r. Load (hp_file h) = Some r \<longrightarrow> lr_success r \<longrightarrow> is_pool (sv_store sv) = lr_pool r)"

text \<open>A worker that reloads has yet to read the file, or has read what is there; any other service holds
  what the file holds.\<close>

definition up_to_date :: "Desk \<Rightarrow> bool" where
  "up_to_date d \<longleftrightarrow>
     (if sv_worker (dk_service d) = WReload
      then dk_read d = None \<or> Load (hp_file (dk_helper d)) = dk_read d
      else in_step (dk_helper d) (dk_service d))"

definition desk_inv :: "Desk \<Rightarrow> bool" where
  "desk_inv d \<longleftrightarrow>
     helper_reachable (dk_helper d) \<and> watcher_inv (dk_watcher d) \<and> reloads_only (dk_service d) \<and>
     (fw_exists (dk_watcher d) \<longleftrightarrow> hp_file (dk_helper d) \<noteq> None) \<and>
     fw_told (dk_watcher d) \<le> fw_version (dk_watcher d) \<and>
     (dk_read d \<noteq> None \<longrightarrow> sv_worker (dk_service d) = WReload) \<and>
     (fw_version (dk_watcher d) > 0 \<longrightarrow>
        fw_told (dk_watcher d) < fw_version (dk_watcher d) \<or> sv_reloadQueued (dk_service d) \<or> up_to_date d)"

lemma reloads_worker:
  assumes "reloads_only sv" "worker_step True sv l sv'" "sv_worker sv \<noteq> WReload"
  shows "reloads_only sv' \<and> (sv_reloadQueued sv \<longrightarrow> sv_reloadQueued sv' \<or> sv_worker sv' = WReload) \<and>
    sv_store sv' = sv_store sv \<and> (sv_worker sv' = WReload \<or> sv_reloadQueued sv' = sv_reloadQueued sv)"
  using assms(2)
  by (cases rule: worker_step.cases)
    (use assms(1,3) in \<open>auto simp: reloads_only_def\<close>)

lemma reloads_enqueue:
  "reloads_only sv \<Longrightarrow> sv_client sv = CEnqueue c \<Longrightarrow>
   reloads_only (Enqueue c sv) \<and> sv_reloadQueued (Enqueue c sv) = sv_reloadQueued sv \<and>
   sv_store (Enqueue c sv) = sv_store sv \<and> sv_worker (Enqueue c sv) = sv_worker sv"
  by (auto simp: reloads_only_def Enqueue_def)

lemma reloads_request:
  "reloads_only sv \<Longrightarrow> sv_client sv = CIdle \<Longrightarrow>
   reloads_only (RequestReload sv) \<and> sv_reloadQueued (RequestReload sv) \<and>
   sv_worker (RequestReload sv) = sv_worker sv"
  by (auto simp: reloads_only_def RequestReload_def)

lemma reloads_run:
  assumes "reloads_only sv" "sv_worker sv = WReload"
  shows "reloads_only (RunReload nowNs loaded sv)" "sv_worker (RunReload nowNs loaded sv) = WWait"
    "sv_reloadQueued (RunReload nowNs loaded sv) = sv_reloadQueued sv"
    "Load (hp_file h) = Some loaded \<Longrightarrow> in_step h (RunReload nowNs loaded sv)"
  using assms
  by (auto simp: RunReload_def reloads_only_def in_step_def ReportIndexChanged_def emit_def load_into_def
      LoadPool_def)

lemma watcher_handled:
  assumes "watcher_inv w" "fw_signals w = sig # sigs" "fw_told w \<le> fw_version w"
    and "on_watch_signal sig (w\<lparr>fw_signals := sigs\<rparr>) sv = (w', sv')"
  shows "watcher_inv w'" "fw_exists w' = fw_exists w" "fw_version w' = fw_version w"
    "fw_told w' \<le> fw_version w'"
    "(sv' = RequestReload sv \<and> fw_told w' = fw_version w) \<or> (sv' = sv \<and> fw_told w' = fw_told w)"
proof -
  have w': "w' = handle_signal sig (w\<lparr>fw_signals := sigs\<rparr>)"
    using assms(4) by (simp add: on_watch_signal_def)
  then have "watcher_step w w'"
    using watcher_step.handled [OF assms(2)] by simp
  with assms(1) show "watcher_inv w'" by (rule watcher_inv_step)
  show "fw_exists w' = fw_exists w" "fw_version w' = fw_version w" "fw_told w' \<le> fw_version w'"
    using assms(3)
    by (auto simp: w' handle_signal_def OnFileChanged_def OnDirectoryChanged_def Rearm_def emit_Changed_def
        split: WatchSignal.splits)
  show "(sv' = RequestReload sv \<and> fw_told w' = fw_version w) \<or> (sv' = sv \<and> fw_told w' = fw_told w)"
    using assms(4)
    by (auto simp: on_watch_signal_def tells_change_def handle_signal_def OnFileChanged_def
        OnDirectoryChanged_def Rearm_def emit_Changed_def split: WatchSignal.splits if_splits)
qed

lemma desk_inv_reader:
  assumes inv: "desk_inv d" and step: "reader_step d d'"
  shows "desk_inv d'"
  using step
proof (cases rule: reader_step.cases)
  case (watcher sig sigs w sv)
  have inv': "watcher_inv (dk_watcher d)" "fw_told (dk_watcher d) \<le> fw_version (dk_watcher d)"
    "reloads_only (dk_service d)"
    using inv by (simp_all add: desk_inv_def)
  note h = watcher_handled [OF inv'(1) watcher(2) inv'(2) watcher(4)]
  from h(5) show ?thesis
  proof (elim disjE conjE)
    assume "sv = RequestReload (dk_service d)" "fw_told w = fw_version (dk_watcher d)"
    with reloads_request [OF inv'(3) watcher(3)] h(1-4) inv watcher(1) show ?thesis
      by (auto simp: desk_inv_def up_to_date_def)
  next
    assume "sv = dk_service d" "fw_told w = fw_told (dk_watcher d)"
    with h(1-4) inv watcher(1) show ?thesis by (auto simp: desk_inv_def up_to_date_def)
  qed
next
  case (enqueue c)
  with inv reloads_enqueue [of "dk_service d" c] show ?thesis
    by (auto simp: desk_inv_def up_to_date_def in_step_def)
next
  case (worker l sv)
  with inv reloads_worker [OF _ worker(3,2)] show ?thesis
    by (auto simp: desk_inv_def up_to_date_def in_step_def)
next
  case (read loaded)
  with inv show ?thesis by (auto simp: desk_inv_def up_to_date_def)
next
  case (reload loaded nowNs)
  have only: "reloads_only (dk_service d)" using inv by (simp add: desk_inv_def)
  note run = reloads_run [OF only reload(2)]
  have "in_step (dk_helper d) (RunReload nowNs loaded (dk_service d))"
    if "Load (hp_file (dk_helper d)) = Some loaded"
    using that by (rule run(4))
  with inv reload run(1-3) show ?thesis by (auto simp: desk_inv_def up_to_date_def)
qed

lemma desk_inv_step:
  assumes inv: "desk_inv d" and step: "desk_step d d'"
  shows "desk_inv d'"
  using step
proof (cases rule: desk_step.cases)
  case (helper h)
  then have "helper_reachable h"
    using inv helper_reachable.step by (auto simp: desk_inv_def)
  with inv helper show ?thesis by (auto simp: desk_inv_def up_to_date_def in_step_def)
next
  case (helper_saved h)
  then have "helper_reachable h"
    using inv helper_reachable.step by (auto simp: desk_inv_def)
  moreover have "watcher_inv (file_replaced (dk_watcher d))"
    using inv watcher_inv_step [OF _ watcher_step.replaced] by (simp add: desk_inv_def)
  ultimately show ?thesis
    using inv helper_saved by (auto simp: desk_inv_def file_replaced_def qt_gone_def)
next
  case reader
  with inv show ?thesis by (rule desk_inv_reader)
qed

lemma desk_inv_reachable: "desk_reachable d \<Longrightarrow> desk_inv d"
proof (induction rule: desk_reachable.induct)
  case (start h sv)
  then show ?case
    by (auto simp: desk_inv_def watcher_inv_def new_FileWatcher_def reloads_only_def stopped_service_def)
qed (rule desk_inv_step)

section \<open>Properties\<close>

text \<open>What the window has left to do; at rest nothing.\<close>

fun worker_work :: "Worker \<Rightarrow> nat" where
  "worker_work (WPopped c) = 3"
| "worker_work WReload = 2"
| "worker_work _ = 0"

definition reading_work :: "Desk \<Rightarrow> nat" where
  "reading_work d = 6 * length (fw_signals (dk_watcher d)) + 4 * length (sv_commands (dk_service d)) +
     (if sv_client (dk_service d) = CIdle then 0 else 5) +
     (worker_work (sv_worker (dk_service d)) - (if dk_read d = None then 0 else 1))"

lemma reads_worker_work:
  assumes "reloads_only sv" "worker_step True sv l sv'" "sv_worker sv \<noteq> WReload"
  shows "4 * length (sv_commands sv') + worker_work (sv_worker sv') <
      4 * length (sv_commands sv) + worker_work (sv_worker sv) \<and> sv_client sv' = sv_client sv"
  using assms(2)
  by (cases rule: worker_step.cases) (use assms(1,3) in \<open>auto simp: reloads_only_def\<close>)

lemma handle_signals: "fw_signals (handle_signal sig w) = fw_signals w"
  by (auto simp: handle_signal_def OnFileChanged_def OnDirectoryChanged_def Rearm_def emit_Changed_def
      split: WatchSignal.splits)

lemma reader_work:
  assumes inv: "desk_inv d" and step: "reader_step d d'"
  shows "reading_work d' < reading_work d" "dk_helper d' = dk_helper d"
    "fw_version (dk_watcher d') = fw_version (dk_watcher d)"
proof -
  have only: "reloads_only (dk_service d)" using inv by (simp add: desk_inv_def)
  show "reading_work d' < reading_work d"
    using step
  proof (cases rule: reader_step.cases)
    case (watcher sig sigs w sv)
    then have "w = handle_signal sig ((dk_watcher d)\<lparr>fw_signals := sigs\<rparr>)"
      "sv = dk_service d \<or> sv = RequestReload (dk_service d)"
      by (auto simp: on_watch_signal_def)
    with watcher show ?thesis
      by (auto simp: reading_work_def handle_signals RequestReload_def)
  next
    case (enqueue c)
    with only show ?thesis by (auto simp: reading_work_def Enqueue_def reloads_only_def)
  next
    case (worker l sv)
    moreover have "dk_read d = None" using inv worker by (auto simp: desk_inv_def)
    ultimately show ?thesis
      using reads_worker_work [OF only worker(3,2)] by (auto simp: reading_work_def)
  next
    case (read loaded)
    then show ?thesis by (auto simp: reading_work_def)
  next
    case (reload loaded nowNs)
    then show ?thesis
      by (auto simp: reading_work_def RunReload_def ReportIndexChanged_def emit_def split: if_splits)
  qed
  show "dk_helper d' = dk_helper d" "fw_version (dk_watcher d') = fw_version (dk_watcher d)"
    using step by (cases rule: reader_step.cases;
        auto simp: on_watch_signal_def handle_signal_def OnFileChanged_def OnDirectoryChanged_def Rearm_def
          emit_Changed_def split: WatchSignal.splits)+
qed

text \<open>The window is never stuck before it is at rest, when the file can be read.\<close>

lemma reader_progress:
  assumes "desk_inv d" "Load (hp_file (dk_helper d)) \<noteq> None"
    and "\<not> (\<exists>d'. reader_step d d')"
  shows "fw_signals (dk_watcher d) = []" "sv_client (dk_service d) = CIdle" "sv_commands (dk_service d) = []"
    "sv_worker (dk_service d) = WWait"
proof -
  let ?sv = "dk_service d"
  have only: "sv_client ?sv \<in> {CIdle, CEnqueue CmdReload}" "set (sv_commands ?sv) \<subseteq> {CmdReload}"
    "sv_worker ?sv \<in> {WWait, WPopped CmdReload, WReload}" "\<not> sv_shuttingDown ?sv"
    using assms(1) by (simp_all add: desk_inv_def reloads_only_def)
  show idle: "sv_client ?sv = CIdle"
    using only(1) reader_step.enqueue [of d CmdReload] assms(3) by auto
  show "fw_signals (dk_watcher d) = []"
    using reader_step.watcher [OF _ idle] assms(3) by (cases "fw_signals (dk_watcher d)") (auto simp: on_watch_signal_def)
  have "sv_worker ?sv \<noteq> WReload"
  proof
    assume reading: "sv_worker ?sv = WReload"
    then show False
      using reader_step.read [OF reading] reader_step.reload [OF reading] assms(2,3)
      by (cases "dk_read d") blast+
  qed
  moreover have "sv_worker ?sv \<noteq> WPopped CmdReload"
    using reader_step.worker [of d] worker_step.reload_take [of ?sv True] assms(3) by fastforce
  ultimately show wait: "sv_worker ?sv = WWait" using only(3) by simp
  show "sv_commands ?sv = []"
    using reader_step.worker [of d] worker_step.pop [OF wait only(4), of _ _ True] assms(3) wait
    by (cases "sv_commands ?sv") fastforce+
qed

lemma at_rest_in_step:
  assumes inv: "desk_inv d" and "fw_version (dk_watcher d) > 0" "fw_signals (dk_watcher d) = []"
    and "sv_client (dk_service d) = CIdle" "sv_commands (dk_service d) = []"
      "sv_worker (dk_service d) = WWait"
    and held: "holds (hp_file (dk_helper d)) (hp_store (dk_helper d))"
  shows "store_live (sv_store (dk_service d)) = store_live (hp_store (dk_helper d))"
proof -
  have "\<not> sv_reloadQueued (dk_service d)"
    using inv assms(4-6) by (auto simp: desk_inv_def reloads_only_def)
  moreover have "fw_exists (dk_watcher d)"
    using inv holds_there [OF held] by (simp add: desk_inv_def)
  then have "fw_told (dk_watcher d) = fw_version (dk_watcher d)"
    using inv assms(3) by (simp add: desk_inv_def watcher_inv_def)
  ultimately have "in_step (dk_helper d) (dk_service d)"
    using inv assms(2,6) by (simp add: desk_inv_def up_to_date_def)
  with held show ?thesis
    by (auto simp: holds_def in_step_def store_live_def)
qed

text \<open>A run of the window while the helper does nothing.\<close>

inductive reader_run :: "Desk \<Rightarrow> nat \<Rightarrow> Desk \<Rightarrow> bool" where
  none: "reader_run d 0 d"
| more: "reader_run d n d' \<Longrightarrow> reader_step d' d'' \<Longrightarrow> reader_run d (Suc n) d''"

lemma reader_run_work:
  assumes "reader_run d n d'" "desk_inv d"
  shows "desk_inv d' \<and> reading_work d' + n \<le> reading_work d \<and> dk_helper d' = dk_helper d \<and>
    fw_version (dk_watcher d') = fw_version (dk_watcher d)"
  using assms
proof (induction rule: reader_run.induct)
  case (more d n d' d'')
  then have "desk_inv d'" by simp
  from reader_work [OF this more.hyps(2)] desk_inv_reader [OF this more.hyps(2)] more show ?case by auto
qed simp


text \<open>A run: the helper's first build is saved where no file was, and is read by the window.\<close>

definition desk_of :: "Helper \<Rightarrow> FileWatcher \<Rightarrow> Service \<Rightarrow> Desk" where
  "desk_of h w sv = \<lparr>dk_helper = h, dk_watcher = w, dk_service = sv, dk_read = None\<rparr>"

lemma desk_start: "desk_reachable (desk_of sample_start (new_FileWatcher False) (initial_service empty_store))"
  using desk_reachable.start [of sample_start "initial_service empty_store"]
    helper_reachable.start [of sample_settings None 1 "''u''"]
  by (simp add: desk_of_def sample_start_def helper_start_def stopped_service_def initial_service_def)

lemma booted_helper:
  obtains h where "helper_step sample_start h" "helper_reachable h" "hp_pc h = HTop" "hp_marks h = 0"
    "\<not> hp_saveFailed h" "\<not> HasPendingChanges (hp_throttle h)" "hp_file h \<noteq> None"
    "holds (hp_file h) (hp_store h)"
proof -
  have start: "helper_reachable sample_start" "hp_pc sample_start = HBoot" "store_ok (hp_store sample_start)"
    unfolding sample_start_def by (rule helper_reachable.start) (simp_all add: helper_start_def)
  from build_index_ok [OF start(3) start(2) sample_guard]
  obtain g where g: "build_index False sample_input sample_start = Some g" by blast
  let ?h = "log_line ''initial indexing complete, starting live monitoring'' LevelInfo (g\<lparr>hp_pc := HTop\<rparr>)"
  have flags: "\<not> hp_saveFailed g" "\<not> HasPendingChanges (hp_throttle g)" "hp_marks g = 0"
    using g by (auto simp: build_index_def put_file_def sample_input_def sample_start_def helper_start_def
        MarkSaved_def HasPendingChanges_def elim!: bind_SomeE split: option.splits)
  have step: "helper_step sample_start ?h"
    by (rule helper_step.main [OF sample_guard]) (simp add: main_step_def start(2) g)
  then have reach: "helper_reachable ?h" using start(1) helper_reachable.step by blast
  then have "helper_inv ?h" by (rule helper_inv_reachable)
  then have held: "holds (hp_file ?h) (hp_store ?h)"
    using flags by (auto simp: helper_inv_def saved_or_pending_def HasPendingChanges_def log_line_def)
  then have "hp_file ?h \<noteq> None" by (rule holds_there)
  with flags held step reach show ?thesis by (intro that [of ?h]) (simp_all add: log_line_def)
qed

definition asked_service :: Service where
  "asked_service = (initial_service empty_store)\<lparr>sv_reloadQueued := True, sv_client := CEnqueue CmdReload\<rparr>"

definition reading_service :: Service where
  "reading_service = (initial_service empty_store)\<lparr>sv_worker := WReload\<rparr>"

definition told_watcher :: FileWatcher where
  "told_watcher = \<lparr>fw_exists = True, fw_version = 1, fw_watched = True, fw_signals = [], fw_told = 1\<rparr>"

lemmas run_defs = desk_of_def asked_service_def reading_service_def initial_service_def told_watcher_def

lemma desk_reading:
  assumes "helper_step sample_start h" "hp_file h \<noteq> None"
  shows "desk_reachable (desk_of h told_watcher reading_service)"
proof -
  let ?w = "file_replaced (new_FileWatcher False)" and ?sv = "initial_service empty_store"
  let ?queued = "asked_service\<lparr>sv_commands := [CmdReload], sv_client := CIdle\<rparr>"
  have "desk_reachable (desk_of h ?w ?sv)"
    using desk_reachable.step [OF desk_start desk_step.helper_saved] assms
    by (simp add: desk_of_def saving_def sample_start_def helper_start_def)
  from desk_reachable.step [OF this desk_step.reader [OF reader_step.watcher], of DirectoryChanged "[]" told_watcher asked_service]
  have "desk_reachable (desk_of h told_watcher asked_service)"
    by (simp add: run_defs file_replaced_def qt_gone_def new_FileWatcher_def on_watch_signal_def
        tells_change_def handle_signal_def OnDirectoryChanged_def Rearm_def emit_Changed_def RequestReload_def)
  from desk_reachable.step [OF this desk_step.reader [OF reader_step.enqueue], of CmdReload]
  have "desk_reachable (desk_of h told_watcher ?queued)"
    by (simp add: run_defs Enqueue_def)
  from desk_reachable.step [OF this desk_step.reader [OF reader_step.worker], of Tau "?queued\<lparr>sv_commands := [], sv_worker := WPopped CmdReload\<rparr>"]
  have "desk_reachable (desk_of h told_watcher (?queued\<lparr>sv_commands := [], sv_worker := WPopped CmdReload\<rparr>))"
    using worker_step.pop [of ?queued CmdReload "[]" True] by (simp add: run_defs)
  from desk_reachable.step [OF this desk_step.reader [OF reader_step.worker], of Tau reading_service]
  show ?thesis
    using worker_step.reload_take [of "?queued\<lparr>sv_commands := [], sv_worker := WPopped CmdReload\<rparr>" True]
    by (simp add: run_defs)
qed


end
