(* ===== verification/Spec2Isabelle.thy ===== *)
theory Spec2Isabelle
  imports
    Index_Store Index_Serializer Simd_Search Token_Matcher Search_Engine
    Path_Utils Roots_Diff Logger Ini_File Settings_Store Status_File Save_Throttle
    Mount_Enumerator Walk_Scanner Inotify_Watcher Elevation Fanotify_Monitor
    Indexer_Core Index_Service Service_Invariants Service_Removals Service_Rest
    Live_Tracking Helper_Process Built_Search
    Result_Table Result_View Search_Ui Dialogs Main_Window Window_Invariants
    Window_Freshness Window_Close Window_Desktop Gui_Watchers Helper_Window
begin

text \<open>
  \<^bold>\<open>The program.\<close> \<open>indexed\<close> keeps the names of all files below some selected roots in memory and
  finds them as the user types. A window (\<open>src/src/ui\<close>) and a helper that may run as root
  (\<open>src/src/helper\<close>) share a library (\<open>src/src/core\<close>). A walker scans the roots with several
  threads; the indexer collects what it reports in a staging pool, swaps that in as the live
  index and saves it; monitors report changes, which the indexer applies to the live index. The
  window leaves all of this to a service with a worker, a file-operations thread and a
  monitoring thread. When a helper runs, the helper scans and monitors instead, the window
  stops its own indexing and reloads the index file whenever the helper has replaced it. The
  window talks to the helper by signals and through the settings file, the helper to the window
  through the index file and a status file.

  \<^bold>\<open>Conventions.\<close> A definition has the name of the function it models, after the class where two
  classes share it. Structures are records with a short prefix, enumerations datatypes, unsigned
  integers words of their width, \<open>int\<close> an unbounded integer with its range as a hypothesis, and
  strings lists of bytes. A partial operation (a read outside a buffer, an exception, an
  overflow of a signed integer) is an \<open>option\<close>, and the theorems say where it is not \<open>None\<close>.
  State is passed explicitly; what runs concurrently is an inductive step relation, whose
  reachable states are all interleavings. A step is a critical section, a system call, or a
  handler of the GUI thread. The file system, the kernel, the clock, Qt, RE2, utf8proc, libblkid
  and \<open>realpath\<close> are arguments.

  \<^bold>\<open>The data\<close> (\<open>core/storage\<close>, \<open>core/search\<close>).

  \<^item> \<open>Prelude\<close>, \<open>Byte_Codec\<close>, \<open>Text_Codec\<close>, \<open>File_Types\<close>: shared vocabulary; buffers, numbers as
    text, escapes of line formats (the locale \<open>line_codec\<close>, which the settings, the status file
    and the mount table instantiate), and the types the components exchange.
  \<^item> \<open>Index_Pool\<close> (\<open>IndexPool.cpp\<close>): entries in flat buffers with offsets. The invariant
    \<open>pool_inv\<close> says that every offset is in range; \<open>pool_abs\<close> reads the pool as a list of entries
    with a deleted mark, and every operation refines an operation on that list.
  \<^item> \<open>Index_Store\<close> (\<open>IndexStore.cpp\<close>): the live and the staging pool. Its contract is the locale
    \<open>index_store\<close>, in which the effects of removals and changes on the set of paths are proved.
  \<^item> \<open>Crc_Check\<close>, \<open>Index_Serializer\<close> (\<open>Crc32.cpp\<close>, \<open>IndexSerializer.cpp\<close>): the index file. What is
    written is read back, every truncation is rejected, arbitrary bytes are never read outside
    their buffer, and a crash or failure at any step of a save leaves the old or the new file.
  \<^item> \<open>Simd_Search\<close>, \<open>Token_Matcher\<close>, \<open>Search_Engine\<close>: the vectorised substring search in each tier
    equals \<open>std::string_view::find\<close> (the locale \<open>searcher\<close>); a search returns exactly the hits of
    the live entries, in order, up to the cap and to cancellation.

  \<^bold>\<open>Files and configuration\<close> (\<open>core/settings\<close>, \<open>core/platform\<close>, \<open>core/indexer\<close>).

  \<^item> \<open>Path_Utils\<close>, \<open>Roots_Diff\<close>, \<open>Logger\<close>, \<open>Ini_File\<close>, \<open>Settings_Store\<close>, \<open>Status_File\<close>,
    \<open>Save_Throttle\<close>: directories, minimal sets of roots, log levels, the key-value file, the
    settings, the status file and the pace of saving live changes; round trips, and what is
    lost where they fail.
  \<^item> \<open>Mount_Enumerator\<close>: the mount table; parsing gives back what the kernel prints.
  \<^item> \<open>Elevation\<close>: the file operations of the root helper against a file system that other
    processes change between any two system calls; root acts only on what it has checked, and
    no descriptor leaks.
  \<^item> \<open>Walk_Scanner\<close>: the parallel walk; every run ends, no worker is stuck before, and an
    uncancelled run reports what a sequential traversal does. The measure \<open>W\<close> of \<open>finite_tree\<close>
    bounds a directory's reads and all below it, so that depth \<open>W\<close> is enough for \<open>traverse\<close>.
  \<^item> \<open>Inotify_Watcher\<close>, \<open>Fanotify_Monitor\<close>: from kernel events to change events; replaying the
    reported changes gives the paths the events give, and the parser stays in its buffer.

  \<^bold>\<open>Indexing.\<close>

  \<^item> \<open>Indexer_Core\<close> (\<open>Indexer.cpp\<close>): building, loading, incremental changes and live events over
    the callbacks of a scan. \<open>event_ok\<close> is what the indexer relies on of a monitor.
  \<^item> \<open>Live_Tracking\<close>: monitors and indexer together. The interface of a monitor is the locale
    \<open>change_monitor\<close>, which both monitors provide, and \<open>monitor_pair\<close> that of two that take turns:
    the index ends with the paths the kernel events lead to, when each file that a re-scan
    misses is taken away by an event still to come. The theory ends with the events on which the
    index goes astray: renames over a file, directories that move, excluded and foreign paths.
  \<^item> \<open>Built_Search\<close>: walker, indexer, index file and search engine together. The scanner
    interface is the locale \<open>file_scanner\<close>; the walker provides its law.
  \<^item> \<open>Index_Service\<close> (\<open>IndexService.cpp\<close>): the service as steps of its client, its worker, the
    file-operations thread and monitoring. \<open>Service_Invariants\<close>: busy reports, cancellation of
    superseded scans, reloads. \<open>Service_Removals\<close>: removed files do not come back; the worker
    is never stuck. \<open>Service_Rest\<close>: \<open>Flush\<close>, \<open>Shutdown\<close>, and when the index is saved.
  \<^item> \<open>Helper_Process\<close> (\<open>main_helper.cpp\<close>): start-up, signals and the main loop; the index file
    holds the index when nothing is pending, and the helper ends after \<open>SIGTERM\<close> within 14 steps
    of its main thread, the longest way to its exit.

  \<^bold>\<open>The window\<close> (\<open>src/src/ui\<close>).

  \<^item> \<open>Result_Table\<close>, \<open>Result_View\<close>: the rows, their order (the locale \<open>strict_weak_order\<close>), the
    texts of the status bar; selection, keys, clipboard and drag.
  \<^item> \<open>Search_Ui\<close>: search box, coordinator with its search threads, and table; however typing,
    timers, searches and deliveries interleave, the table ends with the answer to what is typed.
  \<^item> \<open>Dialogs\<close>: the settings dialog and the first run.
  \<^item> \<open>Main_Window\<close>: the handlers, as steps over the service and the search interface;
    \<open>Window_Invariants\<close>: the search box, deletions, the hand-over to and from the helper;
    \<open>Window_Freshness\<close>: at rest the table answers the box from the present index;
    \<open>Window_Close\<close>: the destructor. \<open>Window_Desktop\<close>: what the window asks of the desktop, the
    threads that post to it, and the menus; nothing reaches a window that is gone.
  \<^item> \<open>Gui_Watchers\<close>: the watcher of the index file and the detector of GUI stalls.
  \<^item> \<open>Helper_Window\<close>: helper, index file, watcher and the window's service as one system: once the
    helper has saved, the window holds the helper's index after at most \<open>reading_work\<close> of its steps.

  \<^bold>\<open>Approximations.\<close> The end of a command of the service (saving removals, reporting, starting
  the monitors) is one step; so is a live event, whose changes are two in the code when it
  re-adds a file. The service takes requests from one thread, as the window makes
  them. The events that monitors deliver to the service satisfy \<open>event_ok\<close>, and a scan that
  enters its theorems about repeated paths reports no path twice. \<open>std::sort\<close> is a sort by
  insertion: the order of rows that compare equal is not promised. In \<open>Search_Ui\<close> texts of
  Qt are lists of UTF-16 units, and in \<open>Dialogs\<close> and \<open>Result_View\<close> the conversions are parameters.
  The kernel's inotify, fanotify and mount-table formats and Qt's file watcher follow their
  documentation. While a helper runs, what the window loads is any well-formed index file.

  \<^bold>\<open>Not modelled.\<close> Laying out and painting widgets, the About box, what the desktop does when it is
  asked to open or reveal a file, and the version constant: they change no state of the program.
  The lines that the map leaves out are declarations, comments, layout and reading the clock. Waiting on condition variables is the enabledness of a step, joining a thread a
  step enabled when the thread is at rest. Benchmarks and tests are left aside.
\<close>

end
